(* ===== verification/SnipPrelude.thy ===== *)
theory SnipPrelude
  imports Main "HOL-Library.Word" "HOL-Library.Code_Target_Nat"
begin

text \<open>
  What every component shares: the named collections the component theories feed, the
  machine integers, the clock, and generic facts on lists and on the results
  \<open>error + value\<close> and \<open>result \<times> state\<close> in which effectful Go functions are written.
\<close>

named_theorems go_simps \<open>defining equations of the Go library functions that proofs unfold\<close>
named_theorems go_intro \<open>closure facts used as introduction rules\<close>

type_synonym u64 = "64 word"
type_synonym time = int \<comment> \<open>\<open>time.Time\<close>, in nanoseconds since the Unix epoch\<close>
type_synonym duration = int \<comment> \<open>\<open>time.Duration\<close>, in nanoseconds, always in the range of an int64\<close>

text \<open>Go's \<open>int64\<close> arithmetic wraps in two's complement.\<close>

definition int64 :: "int \<Rightarrow> int" where
  "int64 x = signed_take_bit 63 x"

lemma int64_id: "- (2 ^ 63) \<le> x \<Longrightarrow> x < 2 ^ 63 \<Longrightarrow> int64 x = x"
  by (simp add: int64_def signed_take_bit_int_eq_self)

lemma u64_bound: "unat (x :: u64) < 2 ^ 64"
  using unsigned_less [of x] by simp

definition second :: duration where "second = 1000000000"
definition minute :: duration where "minute = 60 * second"
definition hour :: duration where "hour = 60 * minute"

lemmas duration_defs = second_def minute_def hour_def

text \<open>The state-passing style: a call returns its result and the state after it.\<close>

type_synonym ('s, 'a) call = "'s \<Rightarrow> 'a \<times> 's"

definition is_ok :: "'e + 'a \<Rightarrow> bool" where
  "is_ok r = (case r of Inl _ \<Rightarrow> False | Inr _ \<Rightarrow> True)"

lemma is_ok_simps [simp]: "is_ok (Inr x)" "\<not> is_ok (Inl e)"
  by (simp_all add: is_ok_def)

lemma is_ok_iff: "is_ok r \<longleftrightarrow> (\<exists>x. r = Inr x)"
  by (cases r) simp_all

section \<open>Lists\<close>

text \<open>The first element that satisfies a predicate, as a query with \<open>LIMIT 1\<close> reads it.\<close>

lemma find_Some_in: "find P xs = Some x \<Longrightarrow> x \<in> set xs \<and> P x"
  by (auto simp: find_Some_iff in_set_conv_nth)

lemma find_None_all: "find P xs = None \<longleftrightarrow> (\<forall>x\<in>set xs. \<not> P x)"
  by (auto simp: find_None_iff)

lemma find_append:
  "find P (xs @ ys) = (case find P xs of None \<Rightarrow> find P ys | Some x \<Rightarrow> Some x)"
  by (induction xs) auto

lemma takeWhile_dropWhile_neq:
  "c \<in> set s \<Longrightarrow> takeWhile (\<lambda>x. x \<noteq> c) s @ c # tl (dropWhile (\<lambda>x. x \<noteq> c) s) = s"
  by (induction s) auto

lemma takeWhile_notin: "c \<notin> set (takeWhile (\<lambda>x. x \<noteq> c) s)"
  by (induction s) auto

lemma length_dropWhile_less: "xs \<noteq> [] \<Longrightarrow> length (tl (dropWhile P xs)) < length xs"
  using length_dropWhile_le [of P xs] by (cases xs) (auto simp del: length_dropWhile_le)

end
