(* ===== verification/GoStrings.thy ===== *)
theory GoStrings
  imports SnipPrelude
begin

text \<open>
  The part of Go's \<open>strings\<close>, \<open>strconv\<close> and \<open>unicode/utf8\<close> packages that the program
  calls. A Go string is a sequence of bytes, and so is an Isabelle \<open>string\<close>: a \<open>char\<close> is
  one byte. The functions that work on runes decode UTF-8 first, as \<open>range\<close> does; a byte
  that begins no valid sequence reads as U+FFFD of width one. The tables of
  \<open>unicode\<close> for code points from 128 on are a parameter.
\<close>

abbreviation byte :: "char \<Rightarrow> nat" where
  "byte c \<equiv> of_char c"

definition is_digit :: "char \<Rightarrow> bool" where
  "is_digit c \<longleftrightarrow> 48 \<le> byte c \<and> byte c \<le> 57"

definition is_upper :: "char \<Rightarrow> bool" where
  "is_upper c \<longleftrightarrow> 65 \<le> byte c \<and> byte c \<le> 90"

definition is_lower :: "char \<Rightarrow> bool" where
  "is_lower c \<longleftrightarrow> 97 \<le> byte c \<and> byte c \<le> 122"

definition is_alnum :: "char \<Rightarrow> bool" where
  "is_alnum c \<longleftrightarrow> is_digit c \<or> is_upper c \<or> is_lower c"

lemmas char_class_defs = is_digit_def is_upper_def is_lower_def is_alnum_def

text \<open>A string all of whose bytes are below \<open>utf8.RuneSelf\<close>.\<close>

definition is_ascii :: "string \<Rightarrow> bool" where
  "is_ascii s \<longleftrightarrow> (\<forall>c\<in>set s. byte c < 128)"

lemma is_ascii_simps [simp]:
  "is_ascii []"
  "is_ascii (c # s) \<longleftrightarrow> byte c < 128 \<and> is_ascii s"
  "is_ascii (s @ t) \<longleftrightarrow> is_ascii s \<and> is_ascii t"
  by (auto simp: is_ascii_def)

section \<open>UTF-8\<close>

definition cont_byte :: "nat \<Rightarrow> bool" where
  "cont_byte b \<longleftrightarrow> 128 \<le> b \<and> b < 192"

definition rune_error :: nat where "rune_error = 0xFFFD"

text \<open>
  \<open>utf8.DecodeRuneInString\<close>: the code point the string begins with and its width. The
  second byte's range depends on the first one, which excludes overlong forms,
  surrogates and code points past U+10FFFF.
\<close>

definition decode2 :: "nat \<Rightarrow> nat list \<Rightarrow> nat \<times> nat" where
  "decode2 b0 bs = (case bs of
     b1 # _ \<Rightarrow> if cont_byte b1 then ((b0 - 192) * 64 + (b1 - 128), 2) else (rune_error, 1)
   | [] \<Rightarrow> (rune_error, 1))"

definition decode3 :: "nat \<Rightarrow> nat list \<Rightarrow> nat \<times> nat" where
  "decode3 b0 bs = (case bs of
     b1 # b2 # _ \<Rightarrow>
       if (if b0 = 224 then 160 else 128) \<le> b1 \<and> b1 < (if b0 = 237 then 160 else 192) \<and> cont_byte b2
       then ((b0 - 224) * 4096 + (b1 - 128) * 64 + (b2 - 128), 3) else (rune_error, 1)
   | _ \<Rightarrow> (rune_error, 1))"

definition decode4 :: "nat \<Rightarrow> nat list \<Rightarrow> nat \<times> nat" where
  "decode4 b0 bs = (case bs of
     b1 # b2 # b3 # _ \<Rightarrow>
       if (if b0 = 240 then 144 else 128) \<le> b1 \<and> b1 < (if b0 = 244 then 144 else 192) \<and>
          cont_byte b2 \<and> cont_byte b3
       then ((b0 - 240) * 262144 + (b1 - 128) * 4096 + (b2 - 128) * 64 + (b3 - 128), 4)
       else (rune_error, 1)
   | _ \<Rightarrow> (rune_error, 1))"

definition decode_rune :: "string \<Rightarrow> nat \<times> nat" where
  "decode_rune s = (case map byte s of
     [] \<Rightarrow> (rune_error, 0)
   | b0 # bs \<Rightarrow>
       if b0 < 128 then (b0, 1)
       else if 194 \<le> b0 \<and> b0 < 224 then decode2 b0 bs
       else if 224 \<le> b0 \<and> b0 < 240 then decode3 b0 bs
       else if 240 \<le> b0 \<and> b0 < 245 then decode4 b0 bs
       else (rune_error, 1))"

lemma decode_rune_ascii [simp]: "byte c < 128 \<Longrightarrow> decode_rune (c # s) = (byte c, 1)"
  by (simp add: decode_rune_def)

lemma decode_rune_width_pos: "s \<noteq> [] \<Longrightarrow> 0 < snd (decode_rune s)"
  by (cases s) (auto simp: decode_rune_def decode2_def decode3_def decode4_def split: list.splits)

lemma decode_rune_high:
  assumes "128 \<le> byte c" shows "128 \<le> fst (decode_rune (c # s))"
proof -
  have "128 \<le> fst (decode2 b0 bs)" if "194 \<le> b0" for b0 bs
    using that by (auto simp: decode2_def rune_error_def split: list.splits)
  moreover have "128 \<le> fst (decode3 b0 bs)" if "224 \<le> b0" for b0 bs
    using that by (auto simp: decode3_def rune_error_def split: list.splits)
  moreover have "128 \<le> fst (decode4 b0 bs)" if "240 \<le> b0" for b0 bs
    using that by (auto simp: decode4_def rune_error_def split: list.splits)
  ultimately show ?thesis using assms
    by (simp add: decode_rune_def) (simp add: rune_error_def)
qed

text \<open>The runes of a string with the bytes each was read from, as \<open>for _, r := range s\<close>.\<close>

function runes :: "string \<Rightarrow> (nat \<times> string) list" where
  "runes s = (if s = [] then []
     else let (r, w) = decode_rune s in (r, take w s) # runes (drop w s))"
  by pat_completeness auto
termination
proof (relation "measure length", goal_cases)
  case (2 s x r w)
  then have "0 < w" using decode_rune_width_pos [of s] by (cases "decode_rune s") simp
  with 2(1) show ?case by (cases s) auto
qed simp

declare runes.simps [simp del]

lemma runes_Nil [simp]: "runes [] = []"
  by (simp add: runes.simps)

lemma runes_Cons_ascii [simp]: "byte c < 128 \<Longrightarrow> runes (c # s) = (byte c, [c]) # runes s"
  by (subst runes.simps) simp

lemma runes_ascii: "is_ascii s \<Longrightarrow> runes s = map (\<lambda>c. (byte c, [c])) s"
  by (induction s) simp_all

text \<open>The high part of a string is a rune from 128 on, valid or not.\<close>

lemma runes_Cons_high:
  "128 \<le> byte c \<Longrightarrow> \<exists>r bs rest. runes (c # s) = (r, bs) # rest \<and> 128 \<le> r"
  using decode_rune_high [of c s] by (subst runes.simps) (auto split: prod.splits)

text \<open>\<open>utf8.AppendRune\<close>: surrogates and values past U+10FFFF are written as U+FFFD.\<close>

definition encode_rune :: "nat \<Rightarrow> string" where
  "encode_rune r0 =
     (let r = (if 0x10FFFF < r0 \<or> (0xD800 \<le> r0 \<and> r0 \<le> 0xDFFF) then rune_error else r0)
      in if r < 128 then [char_of r]
         else if r < 2048 then map char_of [192 + r div 64, 128 + r mod 64]
         else if r < 65536 then map char_of [224 + r div 4096, 128 + r div 64 mod 64, 128 + r mod 64]
         else map char_of [240 + r div 262144, 128 + r div 4096 mod 64, 128 + r div 64 mod 64, 128 + r mod 64])"

lemma encode_rune_ascii: "r < 128 \<Longrightarrow> encode_rune r = [char_of r]"
  by (simp add: encode_rune_def)

lemma encode_rune_high: "128 \<le> r \<Longrightarrow> c \<in> set (encode_rune r) \<Longrightarrow> 128 \<le> byte c"
  by (auto simp: encode_rune_def Let_def rune_error_def split: if_splits)

section \<open>The \<open>strings\<close> package\<close>

text \<open>\<open>strings.Map\<close>; a mapping to \<open>None\<close> (Go: a negative rune) drops the rune.\<close>

definition str_map :: "(nat \<Rightarrow> nat option) \<Rightarrow> string \<Rightarrow> string" where
  "str_map f s =
     concat (map (\<lambda>(r, _). case f r of None \<Rightarrow> [] | Some r' \<Rightarrow> encode_rune r') (runes s))"

record unicode_tables =
  uc_lower :: "nat \<Rightarrow> nat"  \<comment> \<open>\<open>unicode.ToLower\<close> on code points from 128 on\<close>
  uc_fold :: "nat \<Rightarrow> nat"   \<comment> \<open>a representative of the \<open>unicode.SimpleFold\<close> orbit\<close>
  uc_print :: "nat \<Rightarrow> bool" \<comment> \<open>\<open>strconv.IsPrint\<close> on code points from 128 on\<close>

text \<open>Tables that leave every code point from 128 on alone, for evaluating examples.\<close>

definition ascii_tables :: unicode_tables where
  "ascii_tables = \<lparr>uc_lower = (\<lambda>r. r), uc_fold = (\<lambda>r. r), uc_print = (\<lambda>_. True)\<rparr>"

definition ascii_lower :: "char \<Rightarrow> char" where
  "ascii_lower c = (if is_upper c then char_of (byte c + 32) else c)"

definition rune_lower :: "unicode_tables \<Rightarrow> nat \<Rightarrow> nat" where
  "rune_lower uc r = (if r < 128 then (if 65 \<le> r \<and> r \<le> 90 then r + 32 else r) else uc_lower uc r)"

text \<open>\<open>strings.ToLower\<close>, with its separate path for ASCII strings.\<close>

definition to_lower :: "unicode_tables \<Rightarrow> string \<Rightarrow> string" where
  "to_lower uc s = (if is_ascii s then map ascii_lower s else str_map (\<lambda>r. Some (rune_lower uc r)) s)"

definition fold_key :: "unicode_tables \<Rightarrow> nat \<Rightarrow> nat" where
  "fold_key uc r = (if r < 128 then (if 65 \<le> r \<and> r \<le> 90 then r + 32 else r) else uc_fold uc r)"

text \<open>\<open>strings.EqualFold\<close>: equality under simple case folding, rune by rune.\<close>

definition equal_fold :: "unicode_tables \<Rightarrow> string \<Rightarrow> string \<Rightarrow> bool" where
  "equal_fold uc s t \<longleftrightarrow>
     map (\<lambda>(r, _). fold_key uc r) (runes s) = map (\<lambda>(r, _). fold_key uc r) (runes t)"

definition has_prefix :: "string \<Rightarrow> string \<Rightarrow> bool" where
  "has_prefix s p \<longleftrightarrow> take (length p) s = p"

definition has_suffix :: "string \<Rightarrow> string \<Rightarrow> bool" where
  "has_suffix s p \<longleftrightarrow> length p \<le> length s \<and> drop (length s - length p) s = p"

definition trim_prefix :: "string \<Rightarrow> string \<Rightarrow> string" where
  "trim_prefix s p = (if has_prefix s p then drop (length p) s else s)"

definition trim_suffix :: "string \<Rightarrow> string \<Rightarrow> string" where
  "trim_suffix s p = (if has_suffix s p then take (length s - length p) s else s)"

text \<open>\<open>strings.Index\<close>: the first position of a substring, \<open>None\<close> for Go's -1.\<close>

fun str_index :: "string \<Rightarrow> string \<Rightarrow> nat option" where
  "str_index [] p = (if p = [] then Some 0 else None)"
| "str_index (c # s) p =
     (if has_prefix (c # s) p then Some 0 else map_option Suc (str_index s p))"

definition str_contains :: "string \<Rightarrow> string \<Rightarrow> bool" where
  "str_contains s p \<longleftrightarrow> str_index s p \<noteq> None"

fun index_byte :: "char \<Rightarrow> string \<Rightarrow> nat option" where
  "index_byte c [] = None"
| "index_byte c (x # s) = (if x = c then Some 0 else map_option Suc (index_byte c s))"

fun last_index_byte :: "char \<Rightarrow> string \<Rightarrow> nat option" where
  "last_index_byte c [] = None"
| "last_index_byte c (x # s) =
     (case last_index_byte c s of Some i \<Rightarrow> Some (Suc i)
      | None \<Rightarrow> if x = c then Some 0 else None)"

text \<open>\<open>strings.Cut\<close> at a separator of one byte: what is before it, what is after, and whether it is there.\<close>

definition cut :: "char \<Rightarrow> string \<Rightarrow> string \<times> string \<times> bool" where
  "cut c s = (if c \<in> set s
     then (takeWhile (\<lambda>x. x \<noteq> c) s, tl (dropWhile (\<lambda>x. x \<noteq> c) s), True)
     else (s, [], False))"

text \<open>\<open>strings.Split\<close> at a separator of one byte.\<close>

fun split_byte :: "char \<Rightarrow> string \<Rightarrow> string list" where
  "split_byte c [] = [[]]"
| "split_byte c (x # s) =
     (if x = c then [] # split_byte c s
      else case split_byte c s of [] \<Rightarrow> [[x]] | p # ps \<Rightarrow> (x # p) # ps)"

definition rune_is_space :: "nat \<Rightarrow> bool" where
  "rune_is_space r \<longleftrightarrow> r \<in> {9, 10, 11, 12, 13, 32, 0x85, 0xA0, 0x1680, 0x2028, 0x2029, 0x202F, 0x205F, 0x3000}
     \<or> (0x2000 \<le> r \<and> r \<le> 0x200A)"

text \<open>\<open>strings.TrimSpace\<close>: Unicode white space off both ends.\<close>

definition trim_space :: "string \<Rightarrow> string" where
  "trim_space s =
     (let sp = (\<lambda>(r, _). rune_is_space r)
      in concat (map snd (rev (dropWhile sp (rev (dropWhile sp (runes s)))))))"

section \<open>The \<open>strconv\<close> package\<close>

text \<open>\<open>strconv.FormatUint(n, 10)\<close>, and the digits \<open>%d\<close> prints.\<close>

fun dec_digits :: "nat \<Rightarrow> string" where
  "dec_digits n = (if n < 10 then [char_of (48 + n)] else dec_digits (n div 10) @ [char_of (48 + n mod 10)])"

declare dec_digits.simps [simp del]

definition format_int :: "int \<Rightarrow> string" where
  "format_int n = (if n < 0 then CHR ''-'' # dec_digits (nat (- n)) else dec_digits (nat n))"

definition digit_val :: "char \<Rightarrow> nat" where
  "digit_val c = byte c - 48"

definition dec_val :: "string \<Rightarrow> nat" where
  "dec_val s = foldl (\<lambda>n c. n * 10 + digit_val c) 0 s"

text \<open>\<open>strconv.ParseUint(s, 10, 64)\<close>: digits only, and the value must fit.\<close>

definition parse_uint64 :: "string \<Rightarrow> u64 option" where
  "parse_uint64 s = (if s \<noteq> [] \<and> (\<forall>c\<in>set s. is_digit c) \<and> dec_val s < 2 ^ 64
     then Some (of_nat (dec_val s)) else None)"

text \<open>\<open>strconv.Atoi\<close>: an optional sign, digits only, and the value must fit an int64.\<close>

definition atoi :: "string \<Rightarrow> int option" where
  "atoi s =
     (let neg = has_prefix s ''-'';
          body = (if neg \<or> has_prefix s ''+'' then tl s else s);
          v = (if neg then - int (dec_val body) else int (dec_val body))
      in if body \<noteq> [] \<and> (\<forall>c\<in>set body. is_digit c) \<and> - (2 ^ 63) \<le> v \<and> v < 2 ^ 63
         then Some v else None)"

end
