(* ===== verification/Domain.thy ===== *)
theory Domain
  imports GoStrings
begin

text \<open>
  The entities of \<open>internal/domain\<close>, the scan result of \<open>internal/scanner/scanner.go\<close>,
  and Go errors as values: a sentinel, a sentinel or other error wrapped by
  \<open>fmt.Errorf\<close> with \<open>%w\<close> (the format and its arguments are kept, unrendered), or the
  text of an error made by \<open>errors.New\<close> or by a library.
\<close>

section \<open>Errors\<close>

datatype sentinel =
    ErrURLNotFound | ErrURLExpired | ErrHashConflict | ErrInvalidURL
  | ErrRateLimitExceed | ErrBodyTooLarge | ErrMediaType | ErrUnknownFields
  | ErrURLSelfRef | ErrURLPrivateIP | ErrURLBlocked | ErrURLHasCredentials | ErrURLHomograph
  | ErrDuplicateReport | ErrInvalidReason
  | ErrURLMalicious

datatype fmt_arg = ArgStr string | ArgInt int

datatype goerr =
    Sentinel sentinel
  | Wrapf string "fmt_arg list" goerr
  | Plain string

text \<open>\<open>errors.Is\<close> against a sentinel: the chain of wrapped errors is searched.\<close>

fun err_is :: "goerr \<Rightarrow> sentinel \<Rightarrow> bool" where
  "err_is (Sentinel x) s \<longleftrightarrow> x = s"
| "err_is (Wrapf _ _ e) s \<longleftrightarrow> err_is e s"
| "err_is (Plain _) s \<longleftrightarrow> False"

text \<open>An error chain ends in at most one sentinel, so the order of the \<open>errors.Is\<close> tests is immaterial.\<close>

lemma err_is_unique: "err_is e s \<Longrightarrow> err_is e s' \<Longrightarrow> s = s'"
  by (induction e) auto

text \<open>\<open>err.Error()\<close> of an error that a library returned; no decision of the code reads another one.\<close>

fun lib_err_text :: "goerr \<Rightarrow> string" where
  "lib_err_text (Plain t) = t"
| "lib_err_text _ = []"

section \<open>Entities\<close>

record url =
  u_ID :: u64
  u_Hash :: string
  u_OriginalURL :: string
  u_CreatedAt :: time
  u_LastAccessedAt :: "time option"
  u_ExpiresAt :: "time option"
  u_VTStatus :: string
  u_VTScannedAt :: "time option"
  u_VTPositives :: "int option"
  u_VTPermalink :: "string option"

text \<open>The zero \<open>time.Time\<close> is the first instant of the year 1.\<close>

definition zero_time :: time where
  "zero_time = - 62135596800 * second"

text \<open>\<open>&domain.URL{}\<close>: every field at its zero value.\<close>

definition zero_url :: url where
  "zero_url = \<lparr>u_ID = 0, u_Hash = [], u_OriginalURL = [], u_CreatedAt = zero_time,
     u_LastAccessedAt = None, u_ExpiresAt = None, u_VTStatus = [], u_VTScannedAt = None,
     u_VTPositives = None, u_VTPermalink = None\<rparr>"

record click =
  c_ID :: u64
  c_URLID :: u64
  c_AccessedAt :: time
  c_UserAgent :: string
  c_IP :: string

record report =
  r_ID :: u64
  r_URLID :: u64
  r_ReporterIP :: string
  r_Reason :: string
  r_CreatedAt :: time

record daily_count =
  dc_Date :: string
  dc_Count :: int

record user_agent_count =
  uac_UserAgent :: string
  uac_Count :: int

definition ReasonPhishing :: string where "ReasonPhishing = ''phishing''"
definition ReasonMalware :: string where "ReasonMalware = ''malware''"
definition ReasonSpam :: string where "ReasonSpam = ''spam''"
definition ReasonIllegal :: string where "ReasonIllegal = ''illegal''"
definition ReasonOther :: string where "ReasonOther = ''other''"

lemmas reason_defs =
  ReasonPhishing_def ReasonMalware_def ReasonSpam_def ReasonIllegal_def ReasonOther_def

definition validReasons :: "string list" where
  "validReasons = [ReasonPhishing, ReasonMalware, ReasonSpam, ReasonIllegal, ReasonOther]"

definition IsValidReason :: "string \<Rightarrow> bool" where
  "IsValidReason r \<longleftrightarrow> r \<in> set validReasons"

section \<open>Scan results\<close>

type_synonym scan_status = string

definition ScanClean :: scan_status where "ScanClean = ''clean''"
definition ScanMalicious :: scan_status where "ScanMalicious = ''malicious''"
definition ScanUnverified :: scan_status where "ScanUnverified = ''unverified''"

lemmas scan_status_defs = ScanClean_def ScanMalicious_def ScanUnverified_def

lemma scan_status_distinct [simp]:
  "ScanClean \<noteq> ScanMalicious" "ScanMalicious \<noteq> ScanClean"
  "ScanClean \<noteq> ScanUnverified" "ScanUnverified \<noteq> ScanClean"
  "ScanMalicious \<noteq> ScanUnverified" "ScanUnverified \<noteq> ScanMalicious"
  by (simp_all add: scan_status_defs)

record scan_result =
  sr_Status :: scan_status
  sr_Positives :: int
  sr_Total :: int
  sr_ScannedAt :: time
  sr_Permalink :: string

definition zero_scan_result :: scan_result where
  "zero_scan_result = \<lparr>sr_Status = [], sr_Positives = 0, sr_Total = 0,
     sr_ScannedAt = zero_time, sr_Permalink = []\<rparr>"

text \<open>\<open>ScanResult{Status: st, ScannedAt: t}\<close>.\<close>

definition status_result :: "scan_status \<Rightarrow> time \<Rightarrow> scan_result" where
  "status_result st t = zero_scan_result\<lparr>sr_Status := st, sr_ScannedAt := t\<rparr>"

lemma status_result_sel [simp]:
  "sr_Status (status_result st t) = st" "sr_ScannedAt (status_result st t) = t"
  "sr_Permalink (status_result st t) = []" "sr_Positives (status_result st t) = 0"
  by (simp_all add: status_result_def zero_scan_result_def)

end
