(* ===== verification/GoNet.thy ===== *)
theory GoNet
  imports GoStrings
begin

unbundle bit_operations_syntax

text \<open>
  The part of Go's \<open>net\<close> and \<open>net/netip\<close> the program calls: \<open>SplitHostPort\<close>, \<open>ParseIP\<close>,
  \<open>IP.To4\<close>, \<open>IP.String\<close>, \<open>ParseCIDR\<close> and \<open>IPNet.Contains\<close>. A \<open>net.IP\<close> is its bytes, four
  or sixteen of them; \<open>nil\<close> is \<open>None\<close>.
\<close>

type_synonym u8 = "8 word"
type_synonym ip = "u8 list"

section \<open>Splitting host and port\<close>

text \<open>\<open>net.SplitHostPort\<close>; \<open>None\<close> is its error.\<close>

definition split_host_port :: "string \<Rightarrow> (string \<times> string) option" where
  "split_host_port hp =
     (case last_index_byte (CHR '':'') hp of None \<Rightarrow> None
      | Some i \<Rightarrow>
        let port = drop (Suc i) hp in
        if hp ! 0 = CHR ''['' then
          (case index_byte (CHR '']'') hp of None \<Rightarrow> None
           | Some e \<Rightarrow>
             if Suc e = length hp \<or> Suc e \<noteq> i then None
             else if CHR ''['' \<in> set (drop 1 hp) \<or> CHR '']'' \<in> set (drop (Suc e) hp) then None
             else Some (take (e - 1) (drop 1 hp), port))
        else if CHR '':'' \<in> set (take i hp) \<or> CHR ''['' \<in> set hp \<or> CHR '']'' \<in> set hp then None
        else Some (take i hp, port))"

section \<open>Parsing addresses\<close>

definition is_hex :: "char \<Rightarrow> bool" where
  "is_hex c \<longleftrightarrow> is_digit c \<or> (97 \<le> byte c \<and> byte c \<le> 102) \<or> (65 \<le> byte c \<and> byte c \<le> 70)"

definition hex_val :: "char \<Rightarrow> nat" where
  "hex_val c = (if is_digit c then byte c - 48 else if 97 \<le> byte c then byte c - 87 else byte c - 55)"

definition hex_num :: "string \<Rightarrow> nat" where
  "hex_num s = foldl (\<lambda>n c. n * 16 + hex_val c) 0 s"

text \<open>
  The loop of \<open>parseIPv4Fields\<close>: the value and the length of the octet being read, and the
  octets before it. An octet length of zero is Go's test for the start of the string or
  a preceding dot.
\<close>

fun ipv4_loop :: "string \<Rightarrow> nat \<Rightarrow> nat \<Rightarrow> u8 list \<Rightarrow> u8 list option" where
  "ipv4_loop [] v digLen fs = (if length fs < 3 then None else Some (fs @ [of_nat v]))"
| "ipv4_loop (c # s) v digLen fs =
     (if is_digit c then
        (if digLen = 1 \<and> v = 0 then None
         else if v * 10 + digit_val c > 255 then None
         else ipv4_loop s (v * 10 + digit_val c) (Suc digLen) fs)
      else if c = CHR ''.'' then
        (if digLen = 0 \<or> s = [] then None
         else if length fs = 3 then None
         else ipv4_loop s 0 0 (fs @ [of_nat v]))
      else None)"

definition parse_ipv4_fields :: "string \<Rightarrow> u8 list option" where
  "parse_ipv4_fields s = ipv4_loop s 0 0 []"

text \<open>
  The loop of \<open>parseIPv6\<close>: what is left of the string, the bytes read and the position of
  the ellipsis. The result holds the rest of the string, which must be empty.
\<close>

function ipv6_loop ::
  "string \<Rightarrow> u8 list \<Rightarrow> nat option \<Rightarrow> (string \<times> u8 list \<times> nat option) option" where
  "ipv6_loop s ip e =
     (if 16 \<le> length ip then Some (s, ip, e)
      else
        let ds = takeWhile is_hex s; rest = dropWhile is_hex s;
            ip' = ip @ [of_nat (hex_num ds div 256), of_nat (hex_num ds mod 256)]
        in if ds = [] \<or> 4 < length ds then None
           else (case rest of
               [] \<Rightarrow> Some ([], ip', e)
             | c # s1 \<Rightarrow>
                 if c = CHR ''.'' then
                   (if (e = None \<and> length ip \<noteq> 12) \<or> 16 < length ip + 4 then None
                    else case parse_ipv4_fields s of None \<Rightarrow> None
                         | Some fs \<Rightarrow> Some ([], ip @ fs, e))
                 else if c \<noteq> CHR '':'' \<or> s1 = [] then None
                 else if hd s1 = CHR '':'' then
                   (if e \<noteq> None then None
                    else if tl s1 = [] then Some ([], ip', Some (length ip'))
                    else ipv6_loop (tl s1) ip' (Some (length ip')))
                 else ipv6_loop s1 ip' e))"
  by pat_completeness auto
termination
  by (relation "measure (\<lambda>(s, ip, e). 16 - length ip)") auto

declare ipv6_loop.simps [simp del]

definition expand_ellipsis :: "string \<times> u8 list \<times> nat option \<Rightarrow> ip option" where
  "expand_ellipsis r = (case r of (s, ip, e) \<Rightarrow>
     if s \<noteq> [] then None
     else if length ip < 16 then
       (case e of None \<Rightarrow> None
        | Some k \<Rightarrow> Some (take k ip @ replicate (16 - length ip) 0 @ drop k ip))
     else if e \<noteq> None then None else Some ip)"

definition parse_ipv6_bytes :: "string \<Rightarrow> ip option" where
  "parse_ipv6_bytes s =
     (if has_prefix s ''::'' then
        (if drop 2 s = [] then Some (replicate 16 0)
         else Option.bind (ipv6_loop (drop 2 s) [] (Some 0)) expand_ellipsis)
      else Option.bind (ipv6_loop s [] None) expand_ellipsis)"

text \<open>\<open>netip.Addr\<close>: an IPv4 address, or an IPv6 one with its zone.\<close>

datatype addr = Addr4 ip | Addr6 ip string

definition parse_addr :: "string \<Rightarrow> addr option" where
  "parse_addr s =
     (case find (\<lambda>c. c \<in> {CHR ''.'', CHR '':'', CHR ''%''}) s of
        None \<Rightarrow> None
      | Some c \<Rightarrow>
          if c = CHR ''.'' then map_option Addr4 (parse_ipv4_fields s)
          else if c = CHR ''%'' then None
          else let (body, zone, zoned) = cut (CHR ''%'') s
               in if zoned \<and> zone = [] then None
                  else map_option (\<lambda>ip. Addr6 ip zone) (parse_ipv6_bytes body))"

definition v4_in_v6_prefix :: ip where
  "v4_in_v6_prefix = [0, 0, 0, 0, 0, 0, 0, 0, 0, 0, 255, 255]"

text \<open>\<open>Addr.As16\<close>.\<close>

fun as16 :: "addr \<Rightarrow> ip" where
  "as16 (Addr4 b) = v4_in_v6_prefix @ b"
| "as16 (Addr6 b z) = b"

fun addr_zone :: "addr \<Rightarrow> string" where
  "addr_zone (Addr4 b) = []"
| "addr_zone (Addr6 b z) = z"

definition ParseIP :: "string \<Rightarrow> ip option" where
  "ParseIP s = (case parse_addr s of None \<Rightarrow> None
     | Some a \<Rightarrow> if addr_zone a \<noteq> [] then None else Some (as16 a))"

text \<open>\<open>IP.To4\<close>: the four bytes of an IPv4 address, also when it is written in sixteen.\<close>

definition to4 :: "ip \<Rightarrow> ip option" where
  "to4 ip = (if length ip = 4 then Some ip
     else if length ip = 16 \<and> take 12 ip = v4_in_v6_prefix then Some (drop 12 ip) else None)"

section \<open>Printing addresses\<close>

definition hex_digit :: "nat \<Rightarrow> char" where
  "hex_digit d = char_of (if d < 10 then 48 + d else 87 + d)"

fun hex_digits :: "nat \<Rightarrow> string" where
  "hex_digits n = (if n < 16 then [hex_digit n] else hex_digits (n div 16) @ [hex_digit (n mod 16)])"

declare hex_digits.simps [simp del]

fun join :: "string \<Rightarrow> string list \<Rightarrow> string" where
  "join sep [] = []"
| "join sep [x] = x"
| "join sep (x # y # xs) = x @ sep @ join sep (y # xs)"

definition ipv4_string :: "ip \<Rightarrow> string" where
  "ipv4_string b = join ''.'' (map (\<lambda>x. dec_digits (unat x)) b)"

text \<open>The eight 16-bit groups of an IPv6 address.\<close>

fun groups :: "ip \<Rightarrow> nat list" where
  "groups (a # b # r) = (unat a * 256 + unat b) # groups r"
| "groups _ = []"

text \<open>The first longest run of at least two zero groups: its start and its length.\<close>

definition zero_run :: "nat list \<Rightarrow> (nat \<times> nat) option" where
  "zero_run gs = foldl (\<lambda>best i.
     let l = length (takeWhile (\<lambda>g. g = 0) (drop i gs))
     in if 2 \<le> l \<and> (case best of None \<Rightarrow> True | Some (_, m) \<Rightarrow> m < l) then Some (i, l) else best)
     None [0..<length gs]"

definition ipv6_string :: "ip \<Rightarrow> string" where
  "ipv6_string ip =
     (let gs = groups ip; p = (\<lambda>l. join '':'' (map hex_digits l))
      in case zero_run gs of None \<Rightarrow> p gs
         | Some (k, l) \<Rightarrow> p (take k gs) @ ''::'' @ p (drop (k + l) gs))"

text \<open>\<open>IP.String\<close> of an address of four or sixteen bytes.\<close>

definition ip_string :: "ip \<Rightarrow> string" where
  "ip_string ip = (case to4 ip of Some b \<Rightarrow> ipv4_string b | None \<Rightarrow> ipv6_string ip)"

section \<open>Networks\<close>

record ipnet =
  net_ip :: ip
  net_mask :: ip

text \<open>\<open>net.CIDRMask\<close>.\<close>

definition mask_byte :: "nat \<Rightarrow> u8" where
  "mask_byte k = (if 8 \<le> k then 255 else NOT (drop_bit k 255))"

definition cidr_mask :: "nat \<Rightarrow> nat \<Rightarrow> ip" where
  "cidr_mask ones len = map (\<lambda>i. mask_byte (ones - 8 * i)) [0..<len]"

definition ip_and :: "ip \<Rightarrow> ip \<Rightarrow> ip" where
  "ip_and a m = map2 (AND) a m"

text \<open>\<open>IP.Mask\<close>; an IPv4 address written in sixteen bytes is cut to four under a mask of four.\<close>

definition ip_mask :: "ip \<Rightarrow> ip \<Rightarrow> ip option" where
  "ip_mask ip0 m0 =
     (let m = (if length m0 = 16 \<and> length ip0 = 4 \<and> (\<forall>b\<in>set (take 12 m0). b = 255) then drop 12 m0 else m0);
          ip = (if length m = 4 \<and> length ip0 = 16 \<and> take 12 ip0 = v4_in_v6_prefix then drop 12 ip0 else ip0)
      in if length ip \<noteq> length m then None else Some (ip_and ip m))"

text \<open>\<open>net.ParseCIDR\<close>, its second result.\<close>

definition parse_cidr :: "string \<Rightarrow> ipnet option" where
  "parse_cidr s =
     (let (a, m, found) = cut (CHR ''/'') s
      in if \<not> found then None
         else (case parse_addr a of None \<Rightarrow> None
           | Some ad \<Rightarrow>
             let bitlen = (case ad of Addr4 _ \<Rightarrow> 32 | Addr6 _ _ \<Rightarrow> 128)
             in if addr_zone ad \<noteq> [] then None
                else if m = [] \<or> (\<exists>c\<in>set m. \<not> is_digit c) \<or> bitlen < dec_val m then None
                else let mask = cidr_mask (dec_val m) (bitlen div 8)
                     in case ip_mask (as16 ad) mask of None \<Rightarrow> None
                        | Some ip \<Rightarrow> Some \<lparr>net_ip = ip, net_mask = mask\<rparr>))"

definition network_number_and_mask :: "ipnet \<Rightarrow> (ip \<times> ip) option" where
  "network_number_and_mask n =
     (let ip = (case to4 (net_ip n) of Some b \<Rightarrow> b | None \<Rightarrow> net_ip n); m = net_mask n
      in if length ip \<noteq> 4 \<and> length ip \<noteq> 16 then None
         else if length m = 4 then (if length ip \<noteq> 4 then None else Some (ip, m))
         else if length m = 16 then Some (ip, if length ip = 4 then drop 12 m else m)
         else None)"

text \<open>\<open>IPNet.Contains\<close>.\<close>

definition net_contains :: "ipnet \<Rightarrow> ip \<Rightarrow> bool" where
  "net_contains n ip0 =
     (let ip = (case to4 ip0 of Some b \<Rightarrow> b | None \<Rightarrow> ip0)
      in case network_number_and_mask n of None \<Rightarrow> False
         | Some (nn, m) \<Rightarrow> length ip = length nn \<and> ip_and nn m = ip_and ip m)"

text \<open>\<open>IP.Equal\<close> on addresses of sixteen bytes, as \<open>ParseIP\<close> gives them; \<open>nil\<close> equals none.\<close>

definition ip_equal :: "ip option \<Rightarrow> ip \<Rightarrow> bool" where
  "ip_equal a b \<longleftrightarrow> a = Some b"

end
