(* ===== verification/GoURL.thy ===== *)
theory GoURL
  imports GoNet
begin

text \<open>
  The part of Go's \<open>net/url\<close> (version 1.25.0, the one \<open>go.mod\<close> names) that the program
  calls: \<open>Parse\<close>, \<open>URL.Hostname\<close>, \<open>URL.Port\<close> and \<open>URL.String\<close>. The program looks at no
  error text of this package, so an error is \<open>None\<close>.
\<close>

section \<open>Percent-encoding\<close>

datatype encoding =
    EncodePath | EncodePathSegment | EncodeHost | EncodeZone | EncodeUserPassword
  | EncodeQueryComponent | EncodeFragment

definition is_mark :: "char \<Rightarrow> bool" where
  "is_mark c \<longleftrightarrow> c \<in> set ''-_.~''"

definition is_reserved :: "char \<Rightarrow> bool" where
  "is_reserved c \<longleftrightarrow> c \<in> set ''$&+,/:;=?@''"

definition is_host_extra :: "char \<Rightarrow> bool" where
  "is_host_extra c \<longleftrightarrow> c \<in> set (''!$&()*+,;=:[]<>'' @ [char_of (39::nat), char_of (34::nat)])"

definition should_escape :: "char \<Rightarrow> encoding \<Rightarrow> bool" where
  "should_escape c mode =
     (if is_alnum c then False
      else if mode \<in> {EncodeHost, EncodeZone} \<and> is_host_extra c then False
      else if is_mark c then False
      else if is_reserved c \<and> mode = EncodePath then c = CHR ''?''
      else if is_reserved c \<and> mode = EncodePathSegment then c \<in> set ''/;,?''
      else if is_reserved c \<and> mode = EncodeUserPassword then c \<in> set ''@/?:''
      else if is_reserved c \<and> mode = EncodeQueryComponent then True
      else if is_reserved c \<and> mode = EncodeFragment then False
      else if mode = EncodeFragment \<and> c \<in> set ''!()*'' then False
      else True)"

lemma should_escape_path:
  "should_escape c EncodePath \<longleftrightarrow> \<not> is_alnum c \<and> \<not> is_mark c \<and> (is_reserved c \<longrightarrow> c = CHR ''?'')"
  by (simp add: should_escape_def)

lemma should_escape_host:
  "should_escape c EncodeHost \<longleftrightarrow> \<not> is_alnum c \<and> \<not> is_host_extra c \<and> \<not> is_mark c"
  by (simp add: should_escape_def)

definition upper_hex :: "nat \<Rightarrow> char" where
  "upper_hex d = char_of (if d < 10 then 48 + d else 55 + d)"

definition percent :: "char \<Rightarrow> string" where
  "percent c = [CHR ''%'', upper_hex (byte c div 16), upper_hex (byte c mod 16)]"

definition escape :: "encoding \<Rightarrow> string \<Rightarrow> string" where
  "escape mode s = concat (map (\<lambda>c.
     if c = CHR '' '' \<and> mode = EncodeQueryComponent then ''+''
     else if should_escape c mode then percent c else [c]) s)"

fun unescape :: "encoding \<Rightarrow> string \<Rightarrow> string option" where
  "unescape mode [] = Some []"
| "unescape mode (c # s) =
     (if c = CHR ''%'' then
        (case s of
           a # b # r \<Rightarrow>
             let v = char_of (hex_val a * 16 + hex_val b) :: char; pct = (a = CHR ''2'' \<and> b = CHR ''5'')
             in if \<not> is_hex a \<or> \<not> is_hex b then None
                else if mode = EncodeHost \<and> hex_val a < 8 \<and> \<not> pct then None
                else if mode = EncodeZone \<and> \<not> pct \<and> v \<noteq> CHR '' '' \<and> should_escape v EncodeHost then None
                else map_option (\<lambda>t. v # t) (unescape mode r)
         | _ \<Rightarrow> None)
      else if c = CHR ''+'' then
        map_option (\<lambda>t. (if mode = EncodeQueryComponent then CHR '' '' else c) # t) (unescape mode s)
      else if mode \<in> {EncodeHost, EncodeZone} \<and> byte c < 128 \<and> should_escape c mode then None
      else map_option (\<lambda>t. c # t) (unescape mode s))"

section \<open>The URL\<close>

datatype userinfo = User string | UserPassword string string

record parsed_url =
  url_Scheme :: string
  url_Opaque :: string
  url_User :: "userinfo option"
  url_Host :: string
  url_Path :: string
  url_RawPath :: string
  url_OmitHost :: bool
  url_ForceQuery :: bool
  url_RawQuery :: string
  url_Fragment :: string
  url_RawFragment :: string

definition empty_url :: parsed_url where
  "empty_url = \<lparr>url_Scheme = [], url_Opaque = [], url_User = None, url_Host = [], url_Path = [],
     url_RawPath = [], url_OmitHost = False, url_ForceQuery = False, url_RawQuery = [],
     url_Fragment = [], url_RawFragment = []\<rparr>"

section \<open>Parsing\<close>

text \<open>
  \<open>getScheme\<close>: the scheme and what follows its colon. \<open>None\<close> is the error of a colon in
  first place; a string without a scheme gives the empty one and the whole string.
\<close>

fun scheme_loop :: "string \<Rightarrow> string \<Rightarrow> string \<Rightarrow> (string \<times> string) option" where
  "scheme_loop raw acc [] = Some ([], raw)"
| "scheme_loop raw acc (c # s) =
     (if is_upper c \<or> is_lower c then scheme_loop raw (acc @ [c]) s
      else if is_digit c \<or> c = CHR ''+'' \<or> c = CHR ''-'' \<or> c = CHR ''.'' then
        (if acc = [] then Some ([], raw) else scheme_loop raw (acc @ [c]) s)
      else if c = CHR '':'' then (if acc = [] then None else Some (acc, s))
      else Some ([], raw))"

definition get_scheme :: "string \<Rightarrow> (string \<times> string) option" where
  "get_scheme raw = scheme_loop raw [] raw"

definition valid_optional_port :: "string \<Rightarrow> bool" where
  "valid_optional_port p \<longleftrightarrow> p = [] \<or> (hd p = CHR '':'' \<and> (\<forall>c\<in>set (tl p). is_digit c))"

definition parse_host :: "string \<Rightarrow> string option" where
  "parse_host host =
     (if has_prefix host ''['' then
        (case last_index_byte (CHR '']'') host of
           None \<Rightarrow> None
         | Some i \<Rightarrow>
             if \<not> valid_optional_port (drop (Suc i) host) then None
             else (case str_index (take i host) ''%25'' of
                 Some zone \<Rightarrow>
                   (case (unescape EncodeHost (take zone host),
                          unescape EncodeZone (drop zone (take i host)),
                          unescape EncodeHost (drop i host)) of
                      (Some h1, Some h2, Some h3) \<Rightarrow> Some (h1 @ h2 @ h3)
                    | _ \<Rightarrow> None)
               | None \<Rightarrow> unescape EncodeHost host))
      else (case last_index_byte (CHR '':'') host of
          Some i \<Rightarrow> if \<not> valid_optional_port (drop i host) then None else unescape EncodeHost host
        | None \<Rightarrow> unescape EncodeHost host))"

definition valid_userinfo :: "string \<Rightarrow> bool" where
  "valid_userinfo s \<longleftrightarrow>
     (\<forall>c\<in>set s. is_alnum c \<or> c \<in> set (''-._:~!$&()*+,;=%@'' @ [char_of (39::nat)]))"

definition parse_authority :: "string \<Rightarrow> (userinfo option \<times> string) option" where
  "parse_authority authority =
     (case last_index_byte (CHR ''@'') authority of
        None \<Rightarrow> map_option (\<lambda>h. (None, h)) (parse_host authority)
      | Some i \<Rightarrow>
          (case parse_host (drop (Suc i) authority) of
             None \<Rightarrow> None
           | Some host \<Rightarrow>
               let ui = take i authority in
               if \<not> valid_userinfo ui then None
               else if CHR '':'' \<notin> set ui then
                 map_option (\<lambda>u. (Some (User u), host)) (unescape EncodeUserPassword ui)
               else let (name, pw, _) = cut (CHR '':'') ui in
                 (case (unescape EncodeUserPassword name, unescape EncodeUserPassword pw) of
                    (Some n, Some p) \<Rightarrow> Some (Some (UserPassword n p), host)
                  | _ \<Rightarrow> None)))"

definition set_path :: "string \<Rightarrow> parsed_url \<Rightarrow> parsed_url option" where
  "set_path p u = map_option (\<lambda>path. u\<lparr>url_Path := path,
     url_RawPath := (if p = escape EncodePath path then [] else p)\<rparr>) (unescape EncodePath p)"

definition set_fragment :: "string \<Rightarrow> parsed_url \<Rightarrow> parsed_url option" where
  "set_fragment f u = map_option (\<lambda>frag. u\<lparr>url_Fragment := frag,
     url_RawFragment := (if f = escape EncodeFragment frag then [] else f)\<rparr>) (unescape EncodeFragment f)"

definition is_ctl :: "char \<Rightarrow> bool" where
  "is_ctl c \<longleftrightarrow> byte c < 32 \<or> byte c = 127"

text \<open>The query is cut off: its text, whether a lone \<open>?\<close> ended the URL, and what is before it.\<close>

definition cut_query :: "string \<Rightarrow> string \<times> string \<times> bool" where
  "cut_query rest =
     (if has_suffix rest ''?'' \<and> count_list rest (CHR ''?'') = 1
      then (take (length rest - 1) rest, [], True)
      else let (r, q, _) = cut (CHR ''?'') rest in (r, q, False))"

text \<open>The authority, when there is one, is taken off what follows the scheme.\<close>

definition parse_rest :: "parsed_url \<Rightarrow> string \<Rightarrow> parsed_url option" where
  "parse_rest u rest =
     (if (url_Scheme u \<noteq> [] \<or> \<not> has_prefix rest ''///'') \<and> has_prefix rest ''//'' then
        let authority = takeWhile (\<lambda>c. c \<noteq> CHR ''/'') (drop 2 rest);
            path = dropWhile (\<lambda>c. c \<noteq> CHR ''/'') (drop 2 rest)
        in (case parse_authority authority of None \<Rightarrow> None
            | Some (ui, host) \<Rightarrow> set_path path (u\<lparr>url_User := ui, url_Host := host\<rparr>))
      else if url_Scheme u \<noteq> [] \<and> has_prefix rest ''/'' then set_path rest (u\<lparr>url_OmitHost := True\<rparr>)
      else set_path rest u)"

text \<open>\<open>parse(rawURL, false)\<close>.\<close>

definition parse_no_frag :: "string \<Rightarrow> parsed_url option" where
  "parse_no_frag raw =
     (if \<exists>c\<in>set raw. is_ctl c then None
      else if raw = ''*'' then Some (empty_url\<lparr>url_Path := ''*''\<rparr>)
      else case get_scheme raw of None \<Rightarrow> None
        | Some (scheme, rest0) \<Rightarrow>
          let (rest, query, force) = cut_query rest0;
              u = empty_url\<lparr>url_Scheme := map ascii_lower scheme, url_RawQuery := query, url_ForceQuery := force\<rparr>
          in if \<not> has_prefix rest ''/'' \<and> scheme \<noteq> [] then Some (u\<lparr>url_Opaque := rest\<rparr>)
             else if \<not> has_prefix rest ''/'' \<and> CHR '':'' \<in> set (takeWhile (\<lambda>c. c \<noteq> CHR ''/'') rest) then None
             else parse_rest u rest)"

text \<open>\<open>url.Parse\<close>.\<close>

definition parse_url :: "string \<Rightarrow> parsed_url option" where
  "parse_url raw =
     (let (s, frag, _) = cut (CHR ''#'') raw
      in case parse_no_frag s of None \<Rightarrow> None
         | Some u \<Rightarrow> if frag = [] then Some u else set_fragment frag u)"

section \<open>Host and port\<close>

definition host_port :: "string \<Rightarrow> string \<times> string" where
  "host_port hp =
     (let (h, p) = (case last_index_byte (CHR '':'') hp of
            Some i \<Rightarrow> if valid_optional_port (drop i hp) then (take i hp, drop (Suc i) hp) else (hp, [])
          | None \<Rightarrow> (hp, []))
      in (if has_prefix h ''['' \<and> has_suffix h '']'' then butlast (tl h) else h, p))"

definition hostname :: "parsed_url \<Rightarrow> string" where
  "hostname u = fst (host_port (url_Host u))"

definition port :: "parsed_url \<Rightarrow> string" where
  "port u = snd (host_port (url_Host u))"

section \<open>Printing\<close>

definition valid_encoded :: "encoding \<Rightarrow> string \<Rightarrow> bool" where
  "valid_encoded mode s \<longleftrightarrow>
     (\<forall>c\<in>set s. c \<in> set (''!$&()*+,;=:@[]%'' @ [char_of (39::nat)]) \<or> \<not> should_escape c mode)"

definition escaped_path :: "parsed_url \<Rightarrow> string" where
  "escaped_path u =
     (if url_RawPath u \<noteq> [] \<and> valid_encoded EncodePath (url_RawPath u) \<and>
         unescape EncodePath (url_RawPath u) = Some (url_Path u) then url_RawPath u
      else if url_Path u = ''*'' then ''*''
      else escape EncodePath (url_Path u))"

definition escaped_fragment :: "parsed_url \<Rightarrow> string" where
  "escaped_fragment u =
     (if url_RawFragment u \<noteq> [] \<and> valid_encoded EncodeFragment (url_RawFragment u) \<and>
         unescape EncodeFragment (url_RawFragment u) = Some (url_Fragment u) then url_RawFragment u
      else escape EncodeFragment (url_Fragment u))"

fun userinfo_string :: "userinfo \<Rightarrow> string" where
  "userinfo_string (User n) = escape EncodeUserPassword n"
| "userinfo_string (UserPassword n p) =
     escape EncodeUserPassword n @ '':'' @ escape EncodeUserPassword p"

definition authority_string :: "parsed_url \<Rightarrow> string" where
  "authority_string u =
     (if url_Scheme u \<noteq> [] \<or> url_Host u \<noteq> [] \<or> url_User u \<noteq> None then
        (if url_OmitHost u \<and> url_Host u = [] \<and> url_User u = None then []
         else (if url_Host u \<noteq> [] \<or> url_Path u \<noteq> [] \<or> url_User u \<noteq> None then ''//'' else []) @
              (case url_User u of None \<Rightarrow> [] | Some ui \<Rightarrow> userinfo_string ui @ ''@'') @
              escape EncodeHost (url_Host u))
      else [])"

text \<open>\<open>URL.String\<close>.\<close>

definition url_string :: "parsed_url \<Rightarrow> string" where
  "url_string u =
     (let scheme = (if url_Scheme u \<noteq> [] then url_Scheme u @ '':'' else []);
          start = scheme @ authority_string u;
          path = escaped_path u;
          slash = (path \<noteq> [] \<and> hd path \<noteq> CHR ''/'' \<and> url_Host u \<noteq> []);
          dot = (start = [] \<and> \<not> slash \<and> CHR '':'' \<in> set (takeWhile (\<lambda>c. c \<noteq> CHR ''/'') path))
      in (if url_Opaque u \<noteq> [] then scheme @ url_Opaque u
          else start @ (if slash then ''/'' else []) @ (if dot then ''./'' else []) @ path) @
         (if url_ForceQuery u \<or> url_RawQuery u \<noteq> [] then ''?'' @ url_RawQuery u else []) @
         (if url_Fragment u \<noteq> [] then ''#'' @ escaped_fragment u else []))"

end
