(* ===== verification/Normalize.thy ===== *)
theory Normalize
  imports Domain GoURL
begin

text \<open>
  \<open>internal/scanner/normalize.go\<close> and \<open>internal/scanner/blocklist.go\<close>: the canonical form
  of a URL, under which it is stored and compared, and the list of blocked domains.
\<close>

section \<open>Normalisation\<close>

definition NormalizeURL :: "unicode_tables \<Rightarrow> string \<Rightarrow> goerr + string" where
  "NormalizeURL uc rawURL =
     (case parse_url rawURL of
        None \<Rightarrow> Inl (Wrapf ''normalize: parse: %w'' [] (Sentinel ErrInvalidURL))
      | Some u0 \<Rightarrow>
          let u1 = u0\<lparr>url_Scheme := to_lower uc (url_Scheme u0),
                      url_Host := to_lower uc (url_Host u0),
                      url_Fragment := []\<rparr>;
              h = hostname u1;
              p = port u1;
              u2 = (if url_Scheme u1 = ''http'' \<and> p = ''80'' then u1\<lparr>url_Host := h\<rparr>
                    else if url_Scheme u1 = ''https'' \<and> p = ''443'' then u1\<lparr>url_Host := h\<rparr>
                    else u1);
              u3 = (if url_Path u2 = ''/'' then u2\<lparr>url_Path := []\<rparr> else u2)
          in Inr (url_string u3))"

section \<open>Blocked domains\<close>

definition blockedDomains :: "string list" where
  "blockedDomains =
     [''bit.ly'', ''tinyurl.com'', ''t.co'', ''goo.gl'', ''ow.ly'', ''is.gd'', ''buff.ly'',
      ''adf.ly'', ''rb.gy'', ''shorturl.at'', ''cutt.ly'', ''tiny.cc'', ''clck.ru'', ''soo.gd'']"

definition normalizeHost :: "unicode_tables \<Rightarrow> string \<Rightarrow> string" where
  "normalizeHost uc host = (let h = to_lower uc host in trim_prefix h ''www.'')"

definition IsBlocked :: "unicode_tables \<Rightarrow> string \<Rightarrow> bool" where
  "IsBlocked uc host \<longleftrightarrow> normalizeHost uc host \<in> set blockedDomains"

end
