(* ===== verification/CanonicalURL.thy ===== *)
theory CanonicalURL
  imports Normalize
begin

text \<open>
  What \<open>NormalizeURL\<close> computes on ordinary URLs (an \<open>http\<close> or \<open>https\<close> scheme in any case,
  a host name, an optional port, a path of plain characters, an optional query and
  fragment), proved by following \<open>url.Parse\<close> and \<open>URL.String\<close> through the text.
\<close>

section \<open>Plain text is left alone by percent-encoding\<close>

lemma escape_plain:
  "\<forall>c\<in>set s. \<not> should_escape c mode \<and> c \<noteq> CHR '' '' \<Longrightarrow> escape mode s = s"
  by (induction s) (auto simp: escape_def)

lemma unescape_plain:
  "CHR ''%'' \<notin> set s \<Longrightarrow> mode \<noteq> EncodeQueryComponent \<Longrightarrow>
   (mode \<in> {EncodeHost, EncodeZone} \<Longrightarrow> \<forall>c\<in>set s. \<not> should_escape c mode) \<Longrightarrow>
   unescape mode s = Some s"
  by (induction s) auto

lemma cut_absent: "c \<notin> set s \<Longrightarrow> cut c s = (s, [], False)"
  by (simp add: cut_def)

lemma cut_first: "c \<notin> set s \<Longrightarrow> cut c (s @ c # t) = (s, t, True)"
  by (simp add: cut_def takeWhile_append dropWhile_append)

lemma scheme_loop_letters:
  "\<forall>c\<in>set sch. is_upper c \<or> is_lower c \<Longrightarrow> acc @ sch \<noteq> [] \<Longrightarrow>
   scheme_loop raw acc (sch @ CHR '':'' # r) = Some (acc @ sch, r)"
  by (induction sch arbitrary: acc) (auto simp: char_class_defs)

lemma last_index_byte_None: "last_index_byte c s = None \<longleftrightarrow> c \<notin> set s"
  by (induction s) (auto split: option.splits)

lemma last_index_byte_append:
  "last_index_byte c (s @ t) = (case last_index_byte c t of Some i \<Rightarrow> Some (length s + i) | None \<Rightarrow> last_index_byte c s)"
  by (induction s) (auto split: option.splits)

section \<open>The canonical form of an ordinary URL\<close>

text \<open>The parts of an ordinary URL: letters, a host name, an optional port, a plain path, an optional query.\<close>

definition host_char :: "char \<Rightarrow> bool" where
  "host_char c \<longleftrightarrow> is_alnum c \<or> c = CHR ''-'' \<or> c = CHR ''.''"

definition plain_host :: "string \<Rightarrow> bool" where
  "plain_host h \<longleftrightarrow> h \<noteq> [] \<and> (\<forall>c\<in>set h. host_char c)"

definition port_text :: "string \<Rightarrow> bool" where
  "port_text p \<longleftrightarrow> p = [] \<or> (hd p = CHR '':'' \<and> tl p \<noteq> [] \<and> (\<forall>c\<in>set (tl p). is_digit c))"

definition plain_path :: "string \<Rightarrow> bool" where
  "plain_path p \<longleftrightarrow> p = [] \<or> (hd p = CHR ''/'' \<and> (\<forall>c\<in>set p. \<not> should_escape c EncodePath))"

definition query_text :: "string \<Rightarrow> bool" where
  "query_text q \<longleftrightarrow> q = [] \<or> (hd q = CHR ''?'' \<and> CHR ''#'' \<notin> set q \<and> (\<forall>c\<in>set q. \<not> is_ctl c))"

definition fragment_text :: "string \<Rightarrow> bool" where
  "fragment_text f \<longleftrightarrow> f = [] \<or> (hd f = CHR ''#'' \<and> unescape EncodeFragment (tl f) \<noteq> None)"

text \<open>Bytes with a role in the grammar, kept folded so that proofs do not enumerate them.\<close>

definition is_delim :: "char \<Rightarrow> bool" where
  "is_delim c \<longleftrightarrow> c \<in> set ''#?% ''"

definition is_special :: "char \<Rightarrow> bool" where
  "is_special c \<longleftrightarrow> c \<in> set ''#?%@/[] ''"

lemma is_delim_simps [simp]:
  "is_delim (CHR ''#'')" "is_delim (CHR ''?'')" "is_delim (CHR ''%'')" "is_delim (CHR '' '')"
  by (simp_all add: is_delim_def)

lemma is_special_simps [simp]:
  "is_special (CHR ''#'')" "is_special (CHR ''?'')" "is_special (CHR ''%'')" "is_special (CHR '' '')"
  "is_special (CHR ''@'')" "is_special (CHR ''/'')" "is_special (CHR ''['')" "is_special (CHR '']'')"
  by (simp_all add: is_special_def)

lemma is_special_byte: "is_special c \<Longrightarrow> byte c \<in> {35, 63, 37, 64, 47, 91, 93, 32}"
  by (auto simp: is_special_def)

lemma is_delim_special: "is_delim c \<Longrightarrow> is_special c"
  by (auto simp: is_delim_def)

lemma alnum_facts: "is_alnum c \<Longrightarrow> \<not> is_special c \<and> \<not> is_ctl c \<and> byte c < 128 \<and> c \<noteq> CHR '':''"
  using is_special_byte [of c] by (auto simp: char_class_defs is_ctl_def)

lemma mark_facts: "is_mark c \<Longrightarrow> \<not> is_special c \<and> \<not> is_ctl c \<and> byte c < 128 \<and> c \<noteq> CHR '':''"
  by (auto simp: is_mark_def is_ctl_def is_special_def)

lemma reserved_facts: "is_reserved c \<Longrightarrow> c \<noteq> CHR ''?'' \<Longrightarrow> \<not> is_delim c \<and> \<not> is_ctl c"
  by (auto simp: is_reserved_def is_ctl_def is_delim_def)

lemma not_escape_path: "\<not> should_escape c EncodePath \<Longrightarrow> \<not> is_delim c \<and> \<not> is_ctl c"
  using alnum_facts mark_facts reserved_facts is_delim_special
  unfolding should_escape_path by blast

lemma host_char_cases: "host_char c \<longleftrightarrow> is_alnum c \<or> (is_mark c \<and> c \<noteq> CHR ''_'' \<and> c \<noteq> CHR ''~'')"
  by (auto simp: host_char_def is_mark_def)

lemma host_char_facts:
  "host_char c \<Longrightarrow> \<not> is_special c \<and> \<not> is_ctl c \<and> \<not> should_escape c EncodeHost \<and> byte c < 128 \<and> c \<noteq> CHR '':''"
  using alnum_facts mark_facts unfolding host_char_cases should_escape_host by blast

lemma digit_facts:
  "is_digit c \<Longrightarrow> host_char c \<and> ascii_lower c = c"
  by (simp add: host_char_def char_class_defs ascii_lower_def)

lemma host_char_lower: "host_char c \<Longrightarrow> host_char (ascii_lower c)"
  by (auto simp: host_char_def char_class_defs ascii_lower_def)

lemma cut_query_text:
  assumes "query_text q" "CHR ''?'' \<notin> set s"
  shows "\<exists>query force. cut_query (s @ q) = (s, query, force) \<and>
    (if force \<or> query \<noteq> [] then ''?'' @ query else []) = q"
proof (cases q)
  case Nil
  have "\<not> has_suffix s ''?''"
    using assms(2) in_set_dropD [of "CHR ''?''" "length s - 1" s] by (auto simp: has_suffix_def)
  with Nil assms show ?thesis by (auto simp: cut_query_def cut_absent)
next
  case (Cons c t)
  with assms have c: "c = CHR ''?''" by (simp add: query_text_def)
  show ?thesis
  proof (cases t)
    case t: Nil
    have "count_list s (CHR ''?'') = 0" using assms(2) by (simp add: count_list_0_iff)
    with t Cons c have "cut_query (s @ q) = (s, [], True)" by (simp add: cut_query_def has_suffix_def)
    with t Cons c show ?thesis by auto
  next
    case t: (Cons d t')
    have "\<not> (has_suffix (s @ q) ''?'' \<and> count_list (s @ q) (CHR ''?'') = 1)"
    proof
      assume a: "has_suffix (s @ q) ''?'' \<and> count_list (s @ q) (CHR ''?'') = 1"
      have "last t \<in> set t" using t by simp
      have "drop (length (s @ q) - 1) (s @ q) = [last (s @ q)]"
        using Cons by (metis append_butlast_last_id append_eq_conv_conj append_is_Nil_conv length_butlast list.distinct(1))
      then have "last t = CHR ''?''" using a t Cons by (simp add: has_suffix_def)
      with \<open>last t \<in> set t\<close> have "0 < count_list t (CHR ''?'')"
        by (simp add: count_list_0_iff flip: neq0_conv)
      with a Cons c show False by simp
    qed
    then show ?thesis using Cons c cut_first [OF assms(2), of t] t by (auto simp: cut_query_def)
  qed
qed

lemma plain_host_lower: "plain_host h \<Longrightarrow> plain_host (map ascii_lower h)"
  by (auto simp: plain_host_def host_char_lower)

text \<open>Authority, path and query of an ordinary URL, and what printing makes of them.\<close>

lemma port_text_chars: "port_text p \<Longrightarrow> c \<in> set p \<Longrightarrow> is_digit c \<or> c = CHR '':''"
  by (cases p) (auto simp: port_text_def)

lemma authority_chars:
  assumes "plain_host h" "port_text p" "c \<in> set (h @ p)"
  shows "host_char c \<or> c = CHR '':''"
  using assms port_text_chars [of p c] digit_facts [of c] by (auto simp: plain_host_def)

lemma colon_facts: "\<not> should_escape (CHR '':'') EncodeHost" "\<not> is_ctl (CHR '':'')" "byte (CHR '':'') < 128"
  by (simp_all add: should_escape_host is_host_extra_def is_ctl_def)

lemma authority_facts:
  assumes "plain_host h" "port_text p" "c \<in> set (h @ p)"
  shows "\<not> is_special c \<and> \<not> is_ctl c \<and> \<not> should_escape c EncodeHost \<and> byte c < 128"
proof -
  have "\<not> is_special (CHR '':'')" by (simp add: is_special_def)
  with authority_chars [OF assms] host_char_facts colon_facts show ?thesis by blast
qed

lemma last_colon_port:
  assumes "plain_host h" "port_text p" "p \<noteq> []"
  shows "last_index_byte (CHR '':'') (h @ p) = Some (length h)"
proof -
  obtain t where p: "p = CHR '':'' # t" using assms by (cases p) (auto simp: port_text_def)
  have "CHR '':'' \<notin> set t" using assms(2) p by (auto simp: port_text_def char_class_defs)
  then have "last_index_byte (CHR '':'') p = Some 0"
    by (simp add: p last_index_byte_None [THEN iffD2])
  then show ?thesis by (simp add: last_index_byte_append)
qed

lemma no_colon_host: "plain_host h \<Longrightarrow> CHR '':'' \<notin> set h"
  using host_char_facts by (auto simp: plain_host_def)

lemma valid_port_text: "port_text p \<Longrightarrow> valid_optional_port p"
  by (auto simp: port_text_def valid_optional_port_def)

lemma parse_host_plain:
  assumes "plain_host h" "port_text p"
  shows "parse_host (h @ p) = Some (h @ p)"
proof -
  have un: "unescape EncodeHost (h @ p) = Some (h @ p)"
    using authority_facts [OF assms] by (intro unescape_plain) force+
  have "\<not> has_prefix (h @ p) ''[''"
    using assms(1) host_char_facts by (cases h) (force simp: plain_host_def has_prefix_def)+
  moreover have "last_index_byte (CHR '':'') (h @ p) = (if p = [] then None else Some (length h))"
    using last_colon_port [OF assms] no_colon_host [OF assms(1)] by (auto simp: last_index_byte_None)
  ultimately show ?thesis using un assms(2) by (cases "p = []") (simp_all add: parse_host_def valid_port_text)
qed

lemma parse_authority_plain:
  assumes "plain_host h" "port_text p"
  shows "parse_authority (h @ p) = Some (None, h @ p)"
proof -
  have "CHR ''@'' \<notin> set (h @ p)" using authority_facts [OF assms, of "CHR ''@''"] by auto
  then show ?thesis
    using parse_host_plain [OF assms] by (simp add: parse_authority_def last_index_byte_None [THEN iffD2])
qed

lemma set_path_plain:
  assumes "plain_path path"
  shows "set_path path u = Some (u\<lparr>url_Path := path, url_RawPath := []\<rparr>)"
proof -
  have "\<forall>c\<in>set path. \<not> should_escape c EncodePath" using assms by (auto simp: plain_path_def)
  moreover from this have "CHR ''%'' \<notin> set path" "CHR '' '' \<notin> set path"
    using not_escape_path is_delim_simps by blast+
  ultimately have "unescape EncodePath path = Some path" "escape EncodePath path = path"
    by (auto intro!: unescape_plain escape_plain)
  then show ?thesis by (simp add: set_path_def)
qed

lemma host_port_plain:
  assumes "plain_host h" "port_text p"
  shows "host_port (h @ p) = (h, drop 1 p)"
proof -
  have "\<not> has_prefix h ''[''"
    using assms(1) host_char_facts by (cases h) (force simp: plain_host_def has_prefix_def)+
  then show ?thesis
    using assms last_colon_port [OF assms] no_colon_host [OF assms(1)]
    by (cases "p = []") (auto simp: host_port_def valid_port_text last_index_byte_None [THEN iffD2])
qed


definition http_scheme :: "string \<Rightarrow> bool" where
  "http_scheme sch \<longleftrightarrow> map ascii_lower sch \<in> {''http'', ''https''}"

lemma lower_letter: "is_lower (ascii_lower c) \<Longrightarrow> is_upper c \<or> is_lower c"
  by (auto simp: ascii_lower_def split: if_splits)

lemma http_scheme_letters:
  assumes "http_scheme sch" shows "sch \<noteq> [] \<and> (\<forall>c\<in>set sch. is_upper c \<or> is_lower c)"
proof -
  have "\<forall>c\<in>set (map ascii_lower sch). is_lower c"
    using assms by (auto simp: http_scheme_def is_lower_def simp del: set_map)
  then show ?thesis using assms by (auto simp: http_scheme_def intro!: lower_letter)
qed

lemma letter_facts: "is_upper c \<or> is_lower c \<Longrightarrow> \<not> is_special c \<and> \<not> is_ctl c \<and> c \<noteq> CHR '':''"
  using alnum_facts by (auto simp: is_alnum_def)

lemma get_scheme_http: "http_scheme sch \<Longrightarrow> get_scheme (sch @ CHR '':'' # r) = Some (sch, r)"
  using http_scheme_letters [of sch] scheme_loop_letters [of sch "[]"] by (simp add: get_scheme_def)

definition ordinary :: "string \<Rightarrow> string \<Rightarrow> string \<Rightarrow> string \<Rightarrow> string \<Rightarrow> bool" where
  "ordinary sch h p path q \<longleftrightarrow>
     http_scheme sch \<and> plain_host h \<and> port_text p \<and> plain_path path \<and> query_text q"

lemma plain_path_chars: "plain_path path \<Longrightarrow> c \<in> set path \<Longrightarrow> \<not> is_delim c \<and> \<not> is_ctl c"
  using not_escape_path [of c] by (auto simp: plain_path_def)

lemma ordinary_before_query:
  assumes "ordinary sch h p path q" "is_delim c \<or> is_ctl c"
  shows "c \<notin> set (sch @ ''://'' @ h @ p @ path)"
proof -
  have "\<not> is_delim c" if "\<not> is_special c" using that is_delim_special by blast
  moreover have "\<not> is_delim (CHR '':'')" "\<not> is_ctl (CHR '':'')" "\<not> is_delim (CHR ''/'')" "\<not> is_ctl (CHR ''/'')"
    by (simp_all add: is_delim_def is_ctl_def)
  moreover have "c \<notin> set sch" "c \<notin> set (h @ p)" "c \<notin> set path"
    using assms http_scheme_letters [of sch] letter_facts [of c] authority_facts [of h p c]
      plain_path_chars [of path c] is_delim_special [of c] unfolding ordinary_def by blast+
  ultimately show ?thesis using assms(2) by auto
qed

lemma parse_no_frag_ordinary:
  assumes ord: "ordinary sch h p path q"
  shows "\<exists>query force. (if force \<or> query \<noteq> [] then ''?'' @ query else []) = q \<and>
    parse_no_frag (sch @ ''://'' @ h @ p @ path @ q) = Some (empty_url\<lparr>url_Scheme := map ascii_lower sch,
      url_RawQuery := query, url_ForceQuery := force, url_Host := h @ p, url_Path := path\<rparr>)"
proof -
  let ?auth = "h @ p" and ?rest = "''//'' @ h @ p @ path"
  have parts: "http_scheme sch" "plain_host h" "port_text p" "plain_path path" "query_text q"
    using ord by (simp_all add: ordinary_def)
  have nonempty: "sch \<noteq> []" using http_scheme_letters [OF parts(1)] by simp
  have ctl: "\<not> (\<exists>c\<in>set (sch @ ''://'' @ h @ p @ path @ q). is_ctl c)"
    using ordinary_before_query [OF ord] parts(5) by (auto simp: query_text_def)
  have star: "sch @ ''://'' @ h @ p @ path @ q \<noteq> ''*''" by (cases sch) auto
  have "CHR ''?'' \<notin> set ?rest" using ordinary_before_query [OF ord, of "CHR ''?''"] by simp
  then obtain query force where q: "cut_query (?rest @ q) = (?rest, query, force)"
    "(if force \<or> query \<noteq> [] then ''?'' @ query else []) = q"
    using cut_query_text [OF parts(5)] by blast
  have slash: "CHR ''/'' \<notin> set ?auth"
    using authority_facts [OF parts(2,3), of "CHR ''/''"] by auto
  have path: "path = [] \<or> hd path = CHR ''/''" using parts(4) by (auto simp: plain_path_def)
  have split: "takeWhile (\<lambda>c. c \<noteq> CHR ''/'') (?auth @ path) = ?auth"
    "dropWhile (\<lambda>c. c \<noteq> CHR ''/'') (?auth @ path) = path"
    using slash path by (cases path; auto simp: takeWhile_append dropWhile_append)+
  let ?u = "empty_url\<lparr>url_Scheme := map ascii_lower sch, url_RawQuery := query, url_ForceQuery := force\<rparr>"
  have "parse_rest ?u ?rest = Some (?u\<lparr>url_User := None, url_Host := ?auth, url_Path := path, url_RawPath := []\<rparr>)"
    using split parse_authority_plain [OF parts(2,3)] set_path_plain [OF parts(4)] nonempty
    by (simp add: parse_rest_def has_prefix_def)
  then have "parse_no_frag (sch @ ''://'' @ h @ p @ path @ q) =
      Some (?u\<lparr>url_User := None, url_Host := ?auth, url_Path := path, url_RawPath := []\<rparr>)"
    using ctl star nonempty get_scheme_http [OF parts(1), of "?rest @ q"] q(1)
    by (simp add: parse_no_frag_def has_prefix_def)
  with q(2) show ?thesis by (auto simp: empty_url_def)
qed

lemma parse_url_ordinary:
  assumes ord: "ordinary sch h p path q" and frag: "fragment_text f"
  shows "\<exists>query force fr rf. (if force \<or> query \<noteq> [] then ''?'' @ query else []) = q \<and>
    parse_url (sch @ ''://'' @ h @ p @ path @ q @ f) = Some (empty_url\<lparr>url_Scheme := map ascii_lower sch,
      url_RawQuery := query, url_ForceQuery := force, url_Host := h @ p, url_Path := path,
      url_Fragment := fr, url_RawFragment := rf\<rparr>)"
proof -
  let ?s = "sch @ ''://'' @ h @ p @ path @ q"
  have hash: "CHR ''#'' \<notin> set ?s"
    using ordinary_before_query [OF ord, of "CHR ''#''"] ord by (simp add: ordinary_def query_text_def) auto
  obtain query force where q: "(if force \<or> query \<noteq> [] then ''?'' @ query else []) = q"
    and u: "parse_no_frag ?s = Some (empty_url\<lparr>url_Scheme := map ascii_lower sch,
      url_RawQuery := query, url_ForceQuery := force, url_Host := h @ p, url_Path := path\<rparr>)"
    using parse_no_frag_ordinary [OF ord] by blast
  show ?thesis
  proof (cases "tl f = []")
    case True
    then have "f = [] \<or> f = ''#''" using frag by (cases f) (auto simp: fragment_text_def)
    then have "parse_url (?s @ f) = parse_no_frag ?s"
      using hash cut_absent [OF hash] cut_first [OF hash, of "[]"]
      by (auto simp: parse_url_def split: option.split)
    with u have "parse_url (?s @ f) = Some (empty_url\<lparr>url_Scheme := map ascii_lower sch,
      url_RawQuery := query, url_ForceQuery := force, url_Host := h @ p, url_Path := path,
      url_Fragment := [], url_RawFragment := []\<rparr>)" by (simp add: empty_url_def)
    with q show ?thesis by (metis append_assoc)
  next
    case False
    then obtain t fr where f: "f = CHR ''#'' # t" "t \<noteq> []" "unescape EncodeFragment t = Some fr"
      using frag by (cases f) (auto simp: fragment_text_def)
    then have "parse_url (?s @ f) = Some (empty_url\<lparr>url_Scheme := map ascii_lower sch,
      url_RawQuery := query, url_ForceQuery := force, url_Host := h @ p, url_Path := path,
      url_Fragment := fr, url_RawFragment := (if t = escape EncodeFragment fr then [] else t)\<rparr>)"
      using u cut_first [OF hash, of t] by (simp add: parse_url_def set_fragment_def)
    with q show ?thesis by (metis append_assoc)
  qed
qed

section \<open>Printing an ordinary URL\<close>

lemma escaped_path_plain:
  "plain_path (url_Path u) \<Longrightarrow> url_RawPath u = [] \<Longrightarrow> escaped_path u = url_Path u"
  using plain_path_chars [of "url_Path u" "CHR '' ''"]
  by (auto simp: escaped_path_def plain_path_def intro!: escape_plain)

lemma escape_authority:
  assumes "plain_host h" "port_text p" shows "escape EncodeHost (h @ p) = h @ p"
  using authority_facts [OF assms] by (intro escape_plain) force

lemma url_string_ordinary:
  assumes "plain_host h" "port_text p" "plain_path path" "sch \<noteq> []"
  shows "url_string (empty_url\<lparr>url_Scheme := sch, url_RawQuery := query, url_ForceQuery := force,
      url_Host := h @ p, url_Path := path, url_RawFragment := rf\<rparr>) =
    sch @ ''://'' @ h @ p @ path @ (if force \<or> query \<noteq> [] then ''?'' @ query else [])"
proof -
  let ?u = "empty_url\<lparr>url_Scheme := sch, url_RawQuery := query, url_ForceQuery := force,
      url_Host := h @ p, url_Path := path, url_RawFragment := rf\<rparr>"
  have "escaped_path ?u = path" using escaped_path_plain [of ?u] assms(3) by (simp add: empty_url_def)
  moreover have "h \<noteq> []" using assms(1) by (simp add: plain_host_def)
  moreover have "path = [] \<or> hd path = CHR ''/''" using assms(3) by (auto simp: plain_path_def)
  ultimately show ?thesis
    using assms(4) escape_authority [OF assms(1,2)]
    by (auto simp: url_string_def authority_string_def empty_url_def Let_def)
qed

text \<open>The port that the scheme implies is dropped, and so is a path that is a lone slash.\<close>

definition default_port :: "string \<Rightarrow> string \<Rightarrow> bool" where
  "default_port sch p \<longleftrightarrow> (sch = ''http'' \<and> p = '':80'') \<or> (sch = ''https'' \<and> p = '':443'')"

definition canonical :: "string \<Rightarrow> string \<Rightarrow> string \<Rightarrow> string \<Rightarrow> string \<Rightarrow> string" where
  "canonical sch h p path q =
     map ascii_lower sch @ ''://'' @ map ascii_lower h @
     (if default_port (map ascii_lower sch) p then [] else p) @
     (if path = ''/'' then [] else path) @ q"

lemma NormalizeURL_canonical:
  assumes ord: "ordinary sch h p path q" and frag: "fragment_text f"
  shows "NormalizeURL uc (sch @ ''://'' @ h @ p @ path @ q @ f) = Inr (canonical sch h p path q)"
proof -
  have parts: "http_scheme sch" "plain_host h" "port_text p" "plain_path path"
    using ord by (simp_all add: ordinary_def)
  let ?sch = "map ascii_lower sch" and ?h = "map ascii_lower h"
  obtain query force fr rf where q: "(if force \<or> query \<noteq> [] then ''?'' @ query else []) = q"
    and u: "parse_url (sch @ ''://'' @ h @ p @ path @ q @ f) = Some (empty_url\<lparr>url_Scheme := ?sch,
      url_RawQuery := query, url_ForceQuery := force, url_Host := h @ p, url_Path := path,
      url_Fragment := fr, url_RawFragment := rf\<rparr>)"
    using parse_url_ordinary [OF ord frag] by blast
  have h: "plain_host ?h" by (rule plain_host_lower [OF parts(2)])
  have "map ascii_lower p = p"
  proof (rule map_idI)
    fix c assume "c \<in> set p"
    then show "ascii_lower c = c"
      using port_text_chars [OF parts(3)] digit_facts [of c] by (force simp: ascii_lower_def is_upper_def)
  qed
  moreover have "is_ascii (h @ p)" using authority_facts [OF parts(2,3)] by (force simp: is_ascii_def)
  ultimately have host: "to_lower uc (h @ p) = ?h @ p" by (simp add: to_lower_def)
  have sch: "to_lower uc ?sch = ?sch" "?sch \<noteq> []" "?sch = ''http'' \<or> ?sch = ''https''"
    using parts(1) by (auto simp: http_scheme_def to_lower_def ascii_lower_def is_upper_def)
  let ?p = "if default_port ?sch p then [] else p"
  let ?path = "if path = ''/'' then [] else path"
  let ?v = "\<lambda>hp pa. empty_url\<lparr>url_Scheme := ?sch, url_RawQuery := query, url_ForceQuery := force,
      url_Host := hp, url_Path := pa, url_RawFragment := rf\<rparr>"
  have port: "drop 1 p = ''80'' \<longleftrightarrow> p = '':80''" "drop 1 p = ''443'' \<longleftrightarrow> p = '':443''"
    using parts(3) by (cases p; auto simp: port_text_def)+
  have "NormalizeURL uc (sch @ ''://'' @ h @ p @ path @ q @ f) = Inr (url_string (?v (?h @ ?p) ?path))"
    unfolding NormalizeURL_def u using host sch host_port_plain [OF h parts(3)] port
    by (auto simp: Let_def hostname_def port_def default_port_def empty_url_def)
  also have "port_text ?p" "plain_path ?path" using parts by (auto simp: port_text_def plain_path_def)
  then have "url_string (?v (?h @ ?p) ?path) = ?sch @ ''://'' @ ?h @ ?p @ ?path @ q"
    using url_string_ordinary [OF h _ _ sch(2), of ?p ?path] q by simp
  finally show ?thesis by (simp add: canonical_def)
qed

section \<open>The canonical form is a fixed point\<close>

lemma ascii_lower_idem: "ascii_lower (ascii_lower c) = ascii_lower c"
  by (auto simp: ascii_lower_def char_class_defs)

lemma map_lower_idem: "map ascii_lower (map ascii_lower s) = map ascii_lower s"
  by (simp add: ascii_lower_idem)

lemma http_scheme_lower: "http_scheme sch \<Longrightarrow> http_scheme (map ascii_lower sch)"
  by (simp only: http_scheme_def map_lower_idem)

lemma ordinary_canonical:
  assumes "ordinary sch h p path q"
  shows "ordinary (map ascii_lower sch) (map ascii_lower h)
    (if default_port (map ascii_lower sch) p then [] else p) (if path = ''/'' then [] else path) q"
proof -
  have "port_text []" "plain_path []" by (simp_all add: port_text_def plain_path_def)
  then show ?thesis
    using assms plain_host_lower [of h] http_scheme_lower [of sch] by (simp add: ordinary_def)
qed

lemma canonical_idem:
  "canonical (map ascii_lower sch) (map ascii_lower h)
    (if default_port (map ascii_lower sch) p then [] else p) (if path = ''/'' then [] else path) q =
   canonical sch h p path q"
proof -
  have "\<not> default_port s []" for s by (simp add: default_port_def)
  then show ?thesis unfolding canonical_def map_lower_idem by simp
qed

lemma NormalizeURL_canonical_fixed:
  assumes "ordinary sch h p path q"
  shows "NormalizeURL uc (canonical sch h p path q) = Inr (canonical sch h p path q)"
proof -
  let ?p = "if default_port (map ascii_lower sch) p then [] else p"
  let ?path = "if path = ''/'' then [] else path"
  have "fragment_text []" by (simp add: fragment_text_def)
  from NormalizeURL_canonical [OF ordinary_canonical [OF assms] this, of uc]
  have "NormalizeURL uc (map ascii_lower sch @ ''://'' @ map ascii_lower h @ ?p @ ?path @ q @ []) =
    Inr (canonical sch h p path q)" by (simp only: canonical_idem)
  then show ?thesis by (simp only: canonical_def append_Nil2)
qed

section \<open>Properties\<close>

text \<open>C29: an ordinary URL is normalised to its canonical form: scheme and host in lower case,
  the fragment, the default port of the scheme and a lone slash removed, port, path and
  query otherwise kept; normalising again changes nothing.\<close>

theorem NormalizeURL_ordinary:
  assumes "ordinary sch h p path q" and "fragment_text f"
  shows "NormalizeURL uc (sch @ ''://'' @ h @ p @ path @ q @ f) = Inr (canonical sch h p path q) \<and>
    NormalizeURL uc (canonical sch h p path q) = Inr (canonical sch h p path q)"
  using NormalizeURL_canonical [OF assms] NormalizeURL_canonical_fixed [OF assms(1)] by blast

theorem NormalizeURL_ordinary_witness:
  "NormalizeURL ascii_tables ''HTTP://Example.COM:80/?q=1#frag'' = Inr ''http://example.com?q=1'' \<and>
   NormalizeURL ascii_tables ''http://example.com?q=1'' = Inr ''http://example.com?q=1''"
proof -
  have "ordinary ''HTTP'' ''Example.COM'' '':80'' ''/'' ''?q=1''" by code_simp
  moreover have "fragment_text ''#frag''" by code_simp
  moreover have "canonical ''HTTP'' ''Example.COM'' '':80'' ''/'' ''?q=1'' = ''http://example.com?q=1''"
    by code_simp
  moreover have "''HTTP'' @ ''://'' @ ''Example.COM'' @ '':80'' @ ''/'' @ ''?q=1'' @ ''#frag'' =
    ''HTTP://Example.COM:80/?q=1#frag''" by simp
  ultimately show ?thesis
    using NormalizeURL_ordinary [of "''HTTP''" "''Example.COM''" "'':80''" "''/''" "''?q=1''" "''#frag''" ascii_tables]
    by (simp only:)
qed

section \<open>Where normalisation goes wrong\<close>

text \<open>An IPv6 literal with the default port loses its brackets, and normalising is not idempotent.\<close>

lemma NormalizeURL_ipv6_default_port:
  "NormalizeURL ascii_tables ''http://[2606:4700::80]:80/'' = Inr ''http://2606:4700::80''"
  by code_simp

lemma NormalizeURL_not_idempotent:
  "NormalizeURL ascii_tables ''http://2606:4700::80'' = Inr ''http://2606:4700:''"
  by code_simp

end
