(* ===== verification/GoNetText.thy ===== *)
theory GoNetText
  imports GoNet
begin

text \<open>
  Addresses printed by \<open>IP.String\<close> are read back by \<open>ParseIP\<close>: the decimal octets of an
  IPv4 address, the hexadecimal groups of an IPv6 address and the run of zero groups
  written as two colons.
\<close>

section \<open>IPv4\<close>

lemma digit_char [simp]:
  "d < 10 \<Longrightarrow> is_digit (char_of (48 + d))"
  "d < 10 \<Longrightarrow> digit_val (char_of (48 + d)) = d"
  by (simp_all add: is_digit_def digit_val_def)

lemma dec_digits_lt: "n < 10 \<Longrightarrow> dec_digits n = [char_of (48 + n)]"
  by (subst dec_digits.simps) simp

lemma dec_digits_ge:
  "10 \<le> n \<Longrightarrow> dec_digits n = dec_digits (n div 10) @ [char_of (48 + n mod 10)]"
  by (subst dec_digits.simps) simp

lemma dec_digits_two:
  assumes "10 \<le> n" "n < 100"
  shows "dec_digits n = [char_of (48 + n div 10), char_of (48 + n mod 10)]"
proof -
  have "n div 10 < 10" using assms by auto
  with assms show ?thesis by (simp add: dec_digits_ge dec_digits_lt)
qed

lemma dec_digits_three:
  assumes "100 \<le> n" "n < 1000"
  shows "dec_digits n = [char_of (48 + n div 100), char_of (48 + n div 10 mod 10), char_of (48 + n mod 10)]"
proof -
  have "10 \<le> n div 10" "n div 10 < 100" using assms by auto
  moreover have "n div 10 div 10 = n div 100" by (simp flip: div_mult2_eq)
  ultimately show ?thesis using assms by (simp add: dec_digits_ge [of n] dec_digits_two)
qed

lemma ipv4_loop_octet:
  assumes "n < 256"
  shows "\<exists>k>0. ipv4_loop (dec_digits n @ rest) 0 0 fs = ipv4_loop rest n k fs"
proof -
  consider "n < 10" | "10 \<le> n" "n < 100" | "100 \<le> n" "n < 1000" using assms by linarith
  then show ?thesis
  proof cases
    case 1
    then show ?thesis by (intro exI [of _ 1]) (simp add: dec_digits_lt)
  next
    case 2
    then have "n div 10 < 10" "n mod 10 < 10" "n div 10 \<noteq> 0" by auto
    with 2 assms show ?thesis
      by (intro exI [of _ "Suc (Suc 0)"]) (simp add: dec_digits_two div_mult_mod_eq)
  next
    case 3
    have d: "n div 100 < 10" "n div 10 mod 10 < 10" "n mod 10 < 10" "n div 100 \<noteq> 0" using 3 by auto
    have e: "n div 100 * 10 + n div 10 mod 10 = n div 10"
      using div_mult_mod_eq [of "n div 10" 10] by (simp flip: div_mult2_eq)
    have "n div 10 < 256" "n div 100 < 256" using assms by auto
    with d e 3 assms show ?thesis
      by (intro exI [of _ "Suc (Suc (Suc 0))"]) (simp add: dec_digits_three div_mult_mod_eq)
  qed
qed

lemma ipv4_loop_last:
  assumes "length fs = 3" "n < 256" shows "ipv4_loop (dec_digits n) 0 0 fs = Some (fs @ [of_nat n])"
  using ipv4_loop_octet [OF assms(2), of "[]" fs] assms(1) by auto

lemma dec_digits_nonempty [simp]: "dec_digits n \<noteq> []"
  by (subst dec_digits.simps) simp

lemma ipv4_loop_dot:
  assumes "length fs < 3" "n < 256" "rest \<noteq> []"
  shows "ipv4_loop (dec_digits n @ CHR ''.'' # rest) 0 0 fs = ipv4_loop rest 0 0 (fs @ [of_nat n])"
  using ipv4_loop_octet [OF assms(2), of "CHR ''.'' # rest" fs] assms by (auto simp: is_digit_def)

lemma u8_bound: "unat (x :: u8) < 256"
  using unsigned_less [of x] by simp

lemma length4: "length b = 4 \<Longrightarrow> \<exists>w x y z. b = [w, x, y, z]"
  by (auto simp: numeral_eq_Suc length_Suc_conv)

lemma parse_ipv4_string:
  assumes "length b = 4" shows "parse_ipv4_fields (ipv4_string b) = Some b"
proof -
  obtain w x y z where b: "b = [w, x, y, z]" using length4 [OF assms] by blast
  have s: "ipv4_string b = dec_digits (unat w) @ CHR ''.'' # dec_digits (unat x) @ CHR ''.''
      # dec_digits (unat y) @ CHR ''.'' # dec_digits (unat z)"
    by (simp add: b ipv4_string_def)
  show ?thesis
    unfolding parse_ipv4_fields_def s by (simp add: ipv4_loop_dot ipv4_loop_last u8_bound b)
qed

lemma dec_digits_digits: "c \<in> set (dec_digits n) \<Longrightarrow> is_digit c"
  by (induction n rule: dec_digits.induct) (subst (asm) (2) dec_digits.simps, auto split: if_splits)

section \<open>IPv6 groups\<close>

lemma hex_digit_hex [simp]: "d < 16 \<Longrightarrow> is_hex (hex_digit d)" "d < 16 \<Longrightarrow> hex_val (hex_digit d) = d"
  by (auto simp: is_hex_def hex_digit_def hex_val_def is_digit_def)

lemma hex_digits_nonempty [simp]: "hex_digits n \<noteq> []"
  by (subst hex_digits.simps) simp

lemma hex_digits_hex: "c \<in> set (hex_digits n) \<Longrightarrow> is_hex c"
proof (induction n rule: hex_digits.induct)
  case (1 n)
  then show ?case by (subst (asm) hex_digits.simps [of n]) (auto split: if_splits)
qed

lemma hex_num_snoc: "hex_num (s @ [c]) = hex_num s * 16 + hex_val c"
  by (simp add: hex_num_def)

lemma hex_num_digits: "hex_num (hex_digits n) = n"
proof (induction n rule: hex_digits.induct)
  case (1 n)
  then show ?case
    by (subst hex_digits.simps [of n]) (simp add: hex_num_snoc hex_num_def div_mult_mod_eq)
qed

lemma length_hex_digits: "n < 16 ^ m \<Longrightarrow> 0 < m \<Longrightarrow> length (hex_digits n) \<le> m"
proof (induction n arbitrary: m rule: hex_digits.induct)
  case (1 n)
  show ?case
  proof (cases "n < 16")
    case True with 1(3) show ?thesis by (subst hex_digits.simps [of n]) simp
  next
    case False
    with 1(2) have "m \<noteq> 1" by auto
    with 1(3) obtain k where m: "m = Suc k" "0 < k" by (cases m) auto
    with 1(2) have "n div 16 < 16 ^ k" by (simp add: div_less_iff_less_mult mult.commute)
    with 1(1) False m have "length (hex_digits (n div 16)) \<le> k" by blast
    with False m show ?thesis by (subst hex_digits.simps [of n]) simp
  qed
qed

definition group_bytes :: "nat \<Rightarrow> u8 list" where
  "group_bytes g = [of_nat (g div 256), of_nat (g mod 256)]"

lemma length_group_bytes [simp]: "length (group_bytes g) = 2"
  by (simp add: group_bytes_def)

lemma hex_prefix:
  assumes "rest = [] \<or> \<not> is_hex (hd rest)"
  shows "takeWhile is_hex (hex_digits g @ rest) = hex_digits g"
    and "dropWhile is_hex (hex_digits g @ rest) = rest"
  using assms hex_digits_hex [of _ g] by (cases rest; simp add: takeWhile_append dropWhile_append)+

lemma colon_not_hex [simp]: "\<not> is_hex (CHR '':'')"
  by (simp add: is_hex_def is_digit_def)

lemma hd_hex_digits [simp]: "hd (hex_digits g) \<noteq> CHR '':''"
  using hex_digits_hex [of "hd (hex_digits g)" g] by auto

lemma ipv6_loop_group:
  assumes "rest = [] \<or> \<not> is_hex (hd rest)" "g < 65536" "length ip < 16"
  shows "ipv6_loop (hex_digits g @ rest) ip e =
    (let ip' = ip @ group_bytes g in case rest of
        [] \<Rightarrow> Some ([], ip', e)
      | c # s1 \<Rightarrow>
          if c = CHR ''.'' then
            (if (e = None \<and> length ip \<noteq> 12) \<or> 16 < length ip + 4 then None
             else case parse_ipv4_fields (hex_digits g @ rest) of None \<Rightarrow> None
                  | Some fs \<Rightarrow> Some ([], ip @ fs, e))
          else if c \<noteq> CHR '':'' \<or> s1 = [] then None
          else if hd s1 = CHR '':'' then
            (if e \<noteq> None then None
             else if tl s1 = [] then Some ([], ip', Some (length ip'))
             else ipv6_loop (tl s1) ip' (Some (length ip')))
          else ipv6_loop s1 ip' e)"
proof -
  have len: "\<not> 4 < length (hex_digits g)" "\<not> 16 \<le> length ip"
    using assms length_hex_digits [of g 4] by auto
  show ?thesis
    by (subst ipv6_loop.simps)
      (simp only: Let_def hex_prefix [OF assms(1)] hex_num_digits len if_False
        hex_digits_nonempty simp_thms group_bytes_def)
qed

lemma group_last:
  assumes "g < 65536" "length ip < 16"
  shows "ipv6_loop (hex_digits g) ip e = Some ([], ip @ group_bytes g, e)"
  using ipv6_loop_group [OF _ assms, of "[]" e] by simp

lemma group_colon:
  assumes "g < 65536" "length ip < 16" "r \<noteq> []" "hd r \<noteq> CHR '':''"
  shows "ipv6_loop (hex_digits g @ CHR '':'' # r) ip e = ipv6_loop r (ip @ group_bytes g) e"
  using ipv6_loop_group [OF _ assms(1,2), of "CHR '':'' # r" e] assms(3,4) by simp

lemma group_ellipsis:
  assumes "g < 65536" "length ip < 16"
  shows "ipv6_loop (hex_digits g @ CHR '':'' # CHR '':'' # r) ip None =
    (if r = [] then Some ([], ip @ group_bytes g, Some (length ip + 2))
     else ipv6_loop r (ip @ group_bytes g) (Some (length ip + 2)))"
  using ipv6_loop_group [OF _ assms, of "CHR '':'' # CHR '':'' # r" None] by simp

abbreviation groups_text :: "nat list \<Rightarrow> string" where
  "groups_text gs \<equiv> join '':'' (map hex_digits gs)"

abbreviation groups_bytes :: "nat list \<Rightarrow> ip" where
  "groups_bytes gs \<equiv> concat (map group_bytes gs)"

lemma length_groups_bytes [simp]: "length (groups_bytes gs) = 2 * length gs"
  by (induction gs) auto

lemma join_Cons: "xs \<noteq> [] \<Longrightarrow> join sep (x # xs) = x @ sep @ join sep xs"
  by (cases xs) auto

lemma groups_text_nonempty: "gs \<noteq> [] \<Longrightarrow> groups_text gs \<noteq> []"
  by (cases gs; cases "tl gs = []") (auto simp: join_Cons)

lemma hd_groups_text: "gs \<noteq> [] \<Longrightarrow> hd (groups_text gs @ r) \<noteq> CHR '':''"
proof (cases gs)
  case (Cons g hs)
  then show "gs \<noteq> [] \<Longrightarrow> ?thesis"
    by (cases "hs = []") (simp_all add: join_Cons)
qed simp

lemma read_groups:
  assumes "gs \<noteq> []" "\<forall>g\<in>set gs. g < 65536" "length ip + 2 * length gs \<le> 16"
  shows "ipv6_loop (groups_text gs) ip e = Some ([], ip @ groups_bytes gs, e)"
  using assms
proof (induction gs arbitrary: ip)
  case (Cons g gs)
  show ?case
  proof (cases "gs = []")
    case True with Cons.prems show ?thesis by (simp add: group_last)
  next
    case False
    then have "groups_text gs \<noteq> []" "hd (groups_text gs) \<noteq> CHR '':''"
      using groups_text_nonempty hd_groups_text [of gs "[]"] by simp_all
    with False Cons show ?thesis
      by (simp add: join_Cons group_colon)
  qed
qed simp

lemma read_ellipsis:
  assumes "pre \<noteq> []" "\<forall>g\<in>set (pre @ post). g < 65536"
    "length ip + 2 * length pre + 2 * length post < 16"
  shows "ipv6_loop (groups_text pre @ ''::'' @ groups_text post) ip None =
    Some ([], ip @ groups_bytes pre @ groups_bytes post, Some (length ip + 2 * length pre))"
  using assms
proof (induction pre arbitrary: ip)
  case (Cons g pre)
  show ?case
  proof (cases "pre = []")
    case True
    with Cons.prems show ?thesis
      by (cases "post = []") (auto simp: group_ellipsis read_groups groups_text_nonempty)
  next
    case False
    let ?r = "groups_text pre @ ''::'' @ groups_text post"
    have "?r \<noteq> []" "hd ?r \<noteq> CHR '':''" using False hd_groups_text by simp_all
    moreover have "groups_text (g # pre) @ ''::'' @ groups_text post = hex_digits g @ CHR '':'' # ?r"
      using False by (simp add: join_Cons)
    ultimately show ?thesis using False Cons
      by (simp add: group_colon)
  qed
qed simp

section \<open>The whole address\<close>

lemma zero_run_Some:
  assumes "zero_run gs = Some (k, l)"
  shows "2 \<le> l \<and> k + l \<le> length gs \<and> take l (drop k gs) = replicate l 0"
proof -
  define step where "step = (\<lambda>best i.
     let l = length (takeWhile (\<lambda>g. g = 0) (drop i gs))
     in if 2 \<le> l \<and> (case best of None \<Rightarrow> True | Some (_, m) \<Rightarrow> m < l) then Some (i, l) else best)"
  define ok where "ok = (\<lambda>best. \<forall>k l. best = Some (k, l) \<longrightarrow>
     2 \<le> l \<and> k + l \<le> length gs \<and> take l (drop k gs) = replicate l 0)"
  have tw: "take (length (takeWhile (\<lambda>g. g = 0) xs)) xs = replicate (length (takeWhile (\<lambda>g. g = 0) xs)) 0"
    for xs :: "nat list" by (induction xs) auto
  have step_ok: "ok (step best i)" if "ok best" "i < length gs" for best i
  proof -
    let ?l = "length (takeWhile (\<lambda>g. g = 0) (drop i gs))"
    have "?l \<le> length gs - i"
      using length_takeWhile_le [of "\<lambda>g. g = 0" "drop i gs"] by simp
    with that(2) have le: "i + ?l \<le> length gs" by arith
    have "step best i = best \<or> (step best i = Some (i, ?l) \<and> 2 \<le> ?l)"
      by (simp add: step_def Let_def)
    then show ?thesis
    proof
      assume "step best i = best" with that(1) show ?thesis by simp
    next
      assume "step best i = Some (i, ?l) \<and> 2 \<le> ?l"
      with le tw [of "drop i gs"] show ?thesis by (simp add: ok_def)
    qed
  qed
  have fold_ok: "ok (foldl step best js)" if "ok best" "set js \<subseteq> {..<length gs}" for best js
    using that
  proof (induction js arbitrary: best)
    case (Cons j js)
    then have "ok (step best j)" by (intro step_ok) auto
    with Cons show ?case by simp
  qed simp
  have "ok None" by (simp add: ok_def)
  then have "ok (foldl step None [0..<length gs])" by (rule fold_ok) auto
  with assms show ?thesis by (simp add: zero_run_def step_def ok_def)
qed

lemma groups_bytes_groups:
  "even (length ip) \<Longrightarrow> groups_bytes (groups ip) = ip"
proof (induction ip rule: groups.induct)
  case (1 a b r)
  have "(unat a * 256 + unat b) div 256 = unat a" "(unat a * 256 + unat b) mod 256 = unat b"
    using u8_bound [of b] by auto
  with 1 show ?case by (simp add: group_bytes_def)
qed auto

lemma length_groups: "length (groups ip) = length ip div 2"
  by (induction ip rule: groups.induct) auto

lemma groups_bound: "g \<in> set (groups ip) \<Longrightarrow> g < 65536"
proof (induction ip rule: groups.induct)
  case (1 a b r)
  then show ?case using u8_bound [of a] u8_bound [of b] by auto
qed auto

lemma groups_bytes_zero: "concat (replicate l (group_bytes 0)) = replicate (2 * l) 0"
  by (induction l) (auto simp: group_bytes_def)

lemma groups_text_not_ellipsis:
  "gs \<noteq> [] \<Longrightarrow> \<not> has_prefix (groups_text gs @ r) ''::''"
  using hd_groups_text [of gs r] groups_text_nonempty [of gs]
  by (auto simp: has_prefix_def hd_append neq_Nil_conv)

lemma parse_ipv6_string:
  assumes len: "length ip = 16"
  shows "parse_ipv6_bytes (ipv6_string ip) = Some ip"
proof (cases "zero_run (groups ip)")
  case None
  have "groups ip \<noteq> []" "\<forall>g\<in>set (groups ip). g < 65536"
    using len length_groups [of ip] groups_bound by auto
  then have "ipv6_loop (groups_text (groups ip)) [] None = Some ([], ip, None)"
    using read_groups [of "groups ip" "[]" None] len groups_bytes_groups [of ip]
    by (simp add: length_groups)
  with None \<open>groups ip \<noteq> []\<close> len show ?thesis
    using groups_text_not_ellipsis [of "groups ip" "[]"]
    by (simp add: parse_ipv6_bytes_def ipv6_string_def expand_ellipsis_def)
next
  case (Some kl)
  obtain k l where run: "zero_run (groups ip) = Some (k, l)" using Some by (cases kl) auto
  define gs where "gs = groups ip"
  define pre where "pre = take k gs"
  define post where "post = drop (k + l) gs"
  have l: "2 \<le> l" "k + l \<le> 8" "take l (drop k gs) = replicate l 0"
    using zero_run_Some [OF run] len by (simp_all add: gs_def length_groups)
  have gs: "gs = pre @ replicate l 0 @ post"
    unfolding pre_def post_def l(3) [symmetric]
    by (metis append_take_drop_id drop_drop add.commute)
  have bound: "\<forall>g\<in>set (pre @ post). g < 65536"
    using groups_bound [of _ ip] gs by (auto simp: gs_def)
  have ip: "ip = groups_bytes pre @ replicate (2 * l) 0 @ groups_bytes post"
    using groups_bytes_groups [of ip] len gs by (simp add: gs_def groups_bytes_zero)
  have lens: "length pre = k" "length post = 8 - (k + l)"
    using l(2) len by (simp_all add: pre_def post_def gs_def length_groups)
  have str: "ipv6_string ip = groups_text pre @ ''::'' @ groups_text post"
    using run by (simp add: ipv6_string_def pre_def post_def gs_def Let_def)
  have ex: "expand_ellipsis ([], groups_bytes pre @ groups_bytes post, Some (2 * k)) = Some ip"
    using lens l by (subst ip) (simp add: expand_ellipsis_def, arith)
  show ?thesis
  proof (cases "pre = []")
    case True
    then show ?thesis
      using ex read_groups [of post "[]" "Some 0"] bound lens l
      by (cases "post = []")
        (auto simp: str parse_ipv6_bytes_def has_prefix_def groups_text_nonempty expand_ellipsis_def)
  next
    case False
    then have "ipv6_loop (groups_text pre @ ''::'' @ groups_text post) [] None =
        Some ([], groups_bytes pre @ groups_bytes post, Some (2 * k))"
      using read_ellipsis [of pre post "[]"] bound lens l by simp
    with False ex show ?thesis
      unfolding parse_ipv6_bytes_def str
      by (simp add: groups_text_not_ellipsis del: append.simps)
  qed
qed

lemma find_only:
  "\<exists>c\<in>set s. P c \<Longrightarrow> \<forall>c\<in>set s. P c \<longrightarrow> c = d \<Longrightarrow> find P s = Some d"
  by (induction s) auto

lemma set_join_subset: "set (join sep xs) \<subseteq> set sep \<union> (\<Union>x\<in>set xs. set x)"
proof (induction xs)
  case (Cons x xs)
  then show ?case by (cases "xs = []") (auto simp: join_Cons)
qed simp

lemma ipv4_string_chars: "c \<in> set (ipv4_string b) \<Longrightarrow> is_digit c \<or> c = CHR ''.''"
  using set_join_subset [of "''.''" "map (\<lambda>x. dec_digits (unat x)) b"] dec_digits_digits
  by (auto simp: ipv4_string_def)

lemma parse_addr_ipv4:
  assumes "length b = 4" shows "parse_addr (ipv4_string b) = Some (Addr4 b)"
proof -
  obtain w x y z where b: "b = [w, x, y, z]" using length4 [OF assms] by blast
  have "find (\<lambda>c. c \<in> {CHR ''.'', CHR '':'', CHR ''%''}) (ipv4_string b) = Some (CHR ''.'')"
  proof (rule find_only)
    show "\<exists>c\<in>set (ipv4_string b). c \<in> {CHR ''.'', CHR '':'', CHR ''%''}"
      by (simp add: b ipv4_string_def)
    show "\<forall>c\<in>set (ipv4_string b). c \<in> {CHR ''.'', CHR '':'', CHR ''%''} \<longrightarrow> c = CHR ''.''"
      using ipv4_string_chars [of "CHR '':''" b] ipv4_string_chars [of "CHR ''%''" b]
      by (auto simp: is_digit_def)
  qed
  with assms show ?thesis by (simp add: parse_addr_def parse_ipv4_string)
qed

lemma groups_text_chars: "c \<in> set (groups_text gs) \<Longrightarrow> is_hex c \<or> c = CHR '':''"
  using set_join_subset [of "'':''" "map hex_digits gs"] hex_digits_hex by auto

lemma ipv6_string_chars: "c \<in> set (ipv6_string ip) \<Longrightarrow> is_hex c \<or> c = CHR '':''"
  using groups_text_chars
  by (auto simp: ipv6_string_def Let_def split: option.splits prod.splits)

lemma ipv6_string_colon:
  assumes "length ip = 16" shows "CHR '':'' \<in> set (ipv6_string ip)"
proof (cases "zero_run (groups ip)")
  case None
  obtain g h gs where "groups ip = g # h # gs"
    using length_groups [of ip] assms by (auto simp: numeral_eq_Suc length_Suc_conv)
  with None show ?thesis by (simp add: ipv6_string_def Let_def join_Cons)
next
  case (Some kl)
  then show ?thesis by (cases kl) (simp add: ipv6_string_def Let_def)
qed

lemma parse_addr_ipv6:
  assumes "length ip = 16" shows "parse_addr (ipv6_string ip) = Some (Addr6 ip [])"
proof -
  have chars: "c \<notin> {CHR ''.'', CHR ''%''}" if "c \<in> set (ipv6_string ip)" for c
    using ipv6_string_chars [OF that] by (auto simp: is_hex_def is_digit_def)
  have "find (\<lambda>c. c \<in> {CHR ''.'', CHR '':'', CHR ''%''}) (ipv6_string ip) = Some (CHR '':'')"
    using ipv6_string_colon [OF assms] chars by (intro find_only) auto
  moreover have "cut (CHR ''%'') (ipv6_string ip) = (ipv6_string ip, [], False)"
    using chars by (auto simp: cut_def)
  ultimately show ?thesis by (simp add: parse_addr_def parse_ipv6_string [OF assms])
qed

lemma v4_prefix_length [simp]: "length v4_in_v6_prefix = 12"
  by (simp add: v4_in_v6_prefix_def)

lemma to4_prefix [simp]: "length b = 4 \<Longrightarrow> to4 (v4_in_v6_prefix @ b) = Some b"
  by (simp add: to4_def)

lemma ParseIP_ipv4_string: "length b = 4 \<Longrightarrow> ParseIP (ipv4_string b) = Some (v4_in_v6_prefix @ b)"
  by (simp add: ParseIP_def parse_addr_ipv4)

text \<open>An address of sixteen bytes is read back as it was.\<close>

lemma ParseIP_ip_string:
  assumes "length ip = 16" shows "ParseIP (ip_string ip) = Some ip"
proof (cases "to4 ip")
  case None
  with assms show ?thesis by (simp add: ip_string_def ParseIP_def parse_addr_ipv6)
next
  case (Some b)
  with assms have "b = drop 12 ip" "take 12 ip = v4_in_v6_prefix"
    by (auto simp: to4_def split: if_splits)
  with assms have "length b = 4" "v4_in_v6_prefix @ b = ip"
    by (auto simp flip: \<open>take 12 ip = v4_in_v6_prefix\<close>)
  with Some show ?thesis by (simp add: ip_string_def ParseIP_ipv4_string)
qed

section \<open>Parsed addresses have sixteen bytes\<close>

lemma ipv4_loop_length: "ipv4_loop s v k fs = Some b \<Longrightarrow> length fs \<le> 3 \<Longrightarrow> length b = 4"
  by (induction s v k fs rule: ipv4_loop.induct) (auto split: if_splits)

lemma ipv6_loop_length:
  "ipv6_loop s ip e = Some (r, b, e') \<Longrightarrow> even (length ip) \<Longrightarrow> length ip \<le> 16 \<Longrightarrow> length b \<le> 16"
proof (induction s ip e rule: ipv6_loop.induct)
  case (1 s ip e)
  show ?case
  proof (cases "16 \<le> length ip")
    case True
    with 1(3,5) show ?thesis by (simp add: ipv6_loop.simps)
  next
    case False
    then have "length ip \<le> 14" using 1(4) by presburger
    with False 1 show ?thesis
      by (subst (asm) (3) ipv6_loop.simps)
        (auto simp: Let_def parse_ipv4_fields_def dest: ipv4_loop_length
          split: if_splits list.splits option.splits)
  qed
qed

lemma expand_ellipsis_length:
  "length b \<le> 16 \<Longrightarrow> expand_ellipsis (r, b, e) = Some ip \<Longrightarrow> length ip = 16"
  by (auto simp: expand_ellipsis_def split: if_splits option.splits)

lemma parse_ipv6_length: "parse_ipv6_bytes s = Some ip \<Longrightarrow> length ip = 16"
  by (auto simp: parse_ipv6_bytes_def bind_eq_Some_conv expand_ellipsis_length
      dest!: ipv6_loop_length split: if_splits)

lemma ParseIP_length: "ParseIP s = Some ip \<Longrightarrow> length ip = 16"
proof -
  assume "ParseIP s = Some ip"
  then obtain a where "parse_addr s = Some a" "ip = as16 a"
    by (auto simp: ParseIP_def split: option.splits if_splits)
  then show ?thesis
    by (auto simp: parse_addr_def parse_ipv4_fields_def Let_def parse_ipv6_length
        dest!: ipv4_loop_length split: option.splits if_splits prod.splits)
qed

lemma ParseIP_Nil [simp]: "ParseIP [] = None"
  by (simp add: ParseIP_def parse_addr_def)

lemma to4_16: "length ip = 16 \<Longrightarrow> to4 ip = (if take 12 ip = v4_in_v6_prefix then Some (drop 12 ip) else None)"
  by (simp add: to4_def)

lemma length16: "length b = 16 \<Longrightarrow>
  \<exists>a0 a1 a2 a3 a4 a5 a6 a7 a8 a9 a10 a11 a12 a13 a14 a15.
    b = [a0, a1, a2, a3, a4, a5, a6, a7, a8, a9, a10, a11, a12, a13, a14, a15]"
  by (auto simp: numeral_eq_Suc length_Suc_conv)

end
