(* ===== verification/Validator.thy ===== *)
theory Validator
  imports Normalize GoNetText
begin

text \<open>
  \<open>internal/hash/validator.go\<close>: the chain of checks a URL passes before it is stored.
  \<open>idna.Lookup.ToASCII\<close> is third-party code, a parameter; its error is \<open>None\<close>.
\<close>

definition privateRanges :: "string list" where
  "privateRanges =
     [''10.0.0.0/8'', ''172.16.0.0/12'', ''192.168.0.0/16'', ''127.0.0.0/8'', ''0.0.0.0/8'',
      ''169.254.0.0/16'', ''::1/128'', ''fd00::/8'', ''fe80::/10'']"

text \<open>The loop of \<open>init\<close>; \<open>None\<close> is its panic on a range that does not parse.\<close>

fun init_cidrs :: "string list \<Rightarrow> ipnet list \<Rightarrow> ipnet list option" where
  "init_cidrs [] acc = Some acc"
| "init_cidrs (cidr # cidrs) acc =
     (case parse_cidr cidr of None \<Rightarrow> None
      | Some network \<Rightarrow> init_cidrs cidrs (acc @ [network]))"

definition privateCIDRs :: "ipnet list" where
  "privateCIDRs = (case init_cidrs privateRanges [] of Some ns \<Rightarrow> ns | None \<Rightarrow> [])"

definition checkSelfRef :: "unicode_tables \<Rightarrow> parsed_url \<Rightarrow> string \<Rightarrow> goerr + unit" where
  "checkSelfRef uc u baseURL =
     (if baseURL = [] then Inr ()
      else case parse_url baseURL of
             None \<Rightarrow> Inr ()
           | Some base \<Rightarrow>
               if equal_fold uc (hostname u) (hostname base)
               then Inl (Wrapf ''url references snip itself: %w'' [] (Sentinel ErrURLSelfRef))
               else Inr ())"

text \<open>The text that is tried as an IP address: the host without its port and brackets.\<close>

definition private_host :: "string \<Rightarrow> string" where
  "private_host rawHost =
     (let host = (case split_host_port rawHost of Some (h, _) \<Rightarrow> h | None \<Rightarrow> rawHost)
      in trim_suffix (trim_prefix host ''['') '']'')"

definition checkPrivateIP :: "string \<Rightarrow> goerr + unit" where
  "checkPrivateIP rawHost =
     (case ParseIP (private_host rawHost) of
        None \<Rightarrow> Inr ()
      | Some ip \<Rightarrow>
          if \<exists>network\<in>set privateCIDRs. net_contains network ip
          then Inl (Wrapf ''url points to private ip %s: %w'' [ArgStr (ip_string ip)] (Sentinel ErrURLPrivateIP))
          else Inr ())"

definition checkHomograph :: "(string \<Rightarrow> string option) \<Rightarrow> string \<Rightarrow> goerr + unit" where
  "checkHomograph idna hostname0 =
     (if hostname0 = [] then Inr ()
      else case idna hostname0 of
             None \<Rightarrow> Inr ()
           | Some asciiHost \<Rightarrow>
               if asciiHost \<noteq> hostname0
               then Inl (Wrapf ''url contains suspicious unicode in host %q: %w'' [ArgStr hostname0] (Sentinel ErrURLHomograph))
               else Inr ())"

definition ValidateURL ::
  "unicode_tables \<Rightarrow> (string \<Rightarrow> string option) \<Rightarrow> string \<Rightarrow> string \<Rightarrow> goerr + unit" where
  "ValidateURL uc idna raw0 baseURL =
     (let raw = trim_space raw0 in
      if raw = [] then Inl (Wrapf ''url is empty: %w'' [] (Sentinel ErrInvalidURL))
      else if length raw > 2048 then Inl (Wrapf ''url exceeds 2048 characters: %w'' [] (Sentinel ErrInvalidURL))
      else case parse_url raw of
        None \<Rightarrow> Inl (Wrapf ''url parse error: %w'' [] (Sentinel ErrInvalidURL))
      | Some u \<Rightarrow>
          if url_Scheme u \<noteq> ''http'' \<and> url_Scheme u \<noteq> ''https''
          then Inl (Wrapf ''url scheme %q not allowed: %w'' [ArgStr (url_Scheme u)] (Sentinel ErrInvalidURL))
          else if url_Host u = [] then Inl (Wrapf ''url host is empty: %w'' [] (Sentinel ErrInvalidURL))
          else if url_User u \<noteq> None then Inl (Wrapf ''url contains credentials: %w'' [] (Sentinel ErrURLHasCredentials))
          else case checkSelfRef uc u baseURL of Inl e \<Rightarrow> Inl e | Inr _ \<Rightarrow>
               case checkPrivateIP (url_Host u) of Inl e \<Rightarrow> Inl e | Inr _ \<Rightarrow>
               case checkHomograph idna (hostname u) of Inl e \<Rightarrow> Inl e | Inr _ \<Rightarrow>
               if IsBlocked uc (hostname u)
               then Inl (Wrapf ''url domain %q is blocked: %w'' [ArgStr (hostname u)] (Sentinel ErrURLBlocked))
               else Inr ())"

section \<open>The private ranges\<close>

text \<open>No range makes \<open>init\<close> panic, and these are the networks it builds.\<close>

lemma init_cidrs_privateRanges:
  "init_cidrs privateRanges [] = Some
    [\<lparr>net_ip = [10, 0, 0, 0], net_mask = [255, 0, 0, 0]\<rparr>,
     \<lparr>net_ip = [172, 16, 0, 0], net_mask = [255, 240, 0, 0]\<rparr>,
     \<lparr>net_ip = [192, 168, 0, 0], net_mask = [255, 255, 0, 0]\<rparr>,
     \<lparr>net_ip = [127, 0, 0, 0], net_mask = [255, 0, 0, 0]\<rparr>,
     \<lparr>net_ip = [0, 0, 0, 0], net_mask = [255, 0, 0, 0]\<rparr>,
     \<lparr>net_ip = [169, 254, 0, 0], net_mask = [255, 255, 0, 0]\<rparr>,
     \<lparr>net_ip = [0, 0, 0, 0, 0, 0, 0, 0, 0, 0, 0, 0, 0, 0, 0, 1],
      net_mask = [255, 255, 255, 255, 255, 255, 255, 255, 255, 255, 255, 255, 255, 255, 255, 255]\<rparr>,
     \<lparr>net_ip = [253, 0, 0, 0, 0, 0, 0, 0, 0, 0, 0, 0, 0, 0, 0, 0],
      net_mask = [255, 0, 0, 0, 0, 0, 0, 0, 0, 0, 0, 0, 0, 0, 0, 0]\<rparr>,
     \<lparr>net_ip = [254, 128, 0, 0, 0, 0, 0, 0, 0, 0, 0, 0, 0, 0, 0, 0],
      net_mask = [255, 192, 0, 0, 0, 0, 0, 0, 0, 0, 0, 0, 0, 0, 0, 0]\<rparr>]"
  by code_simp

lemmas privateCIDRs_eq = privateCIDRs_def [unfolded init_cidrs_privateRanges option.case]

text \<open>The specification of the ranges, on the sixteen bytes of a parsed address.\<close>

definition private_v4 :: "ip \<Rightarrow> bool" where
  "private_v4 b \<longleftrightarrow> b ! 0 \<in> {0, 10, 127} \<or>
     (b ! 0 = 172 \<and> 16 \<le> b ! 1 \<and> b ! 1 < 32) \<or>
     (b ! 0 = 192 \<and> b ! 1 = 168) \<or> (b ! 0 = 169 \<and> b ! 1 = 254)"

definition private_v6 :: "ip \<Rightarrow> bool" where
  "private_v6 b \<longleftrightarrow> b = replicate 15 0 @ [1] \<or> b ! 0 = 253 \<or> (b ! 0 = 254 \<and> 128 \<le> b ! 1 \<and> b ! 1 < 192)"

definition private_ip :: "ip \<Rightarrow> bool" where
  "private_ip ip = (if take 12 ip = v4_in_v6_prefix then private_v4 (drop 12 ip) else private_v6 ip)"

lemma byte_exhaust:
  assumes "\<forall>n\<in>set [0..<256]. P (of_nat n :: u8)" shows "P x"
proof -
  have "unat x \<in> set [0..<256]" using u8_bound [of x] by simp
  with assms have "P (of_nat (unat x))" by blast
  then show ?thesis by simp
qed

lemma mask_240: "(x :: u8) AND 240 = 16 \<longleftrightarrow> 16 \<le> x \<and> x < 32"
  by (rule byte_exhaust [where P = "\<lambda>x. (x AND 240 = 16) = (16 \<le> x \<and> x < 32)"]) code_simp

lemma mask_192: "(x :: u8) AND 192 = 128 \<longleftrightarrow> 128 \<le> x \<and> x < 192"
  by (rule byte_exhaust [where P = "\<lambda>x. (x AND 192 = 128) = (128 \<le> x \<and> x < 192)"]) code_simp

lemma and_255 [simp]: "(x :: u8) AND 255 = x"
  by (rule byte_exhaust [where P = "\<lambda>x. x AND 255 = x"]) code_simp

text \<open>Containment by the lengths of network and address.\<close>

lemma contains_44:
  "length nn = 4 \<Longrightarrow> length m = 4 \<Longrightarrow> to4 ip = Some b \<Longrightarrow> length b = 4 \<Longrightarrow>
   net_contains \<lparr>net_ip = nn, net_mask = m\<rparr> ip \<longleftrightarrow> ip_and nn m = ip_and b m"
  by (simp add: net_contains_def network_number_and_mask_def to4_def [of nn])

lemma contains_46:
  "length nn = 4 \<Longrightarrow> length m = 4 \<Longrightarrow> to4 ip = None \<Longrightarrow> length ip = 16 \<Longrightarrow>
   \<not> net_contains \<lparr>net_ip = nn, net_mask = m\<rparr> ip"
  by (simp add: net_contains_def network_number_and_mask_def to4_def [of nn])

lemma contains_64:
  "length nn = 16 \<Longrightarrow> take 12 nn \<noteq> v4_in_v6_prefix \<Longrightarrow> length m = 16 \<Longrightarrow> to4 ip = Some b \<Longrightarrow>
   length b = 4 \<Longrightarrow> \<not> net_contains \<lparr>net_ip = nn, net_mask = m\<rparr> ip"
  by (simp add: net_contains_def network_number_and_mask_def to4_def [of nn])

lemma contains_66:
  "length nn = 16 \<Longrightarrow> take 12 nn \<noteq> v4_in_v6_prefix \<Longrightarrow> length m = 16 \<Longrightarrow> to4 ip = None \<Longrightarrow>
   length ip = 16 \<Longrightarrow> net_contains \<lparr>net_ip = nn, net_mask = m\<rparr> ip \<longleftrightarrow> ip_and nn m = ip_and ip m"
  by (simp add: net_contains_def network_number_and_mask_def to4_def [of nn])

lemmas contains_eval = contains_44 contains_46 contains_64 contains_66 v4_in_v6_prefix_def

lemma contains_private_v4:
  assumes "length b = 4" "to4 ip = Some b"
  shows "(\<exists>n\<in>set privateCIDRs. net_contains n ip) \<longleftrightarrow> private_v4 b"
proof -
  obtain w x y z where b: "b = [w, x, y, z]" using length4 [OF assms(1)] by blast
  have "(\<exists>n\<in>set privateCIDRs. net_contains n ip) \<longleftrightarrow>
    w = 10 \<or> (w = 172 \<and> x AND 240 = 16) \<or> (w = 192 \<and> x = 168) \<or> w = 127 \<or> w = 0 \<or> (w = 169 \<and> x = 254)"
    unfolding privateCIDRs_eq
    by (simp add: contains_eval assms(2) b ip_and_def eq_commute [of _ w] eq_commute [of _ x] eq_commute [of _ "x AND 240"])
  then show ?thesis by (auto simp: private_v4_def b mask_240)
qed

lemma contains_private_v6:
  assumes "length ip = 16" "to4 ip = None"
  shows "(\<exists>n\<in>set privateCIDRs. net_contains n ip) \<longleftrightarrow> private_v6 ip"
proof -
  obtain a0 a1 a2 a3 a4 a5 a6 a7 a8 a9 a10 a11 a12 a13 a14 a15 where
    ip: "ip = [a0, a1, a2, a3, a4, a5, a6, a7, a8, a9, a10, a11, a12, a13, a14, a15]"
    using length16 [OF assms(1)] by blast
  have "(\<exists>n\<in>set privateCIDRs. net_contains n ip) \<longleftrightarrow>
    ip = [0, 0, 0, 0, 0, 0, 0, 0, 0, 0, 0, 0, 0, 0, 0, 1] \<or> a0 = 253 \<or> (a0 = 254 \<and> a1 AND 192 = 128)"
    unfolding privateCIDRs_eq
    by (simp add: contains_eval assms(2) ip_and_def ip [symmetric] assms(1))
      (simp add: ip eq_commute [of _ a0] eq_commute [of _ "a1 AND 192"])
  then show ?thesis by (auto simp: private_v6_def ip mask_192 numeral_eq_Suc)
qed

text \<open>The check by networks is the check by ranges.\<close>

lemma contains_private:
  assumes "length ip = 16"
  shows "(\<exists>n\<in>set privateCIDRs. net_contains n ip) \<longleftrightarrow> private_ip ip"
  using assms contains_private_v4 [of "drop 12 ip" ip] contains_private_v6 [of ip]
  by (simp add: private_ip_def to4_16)

end
