(* ===== verification/URLChecks.thy ===== *)
theory URLChecks
  imports Validator CanonicalURL
begin

text \<open>
  What \<open>ValidateURL\<close> accepts and why it rejects, stated on the parts of the URL rather than on
  the order of the checks, and followed through the text for URLs that name an IPv4 address.
\<close>

section \<open>Acceptance\<close>

text \<open>The specification: what a caller may rely on for a URL that was accepted.\<close>

definition self_ref :: "unicode_tables \<Rightarrow> parsed_url \<Rightarrow> string \<Rightarrow> bool" where
  "self_ref uc u baseURL \<longleftrightarrow> baseURL \<noteq> [] \<and>
     (\<exists>b. parse_url baseURL = Some b \<and> equal_fold uc (hostname u) (hostname b))"

definition names_private_ip :: "parsed_url \<Rightarrow> bool" where
  "names_private_ip u \<longleftrightarrow> (\<exists>ip. ParseIP (private_host (url_Host u)) = Some ip \<and> private_ip ip)"

definition suspicious :: "(string \<Rightarrow> string option) \<Rightarrow> parsed_url \<Rightarrow> bool" where
  "suspicious idna u \<longleftrightarrow> hostname u \<noteq> [] \<and> (\<exists>a. idna (hostname u) = Some a \<and> a \<noteq> hostname u)"

definition acceptable ::
  "unicode_tables \<Rightarrow> (string \<Rightarrow> string option) \<Rightarrow> string \<Rightarrow> parsed_url \<Rightarrow> bool" where
  "acceptable uc idna baseURL u \<longleftrightarrow>
     url_Scheme u \<in> {''http'', ''https''} \<and> url_Host u \<noteq> [] \<and> url_User u = None \<and>
     \<not> self_ref uc u baseURL \<and> \<not> names_private_ip u \<and> \<not> suspicious idna u \<and>
     \<not> IsBlocked uc (hostname u)"

lemma checkSelfRef_ok: "checkSelfRef uc u baseURL = Inr () \<longleftrightarrow> \<not> self_ref uc u baseURL"
  by (auto simp: checkSelfRef_def self_ref_def split: option.splits)

lemma checkPrivateIP_ok:
  "checkPrivateIP (url_Host u) = Inr () \<longleftrightarrow> \<not> names_private_ip u"
  using contains_private ParseIP_length
  by (fastforce simp: checkPrivateIP_def names_private_ip_def split: option.splits)

lemma checkHomograph_ok: "checkHomograph idna (hostname u) = Inr () \<longleftrightarrow> \<not> suspicious idna u"
  by (auto simp: checkHomograph_def suspicious_def split: option.splits)

lemma ok_case: "(case r of Inl e \<Rightarrow> Inl e | Inr _ \<Rightarrow> k) = Inr () \<longleftrightarrow> r = Inr () \<and> k = (Inr () :: goerr + unit)"
  by (auto split: sum.splits)

lemma ValidateURL_ok:
  "ValidateURL uc idna raw baseURL = Inr () \<longleftrightarrow>
     trim_space raw \<noteq> [] \<and> length (trim_space raw) \<le> 2048 \<and>
     (\<exists>u. parse_url (trim_space raw) = Some u \<and> acceptable uc idna baseURL u)"
  unfolding ValidateURL_def Let_def
  by (auto simp: ok_case acceptable_def checkSelfRef_ok checkPrivateIP_ok checkHomograph_ok
      split: option.splits if_splits)

section \<open>Rejection\<close>

lemma checkSelfRef_err:
  "checkSelfRef uc u baseURL = (if self_ref uc u baseURL
     then Inl (Wrapf ''url references snip itself: %w'' [] (Sentinel ErrURLSelfRef)) else Inr ())"
  by (auto simp: checkSelfRef_def self_ref_def split: option.splits)

lemma checkPrivateIP_err:
  "names_private_ip u \<Longrightarrow> \<exists>e. checkPrivateIP (url_Host u) = Inl e \<and> err_is e ErrURLPrivateIP"
  using contains_private ParseIP_length
  by (fastforce simp: checkPrivateIP_def names_private_ip_def split: option.splits)

lemma ValidateURL_private:
  assumes "trim_space raw = raw" "raw \<noteq> []" "length raw \<le> 2048" "parse_url raw = Some u"
    and "url_Scheme u \<in> {''http'', ''https''}" "url_Host u \<noteq> []" "url_User u = None"
    and "names_private_ip u"
  shows "\<exists>e. ValidateURL uc idna raw baseURL = Inl e \<and> (err_is e ErrURLPrivateIP \<or> err_is e ErrURLSelfRef)"
  using assms checkPrivateIP_err [OF assms(8)]
  by (auto simp: ValidateURL_def Let_def checkSelfRef_err)

section \<open>URLs that name an IPv4 address\<close>

lemma rune_is_space_ascii: "r < 128 \<Longrightarrow> rune_is_space r \<longleftrightarrow> r \<in> {9, 10, 11, 12, 13, 32}"
  by (auto simp: rune_is_space_def)

lemma trim_space_ascii:
  assumes "is_ascii s" "s \<noteq> [] \<Longrightarrow> \<not> rune_is_space (byte (hd s))" "s \<noteq> [] \<Longrightarrow> \<not> rune_is_space (byte (last s))"
  shows "trim_space s = s"
proof (cases "s = []")
  case False
  let ?sp = "\<lambda>(r :: nat, _ :: string). rune_is_space r"
  let ?f = "\<lambda>c. (byte c :: nat, [c])"
  have "dropWhile ?sp (map ?f s) = map ?f s"
    using False assms(2) by (cases s) auto
  moreover have "dropWhile ?sp (rev (map ?f s)) = rev (map ?f s)"
    using False assms(3) by (cases s rule: rev_cases) auto
  ultimately show ?thesis
    using assms(1) by (simp add: trim_space_def Let_def runes_ascii comp_def rev_map)
qed (simp add: trim_space_def)

lemma split_host_port_plain:
  assumes "plain_host h" "port_text p"
  shows "(case split_host_port (h @ p) of Some (h', _) \<Rightarrow> h' | None \<Rightarrow> h @ p) = h"
proof (cases "p = []")
  case True
  then show ?thesis using no_colon_host [OF assms(1)]
    by (simp add: split_host_port_def last_index_byte_None [THEN iffD2])
next
  case False
  have sp: "CHR ''['' \<notin> set (h @ p)" "CHR '']'' \<notin> set (h @ p)"
    using authority_facts [OF assms] by force+
  have h: "h \<noteq> []" "hd h \<noteq> CHR ''[''" using assms(1) sp by (auto simp: plain_host_def neq_Nil_conv)
  then have "(h @ p) ! 0 \<noteq> CHR ''[''" by (cases h) auto
  with sp h False last_colon_port [OF assms False] no_colon_host [OF assms(1)] show ?thesis
    by (auto simp: split_host_port_def Let_def)
qed

lemma ipv4_string_plain_host: assumes "length b = 4" shows "plain_host (ipv4_string b)"
proof -
  obtain w x y z where "b = [w, x, y, z]" using length4 [OF assms] by blast
  then have "ipv4_string b \<noteq> []" by (simp add: ipv4_string_def)
  moreover have "host_char (CHR ''.'')" by (simp add: host_char_def)
  ultimately show ?thesis
    using ipv4_string_chars [of _ b] digit_facts by (auto simp: plain_host_def)
qed

lemma has_prefix_one: "has_prefix s [c] \<longleftrightarrow> s \<noteq> [] \<and> hd s = c"
  by (cases s) (auto simp: has_prefix_def)

lemma has_suffix_one: "has_suffix s [c] \<longleftrightarrow> s \<noteq> [] \<and> last s = c"
  by (cases s rule: rev_cases) (auto simp: has_suffix_def)

lemma private_host_ipv4:
  assumes "length b = 4" "port_text p" shows "private_host (ipv4_string b @ p) = ipv4_string b"
proof -
  let ?h = "ipv4_string b"
  have h: "plain_host ?h" by (rule ipv4_string_plain_host [OF assms(1)])
  have "CHR ''['' \<notin> set ?h" "CHR '']'' \<notin> set ?h"
    using authority_facts [OF h assms(2)] by force+
  then have "\<not> has_prefix ?h ''[''" "\<not> has_suffix ?h '']''"
    using hd_in_set [of ?h] last_in_set [of ?h] unfolding has_prefix_one has_suffix_one by metis+
  then show ?thesis
    using split_host_port_plain [OF h assms(2)] by (simp add: private_host_def trim_prefix_def trim_suffix_def)
qed

lemma reserved_ascii: "is_reserved c \<Longrightarrow> byte c < 128"
  by (auto simp: is_reserved_def)

lemma plain_path_ascii:
  assumes "plain_path path" "c \<in> set path"
  shows "byte c < 128 \<and> \<not> rune_is_space (byte c)"
proof -
  have "\<not> should_escape c EncodePath" using assms by (auto simp: plain_path_def)
  then have a: "byte c < 128" using alnum_facts mark_facts reserved_ascii unfolding should_escape_path by blast
  have "byte c \<noteq> 32"
  proof
    assume "byte c = 32"
    then have "byte c = byte (CHR '' '')" by simp
    then have "c = CHR '' ''" by (simp only: of_char_eq_iff)
    then show False using plain_path_chars [OF assms] by simp
  qed
  then show ?thesis using a plain_path_chars [OF assms] by (auto simp: rune_is_space_ascii is_ctl_def)
qed

lemma host_char_ascii: "host_char c \<Longrightarrow> byte c < 128 \<and> \<not> rune_is_space (byte c)"
  using host_char_facts [of c] by (auto simp: rune_is_space_ascii host_char_def char_class_defs)

lemma trim_ordinary:
  assumes "ordinary sch h p path []"
  shows "trim_space (sch @ ''://'' @ h @ p @ path) = sch @ ''://'' @ h @ p @ path"
proof -
  let ?s = "sch @ ''://'' @ h @ p @ path"
  have parts: "http_scheme sch" "plain_host h" "port_text p" "plain_path path"
    using assms by (simp_all add: ordinary_def)
  have "host_char c" if "c \<in> set sch" for c
    using http_scheme_letters [OF parts(1)] that by (auto simp: host_char_def is_alnum_def)
  moreover have "host_char c \<or> c = CHR '':''" if "c \<in> set (h @ p)" for c
    by (rule authority_chars [OF parts(2,3) that])
  moreover have "byte c < 128 \<and> \<not> rune_is_space (byte c)" if "c = CHR '':'' \<or> c = CHR ''/''" for c
    using that by (auto simp: rune_is_space_def)
  ultimately have all: "byte c < 128 \<and> \<not> rune_is_space (byte c)" if "c \<in> set ?s" for c
    using that host_char_ascii plain_path_ascii [OF parts(4)] by (auto simp del: of_char_Char)
  show ?thesis
  proof (rule trim_space_ascii)
    show "is_ascii ?s" unfolding is_ascii_def using all by blast
    show "\<not> rune_is_space (byte (hd ?s))" "\<not> rune_is_space (byte (last ?s))"
      using all hd_in_set [of ?s] last_in_set [of ?s] by blast+
  qed
qed

lemma ordinary_names_private_ip:
  assumes "http_scheme sch" "length b = 4" "private_v4 b" "port_text p" "plain_path path"
  shows "\<exists>u. parse_url (sch @ ''://'' @ ipv4_string b @ p @ path) = Some u \<and>
    url_Scheme u \<in> {''http'', ''https''} \<and> url_Host u \<noteq> [] \<and> url_User u = None \<and> names_private_ip u"
proof -
  have "ordinary sch (ipv4_string b) p path []"
    using assms ipv4_string_plain_host by (simp add: ordinary_def query_text_def)
  moreover have "fragment_text []" by (simp add: fragment_text_def)
  ultimately obtain query force fr rf where
    "parse_url (sch @ ''://'' @ ipv4_string b @ p @ path @ [] @ []) = Some (empty_url\<lparr>url_Scheme := map ascii_lower sch,
      url_RawQuery := query, url_ForceQuery := force, url_Host := ipv4_string b @ p, url_Path := path,
      url_Fragment := fr, url_RawFragment := rf\<rparr>)"
    using parse_url_ordinary by blast
  moreover have "ParseIP (private_host (ipv4_string b @ p)) = Some (v4_in_v6_prefix @ b)"
    by (simp only: private_host_ipv4 [OF assms(2,4)] ParseIP_ipv4_string [OF assms(2)])
  moreover have "private_ip (v4_in_v6_prefix @ b)" using assms(3) by (simp add: private_ip_def)
  moreover have "ipv4_string b \<noteq> []" using ipv4_string_plain_host [OF assms(2)] by (simp add: plain_host_def)
  ultimately show ?thesis
    using assms(1) by (simp add: names_private_ip_def empty_url_def http_scheme_def)
qed

section \<open>Properties\<close>

text \<open>C30: \<open>ValidateURL\<close> accepts exactly the URLs that, trimmed, are non-empty, at most 2048
  bytes, parse, have scheme http or https, a host, no credentials, a host that is not the
  service's own, is no literal of a private address, is in its ASCII form, and is not on the
  list of blocked domains.\<close>

theorem ValidateURL_accepts:
  "ValidateURL uc idna raw baseURL = Inr () \<longleftrightarrow>
     trim_space raw \<noteq> [] \<and> length (trim_space raw) \<le> 2048 \<and>
     (\<exists>u. parse_url (trim_space raw) = Some u \<and> acceptable uc idna baseURL u)"
  by (rule ValidateURL_ok)



section \<open>Where the checks stop\<close>

text \<open>Hosts the private-address check lets through: a zoned link-local literal, the unspecified
  IPv6 address, a unique local address of fc00::/8, and the loopback's name.\<close>

lemma ValidateURL_gaps:
  "ValidateURL ascii_tables Some ''http://[fe80::1%25eth0]/'' ''http://snip.io'' = Inr ()"
  "ValidateURL ascii_tables Some ''http://[::]/'' ''http://snip.io'' = Inr ()"
  "ValidateURL ascii_tables Some ''http://[fc00::1]/'' ''http://snip.io'' = Inr ()"
  "ValidateURL ascii_tables Some ''http://localhost/'' ''http://snip.io'' = Inr ()"
  by code_simp+

end
