(* ===== verification/GoErrors.thy ===== *)
theory GoErrors
  imports Domain GoNetText
begin

text \<open>
  \<open>err.Error()\<close>: the text of an error chain, with the verbs of \<open>fmt.Errorf\<close> the program uses
  and \<open>strconv.Quote\<close>, whose table of printable runes past ASCII is a parameter.
\<close>

section \<open>\<open>strconv.Quote\<close>\<close>

definition hex2 :: "nat \<Rightarrow> string" where
  "hex2 n = map hex_digit [n div 16 mod 16, n mod 16]"

definition hex_pad4 :: "nat \<Rightarrow> string" where
  "hex_pad4 n = hex2 (n div 256) @ hex2 n"

definition rune_printable :: "unicode_tables \<Rightarrow> nat \<Rightarrow> bool" where
  "rune_printable uc r \<longleftrightarrow> (if r < 128 then 32 \<le> r \<and> r < 127 else uc_print uc r)"

definition quote_rune :: "unicode_tables \<Rightarrow> nat \<times> string \<Rightarrow> string" where
  "quote_rune uc rb = (case rb of (r, bs) \<Rightarrow>
     let esc = (\<lambda>t. CHR 0x5C # t) in
     if r = rune_error \<and> length bs = 1 then esc (CHR ''x'' # hex2 (byte (hd bs)))
     else if r = 0x22 \<or> r = 0x5C then esc bs
     else if rune_printable uc r then bs
     else if r = 7 then esc ''a'' else if r = 8 then esc ''b'' else if r = 12 then esc ''f''
     else if r = 10 then esc ''n'' else if r = 13 then esc ''r'' else if r = 9 then esc ''t''
     else if r = 11 then esc ''v''
     else if r < 32 \<or> r = 127 then esc (CHR ''x'' # hex2 r)
     else if r < 65536 then esc (CHR ''u'' # hex_pad4 r)
     else esc (CHR ''U'' # hex_pad4 (r div 65536) @ hex_pad4 (r mod 65536)))"

definition strconv_Quote :: "unicode_tables \<Rightarrow> string \<Rightarrow> string" where
  "strconv_Quote uc s = CHR 0x22 # concat (map (quote_rune uc) (runes s)) @ [CHR 0x22]"

section \<open>\<open>fmt.Errorf\<close>\<close>

text \<open>One verb with its argument; the program's formats have no other combination.\<close>

fun verb_text :: "unicode_tables \<Rightarrow> char \<Rightarrow> fmt_arg \<Rightarrow> string" where
  "verb_text uc v (ArgStr s) = (if v = CHR ''q'' then strconv_Quote uc s else s)"
| "verb_text uc v (ArgInt n) = format_int n"

fun fmt_text :: "unicode_tables \<Rightarrow> string \<Rightarrow> fmt_arg list \<Rightarrow> string \<Rightarrow> string" where
  "fmt_text uc [] args wrapped = []"
| "fmt_text uc [c] args wrapped = [c]"
| "fmt_text uc (c # v # f) args wrapped =
     (if c \<noteq> CHR ''%'' then c # fmt_text uc (v # f) args wrapped
      else if v = CHR ''w'' then wrapped @ fmt_text uc f args wrapped
      else case args of [] \<Rightarrow> [] | a # as \<Rightarrow> verb_text uc v a @ fmt_text uc f as wrapped)"

fun sentinel_text :: "sentinel \<Rightarrow> string" where
  "sentinel_text ErrURLNotFound = ''url not found''"
| "sentinel_text ErrURLExpired = ''url expired''"
| "sentinel_text ErrHashConflict = ''hash conflict''"
| "sentinel_text ErrInvalidURL = ''invalid url''"
| "sentinel_text ErrRateLimitExceed = ''rate limit exceeded''"
| "sentinel_text ErrBodyTooLarge = ''request body too large''"
| "sentinel_text ErrMediaType = ''unsupported media type''"
| "sentinel_text ErrUnknownFields = ''unknown fields in request body''"
| "sentinel_text ErrURLSelfRef = ''url cannot reference snip itself''"
| "sentinel_text ErrURLPrivateIP = ''url cannot point to private ip address''"
| "sentinel_text ErrURLBlocked = ''url domain is blocked''"
| "sentinel_text ErrURLHasCredentials = ''url cannot contain userinfo credentials''"
| "sentinel_text ErrURLHomograph = ''url contains suspicious unicode characters''"
| "sentinel_text ErrDuplicateReport = ''url already reported by this ip''"
| "sentinel_text ErrInvalidReason = ''invalid report reason''"
| "sentinel_text ErrURLMalicious = ''url flagged as malicious''"

fun err_text :: "unicode_tables \<Rightarrow> goerr \<Rightarrow> string" where
  "err_text uc (Sentinel s) = sentinel_text s"
| "err_text uc (Wrapf f args e) = fmt_text uc f args (err_text uc e)"
| "err_text uc (Plain t) = t"

end
