(* ===== verification/UTF8.thy ===== *)
theory UTF8
  imports GoStrings
begin

text \<open>
  UTF-8 forth and back: a valid sequence is exactly what its code point is encoded as.
\<close>

text \<open>\<open>utf8.ValidString\<close>: no byte reads as an error of width one.\<close>

definition utf8_valid :: "string \<Rightarrow> bool" where
  "utf8_valid s \<longleftrightarrow> (\<forall>(r, bs)\<in>set (runes s). \<not> (r = rune_error \<and> length bs = 1))"

lemma utf8_valid_Nil [simp]: "utf8_valid []"
  by (simp add: utf8_valid_def)

lemma utf8_valid_ascii: "is_ascii s \<Longrightarrow> utf8_valid s"
  by (auto simp: utf8_valid_def runes_ascii is_ascii_def rune_error_def)

section \<open>Base-64 digits of a code point\<close>

lemma cont_val: "cont_byte b \<Longrightarrow> \<exists>k<64. b = 128 + k"
  by (rule exI [of _ "b - 128"]) (auto simp: cont_byte_def)

lemma lead_val: "a \<le> b \<Longrightarrow> b < a + n \<Longrightarrow> \<exists>j<n. b = a + (j :: nat)"
  by (rule exI [of _ "b - a"]) auto

lemma digits64: "k < 64 \<Longrightarrow> (j * 64 + k) div 64 = (j :: nat)" "k < 64 \<Longrightarrow> (j * 64 + k) mod 64 = k"
  by simp_all

lemma digits64_3:
  assumes "k < 64" "l < 64"
  shows "(j * 4096 + k * 64 + l) div 4096 = (j :: nat)" "(j * 4096 + k * 64 + l) div 64 mod 64 = k"
    "(j * 4096 + k * 64 + l) mod 64 = l"
proof -
  have e: "j * 4096 + k * 64 + l = (j * 64 + k) * 64 + l" by simp
  have d: "(j * 4096 + k * 64 + l) div 64 = j * 64 + k" unfolding e by (rule digits64 [OF assms(2)])
  have "(j * 4096 + k * 64 + l) div 4096 = (j * 4096 + k * 64 + l) div 64 div 64" by (simp flip: div_mult2_eq)
  then show "(j * 4096 + k * 64 + l) div 4096 = j" unfolding d using digits64 [OF assms(1)] by simp
  show "(j * 4096 + k * 64 + l) div 64 mod 64 = k" unfolding d by (rule digits64 [OF assms(1)])
  show "(j * 4096 + k * 64 + l) mod 64 = l" unfolding e by (rule digits64 [OF assms(2)])
qed

lemma digits64_4:
  assumes "k < 64" "l < 64" "m < 64"
  shows "(j * 262144 + k * 4096 + l * 64 + m) div 262144 = (j :: nat)"
    "(j * 262144 + k * 4096 + l * 64 + m) div 4096 mod 64 = k"
    "(j * 262144 + k * 4096 + l * 64 + m) div 64 mod 64 = l"
    "(j * 262144 + k * 4096 + l * 64 + m) mod 64 = m"
proof -
  let ?r = "j * 262144 + k * 4096 + l * 64 + m"
  have e: "?r = (j * 4096 + k * 64 + l) * 64 + m" by simp
  have d: "?r div 64 = j * 4096 + k * 64 + l" unfolding e by (rule digits64 [OF assms(3)])
  have "?r div 262144 = ?r div 64 div 4096" "?r div 4096 = ?r div 64 div 64" by (simp_all flip: div_mult2_eq)
  then show "?r div 262144 = j" "?r div 4096 mod 64 = k"
    unfolding d using digits64_3 [OF assms(1,2), of j] by simp_all
  show "?r div 64 mod 64 = l" unfolding d by (rule digits64_3 [OF assms(1,2)])
  show "?r mod 64 = m" unfolding e by (rule digits64 [OF assms(3)])
qed

section \<open>Decoding what was encoded\<close>

lemma decode2_valid:
  assumes "decode2 b0 bs = (r, w)" "\<not> (r = rune_error \<and> w = 1)" "194 \<le> b0" "b0 < 224"
  shows "w = 2 \<and> encode_rune r = map char_of (take 2 (b0 # bs)) \<and> decode2 b0 (take 1 bs @ x) = (r, w)
    \<and> 1 \<le> length bs"
proof -
  obtain b1 bs' where bs: "bs = b1 # bs'" "cont_byte b1"
    using assms by (auto simp: decode2_def split: list.splits if_splits)
  obtain k where k: "k < 64" "b1 = 128 + k" using cont_val [OF bs(2)] by blast
  obtain j where j: "j < 30" "b0 = 194 + j" using lead_val [of 194 b0 30] assms(3,4) by auto
  have r: "r = (2 + j) * 64 + k" "w = 2" using assms(1) bs k j by (simp_all add: decode2_def)
  have "r < 2048" "\<not> r < 128" "\<not> 0x10FFFF < r" using r j k by simp_all
  then have "encode_rune r = map char_of [192 + r div 64, 128 + r mod 64]" by (simp add: encode_rune_def)
  moreover have "r div 64 = 2 + j" "r mod 64 = k" unfolding r by (rule digits64 [OF k(1)])+
  ultimately show ?thesis using assms(1) bs r j k by (simp add: decode2_def)
qed

lemma decode3_valid:
  assumes "decode3 b0 bs = (r, w)" "\<not> (r = rune_error \<and> w = 1)" "224 \<le> b0" "b0 < 240"
  shows "w = 3 \<and> encode_rune r = map char_of (take 3 (b0 # bs)) \<and> decode3 b0 (take 2 bs @ x) = (r, w)
    \<and> 2 \<le> length bs"
proof -
  obtain b1 b2 bs' where bs: "bs = b1 # b2 # bs'" "cont_byte b2"
    "(if b0 = 224 then 160 else 128) \<le> b1" "b1 < (if b0 = 237 then 160 else 192)"
    using assms by (auto simp: decode3_def split: list.splits if_splits)
  have "cont_byte b1" using bs(3,4) by (auto simp: cont_byte_def split: if_splits)
  then obtain k where k: "k < 64" "b1 = 128 + k" using cont_val by blast
  obtain l where l: "l < 64" "b2 = 128 + l" using cont_val [OF bs(2)] by blast
  obtain j where j: "j < 16" "b0 = 224 + j" using lead_val [of 224 b0 16] assms(3,4) by auto
  have r: "r = j * 4096 + k * 64 + l" "w = 3" using assms(1) bs k j l by (simp_all add: decode3_def)
  have "2048 \<le> r" using r(1) bs(3) j k by (cases "j = 0") auto
  moreover have "r < 65536" using r(1) j k l by simp
  moreover have "\<not> (0xD800 \<le> r \<and> r \<le> 0xDFFF)"
  proof
    assume a: "0xD800 \<le> r \<and> r \<le> 0xDFFF"
    then have "55296 div 4096 \<le> r div 4096" "r div 4096 \<le> 57343 div 4096" by (auto intro: div_le_mono)
    then have "r div 4096 = 13" by simp
    then have "j = 13" using digits64_3(1) [OF k(1) l(1), of j] unfolding r by simp
    with a bs(4) j k l r(1) show False by simp
  qed
  ultimately have "encode_rune r = map char_of [224 + r div 4096, 128 + r div 64 mod 64, 128 + r mod 64]"
    by (auto simp: encode_rune_def Let_def)
  moreover have "r div 4096 = j" "r div 64 mod 64 = k" "r mod 64 = l" unfolding r by (rule digits64_3 [OF k(1) l(1)])+
  ultimately show ?thesis using assms(1) bs r j k l by (simp add: decode3_def)
qed

lemma decode4_valid:
  assumes "decode4 b0 bs = (r, w)" "\<not> (r = rune_error \<and> w = 1)" "240 \<le> b0" "b0 < 245"
  shows "w = 4 \<and> encode_rune r = map char_of (take 4 (b0 # bs)) \<and> decode4 b0 (take 3 bs @ x) = (r, w)
    \<and> 3 \<le> length bs"
proof -
  obtain b1 b2 b3 bs' where bs: "bs = b1 # b2 # b3 # bs'" "cont_byte b2" "cont_byte b3"
    "(if b0 = 240 then 144 else 128) \<le> b1" "b1 < (if b0 = 244 then 144 else 192)"
    using assms by (auto simp: decode4_def split: list.splits if_splits)
  have "cont_byte b1" using bs(4,5) by (auto simp: cont_byte_def split: if_splits)
  then obtain k where k: "k < 64" "b1 = 128 + k" using cont_val by blast
  obtain l where l: "l < 64" "b2 = 128 + l" using cont_val [OF bs(2)] by blast
  obtain m where m: "m < 64" "b3 = 128 + m" using cont_val [OF bs(3)] by blast
  obtain j where j: "j < 5" "b0 = 240 + j" using lead_val [of 240 b0 5] assms(3,4) by auto
  have r: "r = j * 262144 + k * 4096 + l * 64 + m" "w = 4"
    using assms(1) bs k j l m by (simp_all add: decode4_def)
  have "65536 \<le> r" using r(1) bs(4) j k by (cases "j = 0") auto
  moreover have "r \<le> 0x10FFFF"
  proof (cases "j = 4")
    case True
    then have "k < 16" using bs(5) j k by simp
    with True r(1) l m show ?thesis by simp
  next
    case False
    then have "j \<le> 3" using j by simp
    with r(1) k l m show ?thesis by simp
  qed
  ultimately have "encode_rune r = map char_of [240 + r div 262144, 128 + r div 4096 mod 64, 128 + r div 64 mod 64, 128 + r mod 64]"
    by (simp add: encode_rune_def)
  moreover have "r div 262144 = j" "r div 4096 mod 64 = k" "r div 64 mod 64 = l" "r mod 64 = m"
    unfolding r by (rule digits64_4 [OF k(1) l(1) m(1)])+
  ultimately show ?thesis using assms(1) bs r j k l m by (simp add: decode4_def)
qed

text \<open>A valid sequence reads the same whatever follows.\<close>

lemma decode_rune_valid:
  assumes "decode_rune s = (r, w)" "s \<noteq> []" "\<not> (r = rune_error \<and> w = 1)"
  shows "encode_rune r = take w s \<and> decode_rune (take w s @ x) = (r, w)"
proof -
  obtain c t where s: "s = c # t" using assms(2) by (cases s) auto
  let ?b = "byte c" and ?bs = "map byte t :: nat list"
  have chars: "map char_of (take n (?b # ?bs)) = take n s" for n
    by (simp add: s take_map take_Cons' comp_def)
  have app: "take (n - 1) ?bs @ map byte x = map byte (take (n - 1) t @ x)" for n by (simp add: take_map)
  consider "?b < 128" | "194 \<le> ?b" "?b < 224" | "224 \<le> ?b" "?b < 240" | "240 \<le> ?b" "?b < 245"
    | "?b \<ge> 128" "?b < 194 \<or> 245 \<le> ?b" by linarith
  then show ?thesis
  proof cases
    case 1
    then show ?thesis using assms(1) s by (auto simp: encode_rune_ascii)
  next
    case 2
    then have "decode2 ?b ?bs = (r, w)" using assms(1) s by (simp add: decode_rune_def)
    from decode2_valid [OF this assms(3) 2, of "map byte x"] 2 chars [of 2] show ?thesis
      by (simp add: s decode_rune_def take_map)
  next
    case 3
    then have "decode3 ?b ?bs = (r, w)" using assms(1) s by (simp add: decode_rune_def)
    from decode3_valid [OF this assms(3) 3, of "map byte x"] 3 chars [of 3] show ?thesis
      by (simp add: s decode_rune_def take_map)
  next
    case 4
    then have "decode4 ?b ?bs = (r, w)" using assms(1) s by (simp add: decode_rune_def)
    from decode4_valid [OF this assms(3) 4, of "map byte x"] 4 chars [of 4] show ?thesis
      by (simp add: s decode_rune_def take_map)
  next
    case 5
    then have "(r, w) = (rune_error, 1)" using assms(1) s by (auto simp: decode_rune_def)
    with assms(3) show ?thesis by simp
  qed
qed

lemma decode_rune_width: "s \<noteq> [] \<Longrightarrow> decode_rune s = (r, w) \<Longrightarrow> w \<le> length s"
  by (cases s) (auto simp: decode_rune_def decode2_def decode3_def decode4_def split: if_splits list.splits)

text \<open>Induction over the runes of a valid string.\<close>

lemma utf8_valid_induct [consumes 1, case_names Nil rune]:
  assumes "utf8_valid s" and "P []"
    and step: "\<And>s r w. s \<noteq> [] \<Longrightarrow> decode_rune s = (r, w) \<Longrightarrow> \<not> (r = rune_error \<and> w = 1) \<Longrightarrow> 0 < w \<Longrightarrow>
      w \<le> length s \<Longrightarrow> utf8_valid (drop w s) \<Longrightarrow> P (drop w s) \<Longrightarrow> P s"
  shows "P s"
  using assms(1)
proof (induction s rule: length_induct)
  case (1 s)
  show ?case
  proof (cases "s = []")
    case False
    obtain r w where d: "decode_rune s = (r, w)" by (cases "decode_rune s")
    have w: "0 < w" "w \<le> length s"
      using decode_rune_width_pos [OF False] decode_rune_width [OF False d] d by simp_all
    have "runes s = (r, take w s) # runes (drop w s)" using False d by (subst runes.simps) simp
    with 1(2) w have v: "utf8_valid (drop w s)" "\<not> (r = rune_error \<and> w = 1)" by (auto simp: utf8_valid_def)
    show ?thesis
      by (rule step [OF False d v(2) w v(1)]) (use 1(1) v(1) w in auto)
  qed (simp add: assms(2))
qed

lemma runes_step: "s \<noteq> [] \<Longrightarrow> decode_rune s = (r, w) \<Longrightarrow> runes s = (r, take w s) # runes (drop w s)"
  by (subst runes.simps) simp

end
