(* ===== verification/GoJSON.thy ===== *)
theory GoJSON
  imports UTF8 GoNetText
begin

text \<open>
  The part of \<open>encoding/json\<close> the program uses: marshalling of strings, integers and structs
  with Go's escapes, the grammar, and unmarshalling of a struct's members by exact or folded
  name. A document is bytes in and out, and every error is \<open>None\<close>. The limit of 10000 on the
  nesting depth is not modelled.
\<close>

datatype json =
    JNull
  | JBool bool
  | JNum string
  | JStr string
  | JArr "json list"
  | JObj "(string \<times> json) list"

section \<open>Marshalling\<close>

abbreviation quote :: char where "quote \<equiv> CHR 0x22"
abbreviation backslash :: char where "backslash \<equiv> CHR 0x5C"

definition hex_char :: "nat \<Rightarrow> char" where
  "hex_char d = char_of (if d < 10 then 48 + d else 87 + d)"

definition hex4 :: "nat \<Rightarrow> string" where
  "hex4 r = map hex_char [r div 4096 mod 16, r div 256 mod 16, r div 16 mod 16, r mod 16]"

definition u_escape :: "nat \<Rightarrow> string" where
  "u_escape r = backslash # CHR ''u'' # hex4 r"

text \<open>ASCII that a string literal holds as it is: not a control, quote, backslash or HTML character.\<close>

definition html_safe :: "nat \<Rightarrow> bool" where
  "html_safe r \<longleftrightarrow> 32 \<le> r \<and> r \<noteq> 0x22 \<and> r \<noteq> 0x5C \<and> r \<noteq> 0x3C \<and> r \<noteq> 0x3E \<and> r \<noteq> 0x26"

definition json_escape1 :: "nat \<times> string \<Rightarrow> string" where
  "json_escape1 rb = (case rb of (r, bs) \<Rightarrow>
     if r < 128 then
       (if html_safe r then bs
        else if r = 0x22 \<or> r = 0x5C then backslash # bs
        else if r = 8 then [backslash, CHR ''b''] else if r = 12 then [backslash, CHR ''f'']
        else if r = 10 then [backslash, CHR ''n''] else if r = 13 then [backslash, CHR ''r'']
        else if r = 9 then [backslash, CHR ''t'']
        else u_escape r)
     else if r = rune_error \<and> length bs = 1 then u_escape rune_error
     else if r = 0x2028 \<or> r = 0x2029 then u_escape r
     else bs)"

definition json_escape :: "string \<Rightarrow> string" where
  "json_escape s = concat (map json_escape1 (runes s))"

definition json_string :: "string \<Rightarrow> string" where
  "json_string s = quote # json_escape s @ [quote]"

fun json_text :: "json \<Rightarrow> string" and json_elems :: "json list \<Rightarrow> string"
  and json_members :: "(string \<times> json) list \<Rightarrow> string" where
  "json_text JNull = ''null''"
| "json_text (JBool b) = (if b then ''true'' else ''false'')"
| "json_text (JNum n) = n"
| "json_text (JStr s) = json_string s"
| "json_text (JArr js) = CHR ''['' # json_elems js"
| "json_text (JObj ms) = CHR ''{'' # json_members ms"
| "json_elems [] = '']''"
| "json_elems (j # js) = json_text j @ (if js = [] then '']'' else CHR '','' # json_elems js)"
| "json_members [] = ''}''"
| "json_members ((k, j) # ms) = json_string k @ CHR '':'' # json_text j @ (if ms = [] then ''}'' else CHR '','' # json_members ms)"

section \<open>Parsing\<close>

definition json_space :: "char \<Rightarrow> bool" where
  "json_space c \<longleftrightarrow> byte c \<in> {32, 9, 13, 10}"

definition skip_ws :: "string \<Rightarrow> string" where
  "skip_ws s = dropWhile json_space s"

definition hexval :: "char \<Rightarrow> nat option" where
  "hexval c = (if is_digit c then Some (byte c - 48)
     else if 97 \<le> byte c \<and> byte c \<le> 102 then Some (byte c - 87)
     else if 65 \<le> byte c \<and> byte c \<le> 70 then Some (byte c - 55) else None)"

fun hex4_val :: "string \<Rightarrow> (nat \<times> string) option" where
  "hex4_val (a # b # c # d # s) =
     (case (hexval a, hexval b, hexval c, hexval d) of
        (Some w, Some x, Some y, Some z) \<Rightarrow> Some (((w * 16 + x) * 16 + y) * 16 + z, s)
      | _ \<Rightarrow> None)"
| "hex4_val _ = None"

text \<open>What follows a backslash. A surrogate pair is one rune; a lone surrogate is U+FFFD.\<close>

definition json_unescape1 :: "string \<Rightarrow> (string \<times> string) option" where
  "json_unescape1 s = (case s of [] \<Rightarrow> None | c # t \<Rightarrow>
     if c = quote \<or> c = backslash \<or> c = CHR ''/'' then Some ([c], t)
     else if c = CHR ''b'' then Some ([char_of (8 :: nat)], t)
     else if c = CHR ''f'' then Some ([char_of (12 :: nat)], t)
     else if c = CHR ''n'' then Some ([char_of (10 :: nat)], t)
     else if c = CHR ''r'' then Some ([char_of (13 :: nat)], t)
     else if c = CHR ''t'' then Some ([char_of (9 :: nat)], t)
     else if c = CHR ''u'' then
       (case hex4_val t of None \<Rightarrow> None
        | Some (r, u) \<Rightarrow>
            if 0xD800 \<le> r \<and> r < 0xDC00 \<and> has_prefix u [backslash, CHR ''u''] then
              (case hex4_val (drop 2 u) of
                 Some (r2, v) \<Rightarrow>
                   if 0xDC00 \<le> r2 \<and> r2 < 0xE000
                   then Some (encode_rune ((r - 0xD800) * 1024 + (r2 - 0xDC00) + 0x10000), v)
                   else Some (encode_rune rune_error, u)
               | None \<Rightarrow> Some (encode_rune rune_error, u))
            else Some (encode_rune r, u))
     else None)"

lemma hex4_val_length: "hex4_val s = Some (r, t) \<Longrightarrow> length t < length s"
  by (cases s rule: hex4_val.cases) (auto split: option.splits)

lemma json_unescape1_length: "json_unescape1 s = Some (x, t) \<Longrightarrow> length t < length s"
  by (auto simp: json_unescape1_def split: list.splits option.splits if_splits dest!: hex4_val_length)

text \<open>A string literal after its opening quote: the value and the rest.\<close>

function parse_string :: "string \<Rightarrow> string \<Rightarrow> (string \<times> string) option" where
  "parse_string acc s =
     (if s = [] then None
      else if hd s = quote then Some (acc, tl s)
      else if hd s = backslash then
        (case json_unescape1 (tl s) of None \<Rightarrow> None | Some (x, t) \<Rightarrow> parse_string (acc @ x) t)
      else if byte (hd s) < (32 :: nat) then None
      else parse_string (acc @ encode_rune (fst (decode_rune s))) (drop (snd (decode_rune s)) s))"
  by pat_completeness auto
termination
proof (relation "measure (\<lambda>(acc, s). length s)", goal_cases)
  case (2 acc s xt x t)
  then show ?case using json_unescape1_length [of "tl s" x t] by simp
next
  case (3 acc s)
  then show ?case using decode_rune_width_pos [of s] by (cases s) auto
qed simp

declare parse_string.simps [simp del]

text \<open>A number: sign, integer part without leading zeros, fraction, exponent.\<close>

definition digits :: "string \<Rightarrow> string" where "digits s = takeWhile is_digit s"

definition int_part :: "string \<Rightarrow> string" where
  "int_part s = (if has_prefix s ''0'' then ''0'' else digits s)"

text \<open>The text of the fraction or exponent, empty when there is none; \<open>None\<close> when its digits are missing.\<close>

definition frac_part :: "string \<Rightarrow> string option" where
  "frac_part s = (if has_prefix s ''.'' then
     (if digits (tl s) = [] then None else Some (CHR ''.'' # digits (tl s))) else Some [])"

definition exp_part :: "string \<Rightarrow> string option" where
  "exp_part s = (if has_prefix s ''e'' \<or> has_prefix s ''E'' then
     (let sg = (if has_prefix (tl s) ''+'' \<or> has_prefix (tl s) ''-'' then 2 else 1); e = digits (drop sg s)
      in if e = [] then None else Some (take sg s @ e)) else Some [])"

definition parse_number :: "string \<Rightarrow> (json \<times> string) option" where
  "parse_number s =
     (let sg = (if has_prefix s ''-'' then ''-'' else []); s1 = drop (length sg) s; i = int_part s1;
          s2 = drop (length i) s1
      in if i = [] then None else case frac_part s2 of None \<Rightarrow> None
         | Some f \<Rightarrow> (case exp_part (drop (length f) s2) of None \<Rightarrow> None
             | Some e \<Rightarrow> Some (JNum (sg @ i @ f @ e), drop (length f + length e) s2)))"

text \<open>The fuel bounds the number of nested calls; twice the length of the input is enough.\<close>

fun parse_value :: "nat \<Rightarrow> string \<Rightarrow> (json \<times> string) option"
  and parse_elems :: "nat \<Rightarrow> json list \<Rightarrow> string \<Rightarrow> (json \<times> string) option"
  and parse_members :: "nat \<Rightarrow> (string \<times> json) list \<Rightarrow> string \<Rightarrow> (json \<times> string) option" where
  "parse_value 0 s = None"
| "parse_value (Suc n) s = (case skip_ws s of [] \<Rightarrow> None | c # t \<Rightarrow>
     if c = CHR ''{'' then (if has_prefix (skip_ws t) ''}'' then Some (JObj [], tl (skip_ws t)) else parse_members n [] t)
     else if c = CHR ''['' then (if has_prefix (skip_ws t) '']'' then Some (JArr [], tl (skip_ws t)) else parse_elems n [] t)
     else if c = quote then map_option (\<lambda>(x, u). (JStr x, u)) (parse_string [] t)
     else if has_prefix (c # t) ''true'' then Some (JBool True, drop 3 t)
     else if has_prefix (c # t) ''false'' then Some (JBool False, drop 4 t)
     else if has_prefix (c # t) ''null'' then Some (JNull, drop 3 t)
     else parse_number (c # t))"
| "parse_elems 0 acc s = None"
| "parse_elems (Suc n) acc s = (case parse_value n s of None \<Rightarrow> None
     | Some (x, u) \<Rightarrow> (case skip_ws u of [] \<Rightarrow> None | c # v \<Rightarrow>
         if c = CHR '','' then parse_elems n (acc @ [x]) v
         else if c = CHR '']'' then Some (JArr (acc @ [x]), v) else None))"
| "parse_members 0 acc s = None"
| "parse_members (Suc n) acc s = (case skip_ws s of [] \<Rightarrow> None | q # t \<Rightarrow>
     if q \<noteq> quote then None
     else case parse_string [] t of None \<Rightarrow> None
     | Some (k, u) \<Rightarrow> (case skip_ws u of [] \<Rightarrow> None | c # v \<Rightarrow>
         if c \<noteq> CHR '':'' then None
         else case parse_value n v of None \<Rightarrow> None
         | Some (x, w) \<Rightarrow> (case skip_ws w of [] \<Rightarrow> None | d # r \<Rightarrow>
             if d = CHR '','' then parse_members n (acc @ [(k, x)]) r
             else if d = CHR ''}'' then Some (JObj (acc @ [(k, x)]), r) else None)))"

text \<open>\<open>json.Unmarshal\<close> takes the whole text, \<open>Decoder.Decode\<close> the first value and leaves the rest.\<close>

definition parse_first :: "string \<Rightarrow> (json \<times> string) option" where
  "parse_first s = parse_value (Suc (2 * length s)) s"

definition parse_json :: "string \<Rightarrow> json option" where
  "parse_json s = (case parse_first s of Some (j, r) \<Rightarrow> if skip_ws r = [] then Some j else None | None \<Rightarrow> None)"

section \<open>Structs\<close>

text \<open>
  The members of an object fill the fields of a struct in order, each matched by its exact
  name or else under case folding. A value of the wrong type is skipped and reported at the
  end, and so is an unknown member when they are disallowed; \<open>null\<close> leaves a field alone.
  A setter returns \<open>None\<close> for a value of the wrong type.
\<close>

type_synonym 'a field = "string \<times> (json \<Rightarrow> 'a \<Rightarrow> 'a option)"

definition find_field :: "unicode_tables \<Rightarrow> 'a field list \<Rightarrow> string \<Rightarrow> 'a field option" where
  "find_field uc flds k = (case find (\<lambda>f. fst f = k) flds of Some f \<Rightarrow> Some f
     | None \<Rightarrow> find (\<lambda>f. equal_fold uc (fst f) k) flds)"

fun decode_members :: "unicode_tables \<Rightarrow> bool \<Rightarrow> 'a field list \<Rightarrow> (string \<times> json) list \<Rightarrow> 'a \<times> bool \<Rightarrow> 'a \<times> bool" where
  "decode_members uc strict flds [] r = r"
| "decode_members uc strict flds ((k, j) # ms) (x, ok) =
     decode_members uc strict flds ms
       (case find_field uc flds k of
          None \<Rightarrow> (x, ok \<and> \<not> strict)
        | Some (_, set_it) \<Rightarrow>
            (if j = JNull then (x, ok) else case set_it j x of None \<Rightarrow> (x, False) | Some x' \<Rightarrow> (x', ok)))"

text \<open>The struct after decoding, and whether no error was reported.\<close>

definition decode_struct :: "unicode_tables \<Rightarrow> bool \<Rightarrow> 'a field list \<Rightarrow> json \<Rightarrow> 'a \<Rightarrow> 'a \<times> bool" where
  "decode_struct uc strict flds j x = (case j of
     JObj ms \<Rightarrow> decode_members uc strict flds ms (x, True)
   | JNull \<Rightarrow> (x, True)
   | _ \<Rightarrow> (x, False))"

definition string_field :: "string \<Rightarrow> ((string \<Rightarrow> string) \<Rightarrow> 'a \<Rightarrow> 'a) \<Rightarrow> 'a field" where
  "string_field name upd = (name, \<lambda>j x. case j of JStr s \<Rightarrow> Some (upd (\<lambda>_. s) x) | _ \<Rightarrow> None)"

text \<open>An \<open>int\<close> takes a number that \<open>strconv.ParseInt\<close> reads: no fraction or exponent, 64 bits.\<close>

definition int_field :: "string \<Rightarrow> ((int \<Rightarrow> int) \<Rightarrow> 'a \<Rightarrow> 'a) \<Rightarrow> 'a field" where
  "int_field name upd = (name, \<lambda>j x. case j of JNum n \<Rightarrow> map_option (\<lambda>i. upd (\<lambda>_. i) x) (atoi n) | _ \<Rightarrow> None)"

definition struct_field :: "string \<Rightarrow> (json \<Rightarrow> 'a \<Rightarrow> 'a option) \<Rightarrow> 'a field" where
  "struct_field name f = (name, f)"

section \<open>Reading back a string\<close>


lemma byte_of_char_code: "byte c = n \<Longrightarrow> c = char_of (n :: nat)"
  by (metis char_of_char)

lemma decode_ascii_width:
  assumes "decode_rune s = (r, w)" "s \<noteq> []" "r < 128" "\<not> (r = rune_error \<and> w = 1)"
  shows "w = 1 \<and> take w s = [char_of r]"
proof -
  have "byte (hd s) < (128 :: nat)"
  proof (rule ccontr)
    assume "\<not> byte (hd s) < (128 :: nat)"
    with decode_rune_high [of "hd s" "tl s"] assms show False by simp
  qed
  with assms show ?thesis by (cases s) auto
qed

lemma hexval_hex_char [simp]: "d < 16 \<Longrightarrow> hexval (hex_char d) = Some d"
  by (auto simp: hexval_def hex_char_def is_digit_def)

lemma hex4_round: "r < 65536 \<Longrightarrow> hex4_val (hex4 r @ s) = Some (r, s)"
proof -
  assume "r < 65536"
  then have top: "r div 4096 mod 16 = r div 4096" by simp
  have val: "((r div 4096 * 16 + r div 256 mod 16) * 16 + r div 16 mod 16) * 16 + r mod 16 = r"
  proof -
    have "r div 256 = r div 16 div 16" "r div 4096 = r div 16 div 16 div 16" by (simp_all flip: div_mult2_eq)
    then show ?thesis by (simp only: div_mult_mod_eq)
  qed
  have "hex4_val (hex4 r @ s) =
    Some (((r div 4096 mod 16 * 16 + r div 256 mod 16) * 16 + r div 16 mod 16) * 16 + r mod 16, s)"
    by (simp add: hex4_def)
  then show ?thesis by (simp only: top val)
qed

lemma parse_string_u_escape:
  assumes "r < 65536" "\<not> (0xD800 \<le> r \<and> r < 0xDC00)"
  shows "parse_string acc (u_escape r @ s) = parse_string (acc @ encode_rune r) s"
  using assms hex4_round [OF assms(1), of s]
  by (subst parse_string.simps) (auto simp: u_escape_def json_unescape1_def)

text \<open>The runes with a short escape, and the letter that names it.\<close>

definition short_escapes :: "(nat \<times> char) list" where
  "short_escapes = [(0x22, quote), (0x5C, backslash), (8, CHR ''b''), (12, CHR ''f''),
     (10, CHR ''n''), (13, CHR ''r''), (9, CHR ''t'')]"

lemma short_escape_text:
  "\<forall>(r, e)\<in>set short_escapes. json_escape1 (r, [char_of r]) = [backslash, e]"
  by code_simp

lemma short_escape_value:
  "\<forall>(r, e)\<in>set short_escapes. json_unescape1 [e] = Some ([char_of r], [])"
  by code_simp

lemma short_escape_not_u: "\<forall>(r, e)\<in>set short_escapes. e \<noteq> CHR ''u''"
  by code_simp

lemma json_unescape1_append: "c \<noteq> CHR ''u'' \<Longrightarrow> json_unescape1 [c] = Some (x, []) \<Longrightarrow> json_unescape1 (c # y) = Some (x, y)"
  by (auto simp: json_unescape1_def split: if_splits)

lemma short_escape:
  assumes "(r, e) \<in> set short_escapes"
  shows "json_escape1 (r, [char_of r]) = [backslash, e] \<and> json_unescape1 (e # y) = Some ([char_of r], y)"
  using bspec [OF short_escape_text assms] bspec [OF short_escape_value assms]
    bspec [OF short_escape_not_u assms] json_unescape1_append [of e "[char_of r]" y] by simp

lemma parse_string_ascii:
  assumes "r < 128"
  shows "parse_string acc (json_escape1 (r, [char_of r]) @ y) = parse_string (acc @ [char_of r]) y"
proof (cases "html_safe r")
  case True
  moreover have "take_bit 8 r = r" using assms by (simp add: take_bit_nat_eq_self)
  ultimately have "char_of r \<noteq> quote" "char_of r \<noteq> backslash" "\<not> r < 32"
    by (auto simp: html_safe_def char_of_eq_iff)
  with True assms show ?thesis
    by (subst parse_string.simps) (simp add: json_escape1_def encode_rune_ascii)
next
  case False
  have esc: "parse_string acc (backslash # e # y) = parse_string (acc @ x) y"
    if "json_unescape1 (e # y) = Some (x, y)" for e x
    using that by (subst parse_string.simps) simp
  show ?thesis
  proof (cases "r \<in> set (map fst short_escapes)")
    case True
    then obtain e where "(r, e) \<in> set short_escapes" by auto
    from short_escape [OF this, of y] have e: "json_escape1 (r, [char_of r]) = [backslash, e]"
      "json_unescape1 (e # y) = Some ([char_of r], y)" by (rule conjunct1, rule conjunct2)
    from esc [OF e(2)] show ?thesis by (simp only: e(1) append.simps)
  next
    case False
    with \<open>\<not> html_safe r\<close> assms have "json_escape1 (r, [char_of r]) = u_escape r"
      by (simp add: json_escape1_def short_escapes_def)
    then show ?thesis using assms by (simp add: parse_string_u_escape encode_rune_ascii)
  qed
qed

lemma parse_string_raw:
  assumes "decode_rune s = (r, w)" "s \<noteq> []" "\<not> (r = rune_error \<and> w = 1)" "128 \<le> r" "0 < w"
  shows "parse_string acc (take w s @ y) = parse_string (acc @ take w s) y"
proof -
  obtain c t where s: "s = c # t" using assms(2) by (cases s) auto
  have c: "128 \<le> byte c" using assms(1,4) s by (cases "byte c < (128 :: nat)") auto
  then have ne: "c \<noteq> quote" "c \<noteq> backslash" by auto
  note d = decode_rune_valid [OF assms(1,2,3), of y]
  obtain k where k: "w = Suc k" using assms(5) by (cases w) auto
  have "length (take w s) = w" using decode_rune_width [OF assms(2,1)] by simp
  then have "drop w (take w s @ y) = y" by simp
  then show ?thesis using c ne d by (subst parse_string.simps) (simp add: s k)
qed

lemma parse_string_escape:
  assumes "utf8_valid s"
  shows "parse_string acc (json_escape s @ quote # rest) = Some (acc @ s, rest)"
  using assms
proof (induction s arbitrary: acc rule: utf8_valid_induct)
  case Nil
  then show ?case by (subst parse_string.simps) (simp add: json_escape_def)
next
  case (rune s r w)
  let ?y = "json_escape (drop w s) @ quote # rest"
  have esc: "json_escape s = json_escape1 (r, take w s) @ json_escape (drop w s)"
    using runes_step [OF rune(1,2)] by (simp add: json_escape_def)
  have "parse_string acc (json_escape1 (r, take w s) @ ?y) = parse_string (acc @ take w s) ?y"
  proof (cases "r < 128")
    case True
    have e: "take w s = [char_of r]" using decode_ascii_width [OF rune(2,1) True rune(3)] by (rule conjunct2)
    show ?thesis unfolding e by (rule parse_string_ascii [OF True])
  next
    case False
    show ?thesis
    proof (cases "r = 0x2028 \<or> r = 0x2029")
      case True
      then have "json_escape1 (r, take w s) = u_escape r" by (auto simp: json_escape1_def rune_error_def)
      moreover have "encode_rune r = take w s" using decode_rune_valid [OF rune(2,1,3)] by simp
      ultimately show ?thesis using True by (auto simp: parse_string_u_escape)
    next
      case False
      then have "json_escape1 (r, take w s) = take w s"
        using \<open>\<not> r < 128\<close> rune(3,5) by (auto simp: json_escape1_def min_def)
      then show ?thesis using parse_string_raw [OF rune(2,1,3) _ rune(4)] \<open>\<not> r < 128\<close> by simp
    qed
  qed
  then show ?case using rune(7) [of "acc @ take w s"] by (simp add: esc)
qed


section \<open>Reading back a document\<close>

definition delim :: "string \<Rightarrow> bool" where
  "delim rest \<longleftrightarrow> rest = [] \<or> hd rest \<in> {CHR '','', CHR '']'', CHR ''}'', CHR 0x0A}"

definition number_text :: "string \<Rightarrow> bool" where
  "number_text n \<longleftrightarrow> n \<noteq> [] \<and> (is_digit (hd n) \<or> hd n = CHR ''-'') \<and>
     (\<forall>rest. delim rest \<longrightarrow> parse_number (n @ rest) = Some (JNum n, rest))"

fun json_ok :: "json \<Rightarrow> bool" and elems_ok :: "json list \<Rightarrow> bool" and members_ok :: "(string \<times> json) list \<Rightarrow> bool" where
  "json_ok (JNum n) \<longleftrightarrow> number_text n"
| "json_ok (JStr s) \<longleftrightarrow> utf8_valid s"
| "json_ok (JArr js) \<longleftrightarrow> elems_ok js"
| "json_ok (JObj ms) \<longleftrightarrow> members_ok ms"
| "json_ok _ \<longleftrightarrow> True"
| "elems_ok [] \<longleftrightarrow> True"
| "elems_ok (j # js) \<longleftrightarrow> json_ok j \<and> elems_ok js"
| "members_ok [] \<longleftrightarrow> True"
| "members_ok ((k, j) # ms) \<longleftrightarrow> utf8_valid k \<and> json_ok j \<and> members_ok ms"

lemma punctuation_no_space [simp]:
  "\<not> json_space (CHR ''{'')" "\<not> json_space (CHR ''}'')" "\<not> json_space (CHR ''['')" "\<not> json_space (CHR '']'')"
  "\<not> json_space (CHR '','')" "\<not> json_space (CHR '':'')" "\<not> json_space quote"
  "\<not> json_space (CHR ''t'')" "\<not> json_space (CHR ''f'')" "\<not> json_space (CHR ''n'')"
  by (simp_all add: json_space_def)

lemma number_text_no_space: "number_text n \<Longrightarrow> n \<noteq> [] \<and> \<not> json_space (hd n)"
  by (auto simp: number_text_def json_space_def is_digit_def)

lemma json_text_no_space: "json_ok j \<Longrightarrow> json_text j \<noteq> [] \<and> \<not> json_space (hd (json_text j))"
  by (cases j) (auto simp: json_string_def dest: number_text_no_space)

lemma json_text_not_close: "json_ok j \<Longrightarrow> hd (json_text j) \<noteq> CHR '']''"
  by (cases j) (auto simp: json_string_def number_text_def is_digit_def)

lemma skip_ws_id: "s = [] \<or> \<not> json_space (hd s) \<Longrightarrow> skip_ws s = s"
  by (cases s) (auto simp: skip_ws_def)

lemma skip_ws_json: "json_ok j \<Longrightarrow> skip_ws (json_text j @ rest) = json_text j @ rest"
  using json_text_no_space [of j] by (intro skip_ws_id) (auto simp: hd_append)

lemma skip_ws_Cons: "\<not> json_space c \<Longrightarrow> skip_ws (c # s) = c # s"
  by (simp add: skip_ws_def)

lemma parse_string_text:
  assumes "utf8_valid s" shows "parse_string [] (tl (json_string s) @ rest) = Some (s, rest)"
  using parse_string_escape [OF assms, of "[]" rest] by (simp add: json_string_def)

lemma parse_members_Cons:
  assumes "utf8_valid k"
  shows "parse_members (Suc n) acc (json_string k @ CHR '':'' # s) =
    (case parse_value n s of None \<Rightarrow> None
     | Some (x, w) \<Rightarrow> (case skip_ws w of [] \<Rightarrow> None | d # r \<Rightarrow>
         if d = CHR '','' then parse_members n (acc @ [(k, x)]) r
         else if d = CHR ''}'' then Some (JObj (acc @ [(k, x)]), r) else None))"
  using parse_string_text [OF assms, of "CHR '':'' # s"]
  by (simp add: json_string_def skip_ws_Cons)

lemma parse_value_number:
  assumes "number_text m" "delim rest" shows "parse_value (Suc n) (m @ rest) = Some (JNum m, rest)"
proof -
  obtain c t where m: "m = c # t" "is_digit c \<or> c = CHR ''-''" using assms(1) by (cases m) (auto simp: number_text_def)
  have "skip_ws (m @ rest) = m @ rest" using number_text_no_space [OF assms(1)] by (intro skip_ws_id) (auto simp: m)
  moreover have "c \<noteq> CHR ''{''" "c \<noteq> CHR ''[''" "c \<noteq> quote" "c \<noteq> CHR ''t''" "c \<noteq> CHR ''f''" "c \<noteq> CHR ''n''"
    using m(2) by (auto simp: is_digit_def)
  moreover have "parse_number (c # t @ rest) = Some (JNum m, rest)" using assms m by (simp add: number_text_def)
  ultimately show ?thesis by (simp add: m has_prefix_def)
qed

lemma parse_value_literal:
  "parse_value (Suc n) (''null'' @ rest) = Some (JNull, rest)"
  "parse_value (Suc n) (''true'' @ rest) = Some (JBool True, rest)"
  "parse_value (Suc n) (''false'' @ rest) = Some (JBool False, rest)"
  by (simp_all add: skip_ws_Cons has_prefix_def)

lemma parse_json_text:
  "json_ok j \<Longrightarrow> delim rest \<Longrightarrow> 2 * length (json_text j @ rest) < n \<Longrightarrow>
    parse_value n (json_text j @ rest) = Some (j, rest)"
  "elems_ok js \<Longrightarrow> js \<noteq> [] \<Longrightarrow> 2 * length (json_elems js @ rest) + 1 < n \<Longrightarrow>
    parse_elems n es (json_elems js @ rest) = Some (JArr (es @ js), rest)"
  "members_ok ms \<Longrightarrow> ms \<noteq> [] \<Longrightarrow> 2 * length (json_members ms @ rest) + 1 < n \<Longrightarrow>
    parse_members n acc (json_members ms @ rest) = Some (JObj (acc @ ms), rest)"
proof (induction j and js and ms arbitrary: n rest and n rest es and n rest acc
    rule: json_text_json_elems_json_members.induct)
  case 1
  then obtain m where "n = Suc m" by (cases n) auto
  then show ?case by (simp only: json_text.simps parse_value_literal)
next
  case (2 b)
  then obtain m where "n = Suc m" by (cases n) auto
  then show ?case by (cases b) (simp_all only: json_text.simps parse_value_literal if_True if_False)
next
  case (3 m)
  then show ?case by (cases n) (simp_all add: parse_value_number del: parse_value.simps(2))
next
  case (4 s)
  then show ?case using parse_string_text [of s rest] by (cases n) (auto simp: json_string_def skip_ws_Cons)
next
  case (5 js)
  then obtain m where n: "n = Suc m" by (cases n) auto
  show ?case
  proof (cases "js = []")
    case True then show ?thesis by (simp add: n skip_ws_Cons has_prefix_def)
  next
    case False
    then obtain j js' where js: "js = j # js'" by (cases js) auto
    let ?r = "(if js' = [] then '']'' else CHR '','' # json_elems js') @ rest"
    from js 5 have j: "json_ok j" by simp
    have "json_elems js @ rest = json_text j @ ?r" by (simp add: js)
    then have "skip_ws (json_elems js @ rest) = json_text j @ ?r" by (simp only: skip_ws_json [OF j])
    then have "\<not> has_prefix (skip_ws (json_elems js @ rest)) '']''"
      using json_text_no_space [OF j] json_text_not_close [OF j] by (cases "json_text j") (auto simp: has_prefix_def)
    then show ?thesis using 5 False by (simp add: n skip_ws_Cons)
  qed
next
  case (6 ms)
  then obtain m where n: "n = Suc m" by (cases n) auto
  show ?case
  proof (cases "ms = []")
    case True then show ?thesis by (simp add: n skip_ws_Cons has_prefix_def)
  next
    case False
    then have "\<not> has_prefix (skip_ws (json_members ms @ rest)) ''}''"
      by (cases ms) (auto simp: json_string_def skip_ws_Cons has_prefix_def)
    then show ?thesis using 6 False by (simp add: n skip_ws_Cons)
  qed
next
  case (8 j js)
  then obtain m where n: "n = Suc m" by (cases n) auto
  let ?more = "if js = [] then '']'' else CHR '','' # json_elems js"
  have "parse_value m (json_text j @ ?more @ rest) = Some (j, ?more @ rest)"
    using 8 by (intro 8(1)) (auto simp: n delim_def)
  then show ?case using 8 by (cases "js = []") (auto simp: n skip_ws_Cons)
next
  case (10 k j ms)
  then obtain m where n: "n = Suc m" by (cases n) auto
  let ?more = "if ms = [] then ''}'' else CHR '','' # json_members ms"
  have "parse_value m (json_text j @ ?more @ rest) = Some (j, ?more @ rest)"
    using 10 by (intro 10(1)) (auto simp: n delim_def)
  then show ?case using 10 by (cases "ms = []") (auto simp: n parse_members_Cons skip_ws_Cons simp del: parse_members.simps)
qed simp_all


text \<open>The program writes numbers with \<open>strconv\<close> or as Go integers.\<close>

lemma dec_digits_hd: "0 < n \<Longrightarrow> hd (dec_digits n) \<noteq> CHR ''0''"
proof (induction n rule: dec_digits.induct)
  case (1 n)
  show ?case
  proof (cases "n < 10")
    case True
    have "byte (char_of (48 + n)) = 48 + n" using True by simp
    moreover have "byte (CHR ''0'') = (48 :: nat)" by simp
    ultimately have "char_of (48 + n) \<noteq> CHR ''0''" using 1(2) by (metis add_eq_self_zero less_numeral_extra(3))
    then show ?thesis using True by (simp add: dec_digits_lt)
  next
    case False
    with 1 show ?thesis by (simp add: dec_digits_ge hd_append)
  qed
qed

lemma digits_append:
  "\<forall>c\<in>set d. is_digit c \<Longrightarrow> rest = [] \<or> \<not> is_digit (hd rest) \<Longrightarrow> digits (d @ rest) = d"
  by (cases rest) (auto simp: digits_def takeWhile_append)

lemma delim_facts: "delim rest \<Longrightarrow> (rest = [] \<or> \<not> is_digit (hd rest)) \<and>
    \<not> has_prefix rest ''.'' \<and> \<not> has_prefix rest ''e'' \<and> \<not> has_prefix rest ''E''"
  by (cases rest) (auto simp: delim_def is_digit_def has_prefix_def)

lemma number_text_format_int: "number_text (format_int i)"
proof -
  define d where "d = dec_digits (nat \<bar>i\<bar>)"
  have d: "d \<noteq> []" "\<forall>c\<in>set d. is_digit c" "hd d = CHR ''0'' \<Longrightarrow> d = ''0''"
    using dec_digits_digits dec_digits_hd [of "nat \<bar>i\<bar>"]
    by (auto simp: d_def) (cases "i = 0"; simp add: dec_digits_lt)
  have i: "format_int i = (if i < 0 then CHR ''-'' # d else d)" by (simp add: format_int_def d_def)
  have dig: "is_digit (hd d)" using d by auto
  then have nd: "hd d \<noteq> CHR ''-''" by (auto simp: is_digit_def)
  show ?thesis
    unfolding number_text_def
  proof (intro conjI allI impI)
    show "format_int i \<noteq> []" "is_digit (hd (format_int i)) \<or> hd (format_int i) = CHR ''-''"
      using d dig by (auto simp: i)
  next
    fix rest assume "delim rest"
    note r = delim_facts [OF this]
    have int: "int_part (d @ rest) = d"
    proof (cases "hd d = CHR ''0''")
      case True
      then show ?thesis using d(3) by (simp add: has_prefix_def int_part_def)
    next
      case False
      then have "\<not> has_prefix (d @ rest) ''0''" using d(1) by (cases d) (auto simp: has_prefix_def)
      then show ?thesis using digits_append [OF d(2)] r by (simp add: int_part_def)
    qed
    have neg: "has_prefix (format_int i @ rest) ''-'' \<longleftrightarrow> i < 0"
      using nd d(1) by (cases d) (auto simp: i has_prefix_def)
    have rest: "frac_part rest = Some []" "exp_part rest = Some []" using r by (simp_all add: frac_part_def exp_part_def)
    show "parse_number (format_int i @ rest) = Some (JNum (format_int i), rest)"
      using d(1) unfolding parse_number_def neg by (cases "i < 0") (simp_all add: i int rest Let_def)
  qed
qed

lemma parse_json_text_id:
  assumes "json_ok j" shows "parse_json (json_text j) = Some j"
  using parse_json_text(1) [OF assms, of "[]" "Suc (2 * length (json_text j))"]
  by (simp add: parse_json_def parse_first_def delim_def skip_ws_def)

section \<open>The fuel is enough\<close>


text \<open>Every value consumes input, and more fuel than twice the length changes nothing.\<close>

lemma parse_string_length: "parse_string acc s = Some (x, t) \<Longrightarrow> length t < length s"
proof (induction acc s arbitrary: x t rule: parse_string.induct)
  case (1 acc s)
  show ?case
  proof (cases "s = [] \<or> hd s = quote")
    case True
    then show ?thesis using 1(3) parse_string.simps [of acc s] by (cases s) auto
  next
    case False
    show ?thesis
    proof (cases "hd s = backslash")
      case True
      then obtain a u where u: "json_unescape1 (tl s) = Some (a, u)" "parse_string (acc @ a) u = Some (x, t)"
        using 1(3) False by (auto simp: parse_string.simps [of acc s] split: option.splits)
      then have "length t < length u" using 1(1) False True by auto
      then show ?thesis using json_unescape1_length [OF u(1)] by simp
    next
      case b: False
      then have "parse_string (acc @ encode_rune (fst (decode_rune s))) (drop (snd (decode_rune s)) s) = Some (x, t)"
        "\<not> byte (hd s) < (32 :: nat)"
        using 1(3) False by (auto simp: parse_string.simps [of acc s] split: if_splits)
      then have "length t < length (drop (snd (decode_rune s)) s)" using 1(2) False b by blast
      then show ?thesis by simp
    qed
  qed
qed

lemma parse_number_length:
  assumes "parse_number s = Some (x, t)" shows "length t < length s"
proof -
  define s1 where "s1 = (if has_prefix s ''-'' then drop 1 s else s)"
  have l: "length s1 \<le> length s" by (auto simp: s1_def)
  obtain k where t: "int_part s1 \<noteq> []" "t = drop k (drop (length (int_part s1)) s1)"
    using assms by (auto simp: parse_number_def Let_def s1_def split: if_splits option.splits)
  then have "s1 \<noteq> []" by (auto simp: int_part_def digits_def has_prefix_def)
  with t have "length t < length s1" by (cases "int_part s1") (auto simp flip: length_greater_0_conv)
  with l show ?thesis by simp
qed

lemma length_skip_ws: "length (skip_ws s) \<le> length s"
  by (simp add: skip_ws_def length_dropWhile_le)

lemma skip_ws_shorter: "skip_ws s = c # t \<Longrightarrow> length t < length s"
  using length_skip_ws [of s] by simp

lemma tl_shorter: "skip_ws s = c # t \<Longrightarrow> length (tl (skip_ws t)) < length s" 
  using skip_ws_shorter [of s c t] length_skip_ws [of t] by simp

lemma parse_rest_shorter:
  "parse_value n s = Some (x, t) \<Longrightarrow> length t < length s"
  "parse_elems n es s = Some (x, t) \<Longrightarrow> length t < length s"
  "parse_members n acc s = Some (x, t) \<Longrightarrow> length t < length s"
proof (induction n s and n es s and n acc s arbitrary: x t and x t and x t
    rule: parse_value_parse_elems_parse_members.induct)
  case (2 n s)
  note prems = 2(3) and ih = 2(1,2)
  show ?case
  proof (cases "skip_ws s")
    case Nil then show ?thesis using 2 by simp
  next
    case (Cons c u)
    note l = skip_ws_shorter [OF Cons] tl_shorter [OF Cons]
    consider "c = CHR ''{''" "has_prefix (skip_ws u) ''}''" | "c = CHR ''{''" "\<not> has_prefix (skip_ws u) ''}''"
      | "c = CHR ''[''" "has_prefix (skip_ws u) '']''" | "c = CHR ''[''" "\<not> has_prefix (skip_ws u) '']''"
      | "c = quote" | "c \<noteq> CHR ''{''" "c \<noteq> CHR ''[''" "c \<noteq> quote" by blast
    then show ?thesis
    proof cases
      case 6
      have "length t < length s" if "parse_number (c # u) = Some (x, t)"
        using parse_number_length [OF that] l by simp
      then show ?thesis using prems 6 Cons l by (auto split: if_splits)
    next
      case 5
      then show ?thesis using prems Cons l parse_string_length [of "[]" u] by fastforce
    next
      case 2 then show ?thesis using prems ih Cons l by fastforce
    next
      case 4 then show ?thesis using prems ih Cons l by fastforce
    qed (use prems Cons l in simp_all)
  qed
next
  case (4 n acc s)
  then obtain y u where u: "parse_value n s = Some (y, u)" by (auto split: option.splits)
  then have lu: "length u < length s" by (rule 4(1))
  obtain c v where v: "skip_ws u = c # v" using 4 u by (cases "skip_ws u") auto
  have "length t < length v" if "c = CHR '',''" using 4 u v that by auto
  then show ?case using 4(3) u lu v skip_ws_shorter [OF v] by (auto split: if_splits)
next
  case (6 n acc s)
  obtain q a where a: "skip_ws s = q # a" "q = quote" using 6 by (cases "skip_ws s") (auto split: if_splits)
  obtain k u where u: "parse_string [] a = Some (k, u)" using 6 a by (auto split: option.splits)
  obtain c v where v: "skip_ws u = c # v" "c = CHR '':''" using 6 a u by (cases "skip_ws u") (auto split: if_splits)
  obtain y w where w: "parse_value n v = Some (y, w)" using 6 a u v by (auto split: option.splits)
  obtain d r where r: "skip_ws w = d # r" using 6 a u v w by (cases "skip_ws w") auto
  have q: "\<not> q \<noteq> quote" "\<not> c \<noteq> CHR '':''" using a v by simp_all
  have lw: "length w < length v" by (rule 6(1) [OF a(1) q(1) u refl v(1) q(2) w])
  have lr: "length t < length r" if "d = CHR '',''" "parse_members n (acc @ [(k, y)]) r = Some (x, t)"
    by (rule 6(2) [OF a(1) q(1) u refl v(1) q(2) w refl r that])
  have l: "length r < length s"
    using lw skip_ws_shorter [OF a(1)] parse_string_length [OF u] skip_ws_shorter [OF v(1)] skip_ws_shorter [OF r] by simp
  have "(if d = CHR '','' then parse_members n (acc @ [(k, y)]) r
     else if d = CHR ''}'' then Some (JObj (acc @ [(k, y)]), r) else None) = Some (x, t)"
    using 6(3) by (simp add: a u v w r)
  then show ?case using lr l by (auto split: if_splits)
qed simp_all

text \<open>Fuel beyond twice the length of the input does not change the result.\<close>

lemma parse_fuel:
  "2 * length s < n \<Longrightarrow> n \<le> m \<Longrightarrow> parse_value m s = parse_value n s"
  "2 * length s + 1 < n \<Longrightarrow> n \<le> m \<Longrightarrow> parse_elems m es s = parse_elems n es s"
  "2 * length s + 1 < n \<Longrightarrow> n \<le> m \<Longrightarrow> parse_members m acc s = parse_members n acc s"
proof (induction n s and n es s and n acc s arbitrary: m and m and m
    rule: parse_value_parse_elems_parse_members.induct)
  case (2 n s)
  note ih = 2(2)
  obtain m' where m: "m = Suc m'" "n \<le> m'" using 2(4) by (cases m) auto
  show ?case
  proof (cases "skip_ws s")
    case (Cons c u)
    have fuel: "2 * length u + 1 < n" using 2(3) skip_ws_shorter [OF Cons] by simp
    consider "c = CHR ''{''" | "c = CHR ''[''" | "c \<noteq> CHR ''{''" "c \<noteq> CHR ''[''" by blast
    then show ?thesis
    proof cases
      case 1
      then show ?thesis using 2(1) [OF Cons _ _ fuel m(2)] by (simp add: m(1) Cons)
    next
      case 2
      then show ?thesis using ih [OF Cons _ _ _ fuel m(2)] by (simp add: m(1) Cons)
    next
      case 3
      then show ?thesis by (simp only: m(1) parse_value.simps Cons list.case if_False)
    qed
  qed (simp add: m)
next
  case (4 n acc s)
  obtain m' where m: "m = Suc m'" "n \<le> m'" using 4(4) by (cases m) auto
  have v: "parse_value m' s = parse_value n s" by (rule 4(1)) (use 4(3) m in simp_all)
  show ?case
  proof (cases "parse_value n s")
    case None then show ?thesis by (simp add: m v)
  next
    case (Some xu)
    then obtain y u where u: "parse_value n s = Some (y, u)" by (cases xu) auto
    show ?thesis
    proof (cases "skip_ws u")
      case (Cons c w)
      have "length w < length s" using parse_rest_shorter(1) [OF u] skip_ws_shorter [OF Cons] by simp
      then have fuel: "2 * length w + 1 < n" using 4(3) by simp
      have "parse_elems m' (acc @ [y]) w = parse_elems n (acc @ [y]) w" if "c = CHR '',''"
        by (rule 4(2) [OF u refl Cons that fuel m(2)])
      then show ?thesis by (simp add: m v u Cons)
    qed (simp add: m v u)
  qed
next
  case (6 n acc s)
  obtain m' where m: "m = Suc m'" "n \<le> m'" using 6(4) by (cases m) auto
  show ?case
  proof (cases "\<exists>a k u v. skip_ws s = quote # a \<and> parse_string [] a = Some (k, u) \<and> skip_ws u = CHR '':'' # v")
    case False
    have none: "parse_members (Suc i) acc s = None" for i
      using False by (auto split: list.split option.split)
    show ?thesis by (simp only: m(1) none)
  next
    case True
    then obtain a k u v where p: "skip_ws s = quote # a" "parse_string [] a = Some (k, u)" "skip_ws u = CHR '':'' # v"
      by blast
    have lv: "length v < length s"
      using skip_ws_shorter [OF p(1)] parse_string_length [OF p(2)] skip_ws_shorter [OF p(3)] by simp
    have q: "\<not> quote \<noteq> quote" "\<not> CHR '':'' \<noteq> CHR '':''" by simp_all
    have v: "parse_value m' v = parse_value n v"
      by (rule 6(1) [OF p(1) q(1) p(2) refl p(3) q(2)]) (use 6(3) m lv in simp_all)
    show ?thesis
    proof (cases "parse_value n v")
      case None then show ?thesis by (simp add: m v p)
    next
      case (Some xu)
      then obtain y w where w: "parse_value n v = Some (y, w)" by (cases xu) auto
      show ?thesis
      proof (cases "skip_ws w")
        case (Cons d r)
        have "length r < length s" using parse_rest_shorter(1) [OF w] skip_ws_shorter [OF Cons] lv by simp
        then have fuel: "2 * length r + 1 < n" using 6(3) by simp
        have "parse_members m' (acc @ [(k, y)]) r = parse_members n (acc @ [(k, y)]) r" if "d = CHR '',''"
          by (rule 6(2) [OF p(1) q(1) p(2) refl p(3) q(2) w refl Cons that fuel m(2)])
        then show ?thesis by (simp add: m v p w Cons)
      qed (simp add: m v p w)
    qed
  qed
qed simp_all

end
