(* ===== verification/JSONDecoder.thy ===== *)
theory JSONDecoder
  imports GoJSON
begin

text \<open>
  \<open>json.Decoder.Decode\<close> on a request body that may break off: the scanner of \<open>encoding/json\<close>
  finds the end of the first value, byte by byte, and the struct is filled from that value.
  What follows the value is not read.
\<close>

section \<open>The scanner\<close>

datatype parse_state = ObjectKey | ObjectValue | ArrayValue

datatype scan_state =
    BeginValue | BeginValueOrEmpty | BeginString | BeginStringOrEmpty | EndValue
  | InString | InStringEsc | InStringEscU nat
  | Neg | State1 | State0 | Dot | Dot0 | StateE | ESign | E0
  | Literal string

text \<open>
  One byte: it continues, ends the top-level value before or after itself, or is an error.
  The stack of open objects and arrays has at most 10000 entries.
\<close>

datatype scan_op = Go scan_state "parse_state list" | EndBefore | EndAfter | ScanError

definition json_push :: "scan_state \<Rightarrow> parse_state \<Rightarrow> parse_state list \<Rightarrow> scan_op" where
  "json_push st p stk = (if length stk < 10000 then Go st (p # stk) else ScanError)"

definition json_pop :: "parse_state list \<Rightarrow> scan_op" where
  "json_pop stk = (if stk = [] then EndAfter else Go EndValue stk)"

definition end_value :: "parse_state list \<Rightarrow> char \<Rightarrow> scan_op" where
  "end_value stk c = (case stk of
     [] \<Rightarrow> EndBefore
   | p # ps \<Rightarrow>
       if json_space c then Go EndValue stk
       else (case p of
               ObjectKey \<Rightarrow> if c = CHR '':'' then Go BeginValue (ObjectValue # ps) else ScanError
             | ObjectValue \<Rightarrow>
                 if c = CHR '','' then Go BeginString (ObjectKey # ps)
                 else if c = CHR ''}'' then json_pop ps else ScanError
             | ArrayValue \<Rightarrow>
                 if c = CHR '','' then Go BeginValue stk
                 else if c = CHR '']'' then json_pop ps else ScanError))"

definition begin_value :: "scan_state \<Rightarrow> parse_state list \<Rightarrow> char \<Rightarrow> scan_op" where
  "begin_value st stk c =
     (if json_space c then Go st stk
      else if c = CHR ''{'' then json_push BeginStringOrEmpty ObjectKey stk
      else if c = CHR ''['' then json_push BeginValueOrEmpty ArrayValue stk
      else if c = quote then Go InString stk
      else if c = CHR ''-'' then Go Neg stk
      else if c = CHR ''0'' then Go State0 stk
      else if c = CHR ''t'' then Go (Literal ''rue'') stk
      else if c = CHR ''f'' then Go (Literal ''alse'') stk
      else if c = CHR ''n'' then Go (Literal ''ull'') stk
      else if is_digit c then Go State1 stk else ScanError)"

definition begin_string :: "scan_state \<Rightarrow> parse_state list \<Rightarrow> char \<Rightarrow> scan_op" where
  "begin_string st stk c =
     (if json_space c then Go st stk else if c = quote then Go InString stk else ScanError)"

definition exponent_mark :: "char \<Rightarrow> bool" where
  "exponent_mark c \<longleftrightarrow> c = CHR ''e'' \<or> c = CHR ''E''"

definition state0 :: "parse_state list \<Rightarrow> char \<Rightarrow> scan_op" where
  "state0 stk c = (if c = CHR ''.'' then Go Dot stk else if exponent_mark c then Go StateE stk else end_value stk c)"

fun scan_step :: "scan_state \<Rightarrow> parse_state list \<Rightarrow> char \<Rightarrow> scan_op" where
  "scan_step BeginValue stk c = begin_value BeginValue stk c"
| "scan_step BeginValueOrEmpty stk c = (if c = CHR '']'' then end_value stk c else begin_value BeginValueOrEmpty stk c)"
| "scan_step BeginString stk c = begin_string BeginString stk c"
| "scan_step BeginStringOrEmpty stk c =
     (if c = CHR ''}'' then end_value (ObjectValue # tl stk) c else begin_string BeginStringOrEmpty stk c)"
| "scan_step EndValue stk c = end_value stk c"
| "scan_step InString stk c =
     (if c = quote then Go EndValue stk else if c = backslash then Go InStringEsc stk
      else if byte c < (32 :: nat) then ScanError else Go InString stk)"
| "scan_step InStringEsc stk c =
     (if c \<in> {CHR ''b'', CHR ''f'', CHR ''n'', CHR ''r'', CHR ''t'', backslash, CHR ''/'', quote} then Go InString stk
      else if c = CHR ''u'' then Go (InStringEscU 3) stk else ScanError)"
| "scan_step (InStringEscU n) stk c =
     (if hexval c = None then ScanError else case n of 0 \<Rightarrow> Go InString stk | Suc m \<Rightarrow> Go (InStringEscU m) stk)"
| "scan_step Neg stk c = (if c = CHR ''0'' then Go State0 stk else if is_digit c then Go State1 stk else ScanError)"
| "scan_step State1 stk c = (if is_digit c then Go State1 stk else state0 stk c)"
| "scan_step State0 stk c = state0 stk c"
| "scan_step Dot stk c = (if is_digit c then Go Dot0 stk else ScanError)"
| "scan_step Dot0 stk c =
     (if is_digit c then Go Dot0 stk else if exponent_mark c then Go StateE stk else end_value stk c)"
| "scan_step StateE stk c =
     (if c = CHR ''+'' \<or> c = CHR ''-'' then Go ESign stk else if is_digit c then Go E0 stk else ScanError)"
| "scan_step ESign stk c = (if is_digit c then Go E0 stk else ScanError)"
| "scan_step E0 stk c = (if is_digit c then Go E0 stk else end_value stk c)"
| "scan_step (Literal t) stk c = (case t of
     [] \<Rightarrow> ScanError
   | x # u \<Rightarrow> if c = x then Go (if u = [] then EndValue else Literal u) stk else ScanError)"

text \<open>The number of bytes of the first value, or where the scanner stands when the bytes run out.\<close>

datatype scan_outcome = Complete nat | Pending scan_state "parse_state list" | Malformed

fun scan_bytes :: "scan_state \<Rightarrow> parse_state list \<Rightarrow> nat \<Rightarrow> string \<Rightarrow> scan_outcome" where
  "scan_bytes st stk n [] = Pending st stk"
| "scan_bytes st stk n (c # s) = (case scan_step st stk c of
     Go st' stk' \<Rightarrow> scan_bytes st' stk' (Suc n) s
   | EndBefore \<Rightarrow> Complete n
   | EndAfter \<Rightarrow> Complete (Suc n)
   | ScanError \<Rightarrow> Malformed)"

definition scan_first :: "string \<Rightarrow> scan_outcome" where
  "scan_first = scan_bytes BeginValue [] 0"

section \<open>Request bodies\<close>

text \<open>The bytes a reader delivers, and what it reports after them.\<close>

datatype body_end = EOF | MaxBytes | ReadFailed string

record body =
  bd_data :: string
  bd_end :: body_end

text \<open>\<open>http.MaxBytesReader\<close>: at most \<open>n\<close> bytes, then its error if there are more.\<close>

definition MaxBytesReader :: "int \<Rightarrow> body \<Rightarrow> body" where
  "MaxBytesReader n b = (if length (bd_data b) \<le> nat n then b
     else \<lparr>bd_data = take (nat n) (bd_data b), bd_end = MaxBytes\<rparr>)"

section \<open>\<open>Decode\<close>\<close>

text \<open>The errors the handlers tell apart; the first one found in the value is reported.\<close>

datatype decode_error = MaxBytesError | UnknownFieldError | InvalidBody

fun strict_members :: "unicode_tables \<Rightarrow> 'a field list \<Rightarrow> (string \<times> json) list \<Rightarrow> 'a \<Rightarrow> decode_error option \<Rightarrow> 'a \<times> decode_error option" where
  "strict_members uc flds [] x err = (x, err)"
| "strict_members uc flds ((k, j) # ms) x err =
     (case find_field uc flds k of
        None \<Rightarrow> strict_members uc flds ms x (if err = None then Some UnknownFieldError else err)
      | Some (_, set_it) \<Rightarrow>
          if j = JNull then strict_members uc flds ms x err
          else (case set_it j x of
                  None \<Rightarrow> strict_members uc flds ms x (if err = None then Some InvalidBody else err)
                | Some x' \<Rightarrow> strict_members uc flds ms x' err))"

definition strict_struct :: "unicode_tables \<Rightarrow> 'a field list \<Rightarrow> json \<Rightarrow> 'a \<Rightarrow> decode_error + 'a" where
  "strict_struct uc flds j x = (case j of
     JObj ms \<Rightarrow> (case strict_members uc flds ms x None of (x', None) \<Rightarrow> Inr x' | (_, Some e) \<Rightarrow> Inl e)
   | JNull \<Rightarrow> Inr x
   | _ \<Rightarrow> Inl InvalidBody)"

definition decode_text :: "unicode_tables \<Rightarrow> 'a field list \<Rightarrow> string \<Rightarrow> 'a \<Rightarrow> decode_error + 'a" where
  "decode_text uc flds t x = (case parse_json t of None \<Rightarrow> Inl InvalidBody | Some j \<Rightarrow> strict_struct uc flds j x)"

text \<open>A value that the bytes leave open is complete at the end of the input if a space would end it.\<close>

definition Decode_strict :: "unicode_tables \<Rightarrow> 'a field list \<Rightarrow> body \<Rightarrow> 'a \<Rightarrow> decode_error + 'a" where
  "Decode_strict uc flds b x = (case scan_first (bd_data b) of
     Complete n \<Rightarrow> decode_text uc flds (take n (bd_data b)) x
   | Malformed \<Rightarrow> Inl InvalidBody
   | Pending st stk \<Rightarrow> (case bd_end b of
         EOF \<Rightarrow> if scan_step st stk CHR '' '' = EndBefore then decode_text uc flds (bd_data b) x else Inl InvalidBody
       | MaxBytes \<Rightarrow> Inl MaxBytesError
       | ReadFailed e \<Rightarrow> Inl (if str_contains e ''unknown field'' then UnknownFieldError else InvalidBody)))"

end
