(* ===== verification/Base62.thy ===== *)
theory Base62
  imports Domain
begin

text \<open>
  \<open>internal/hash/base62.go\<close>: the hash of a short URL is its row id plus 62^6, written in
  base 62. The arithmetic is that of a \<open>uint64\<close>, wrap-around included.
\<close>

definition alphabet :: string where
  "alphabet = ''0123456789ABCDEFGHIJKLMNOPQRSTUVWXYZabcdefghijklmnopqrstuvwxyz''"

definition offset :: u64 where
  "offset = 56800235584"

text \<open>The loop of \<open>Encode\<close>; \<open>buf\<close> is the filled end \<open>buf[pos:]\<close> of the 16-byte buffer.\<close>

function encode_loop :: "u64 \<Rightarrow> string \<Rightarrow> string" where
  "encode_loop n buf =
     (if 0 < n then encode_loop (n div 62) (alphabet ! unat (n mod 62) # buf) else buf)"
  by pat_completeness auto
termination
proof (relation "measure (\<lambda>(n, buf). unat n)", goal_cases)
  case (2 n buf)
  then have "unat n \<noteq> 0" by (simp add: unat_gt_0 flip: word_gt_0)
  then show ?case by (simp add: unat_div)
qed simp

declare encode_loop.simps [simp del]

definition Encode :: "u64 \<Rightarrow> string" where
  "Encode i =
     (let n = i + offset
      in if n = 0 then [alphabet ! 0] else encode_loop n [])"

text \<open>\<open>strings.IndexRune(alphabet, ch)\<close>: the alphabet is ASCII, so a rune is at most one byte of it.\<close>

definition index_rune :: "string \<Rightarrow> nat \<Rightarrow> nat option" where
  "index_rune s r = (if r < 128 then index_byte (char_of r) s else None)"

fun decode_loop :: "nat list \<Rightarrow> u64 \<Rightarrow> goerr + u64" where
  "decode_loop [] n = Inr n"
| "decode_loop (ch # chs) n =
     (case index_rune alphabet ch of
        None \<Rightarrow> Inl (Plain ''hash: invalid character in hash'')
      | Some idx \<Rightarrow> decode_loop chs (n * 62 + of_nat idx))"

definition Decode :: "string \<Rightarrow> goerr + u64" where
  "Decode s =
     (if s = [] then Inl (Plain ''hash: empty string'')
      else case decode_loop (map fst (runes s)) 0 of
             Inl e \<Rightarrow> Inl e
           | Inr n \<Rightarrow> if n < offset then Inl (Plain ''hash: value underflows offset'')
                      else Inr (n - offset))"

section \<open>The alphabet\<close>

lemma length_alphabet [simp]: "length alphabet = 62"
  by (simp add: alphabet_def)

definition alphabet_codes :: "nat list" where
  "alphabet_codes = [48..<58] @ [65..<91] @ [97..<123]"

lemma alphabet_codes: "map byte alphabet = alphabet_codes"
  by (simp add: alphabet_def alphabet_codes_def upt_rec_numeral)

lemma alphabet_alnum: "c \<in> set alphabet \<longleftrightarrow> is_alnum c"
proof -
  have "c \<in> set alphabet \<longleftrightarrow> byte c \<in> set (map byte alphabet)" by auto
  also have "set (map byte alphabet) = {48..<58} \<union> {65..<91} \<union> {97..<123}"
    by (simp only: alphabet_codes alphabet_codes_def set_append set_upt Un_assoc)
  also have "byte c \<in> \<dots> \<longleftrightarrow> is_alnum c"
    by (simp add: char_class_defs) arith
  finally show ?thesis .
qed

lemma index_byte_nth: "distinct s \<Longrightarrow> i < length s \<Longrightarrow> index_byte (s ! i) s = Some i"
proof (induction s arbitrary: i)
  case (Cons x s)
  then show ?case by (cases i) auto
qed simp

lemma alphabet_index: "i < 62 \<Longrightarrow> index_byte (alphabet ! i) alphabet = Some i"
proof (rule index_byte_nth)
  have "distinct alphabet_codes" by (auto simp: alphabet_codes_def)
  then show "distinct alphabet" by (simp add: distinct_map flip: alphabet_codes)
qed simp

lemma alnum_ascii: "is_alnum c \<Longrightarrow> byte c < 128"
  by (auto simp: char_class_defs)

lemma index_byte_Some: "index_byte c s = Some i \<Longrightarrow> i < length s \<and> s ! i = c"
  by (induction s arbitrary: i) (auto split: if_splits)

lemma index_byte_None: "index_byte c s = None \<longleftrightarrow> c \<notin> set s"
  by (induction s) auto

lemma mod62_bound: "unat (n mod 62 :: u64) < 62"
  by (simp add: unat_mod)

section \<open>Positional notation\<close>

text \<open>The specification: the base-62 digits of a number, most significant first, and their value.\<close>

fun digits62 :: "nat \<Rightarrow> nat list" where
  "digits62 k = (if k = 0 then [] else digits62 (k div 62) @ [k mod 62])"

declare digits62.simps [simp del]

definition value62 :: "nat \<Rightarrow> nat list \<Rightarrow> nat" where
  "value62 a ds = foldl (\<lambda>n d. n * 62 + d) a ds"

lemma value62_simps [simp]:
  "value62 a [] = a"
  "value62 a (d # ds) = value62 (a * 62 + d) ds"
  "value62 a (ds @ [d]) = value62 a ds * 62 + d"
  by (simp_all add: value62_def)

lemma value62_digits62: "value62 0 (digits62 k) = k"
proof (induction k rule: digits62.induct)
  case (1 k)
  then show ?case
    by (cases "k = 0") (simp_all add: digits62.simps [of k] digits62.simps [of 0] div_mult_mod_eq)
qed

lemma digits62_bound: "d \<in> set (digits62 k) \<Longrightarrow> d < 62"
proof (induction k rule: digits62.induct)
  case (1 k)
  then show ?case
    by (cases "k = 0") (auto simp: digits62.simps [of k] digits62.simps [of 0])
qed

lemma length_digits62: "length (digits62 k) \<le> m \<longleftrightarrow> k < 62 ^ m"
proof (induction k arbitrary: m rule: digits62.induct)
  case (1 k)
  show ?case
  proof (cases "k = 0")
    case True then show ?thesis by (simp add: digits62.simps)
  next
    case False
    show ?thesis
    proof (cases m)
      case 0 with False show ?thesis by (simp add: digits62.simps [of k])
    next
      case (Suc m')
      have "length (digits62 (k div 62)) \<le> m' \<longleftrightarrow> k div 62 < 62 ^ m'" using 1 False by blast
      also have "\<dots> \<longleftrightarrow> k < 62 ^ m' * 62" by (simp add: div_less_iff_less_mult)
      finally show ?thesis using False Suc by (simp add: digits62.simps [of k] mult.commute)
    qed
  qed
qed

lemma encode_loop_digits:
  "encode_loop n buf = map (\<lambda>d. alphabet ! d) (digits62 (unat n)) @ buf"
proof (induction n buf rule: encode_loop.induct)
  case (1 n buf)
  show ?case
  proof (cases "0 < n")
    case True
    then have "unat n \<noteq> 0" by (simp add: unat_gt_0 flip: word_gt_0)
    with 1 True show ?thesis
      by (simp add: encode_loop.simps [of n buf] digits62.simps [of "unat n"] unat_div unat_mod)
  next
    case False
    then have "n = 0" by (simp add: word_gt_0)
    then show ?thesis by (simp add: encode_loop.simps digits62.simps)
  qed
qed

lemma decode_loop_digits:
  assumes "\<forall>d\<in>set ds. d < 62"
  shows "decode_loop (map (\<lambda>d. byte (alphabet ! d)) ds) (of_nat a) = Inr (of_nat (value62 a ds))"
  using assms
proof (induction ds arbitrary: a)
  case Nil
  then show ?case by simp
next
  case (Cons d ds)
  then have "byte (alphabet ! d) < 128"
    by (intro alnum_ascii) (simp flip: alphabet_alnum)
  with Cons.prems Cons.IH [of "a * 62 + d"] show ?case
    by (simp add: index_rune_def alphabet_index)
qed

lemma unat_offset: "unat offset = 62 ^ 6"
  by (simp add: offset_def)

lemma Encode_digits:
  "Encode i = (if i + offset = 0 then ''0'' else map (\<lambda>d. alphabet ! d) (digits62 (unat (i + offset))))"
  by (simp add: Encode_def Let_def encode_loop_digits) (simp add: alphabet_def)

lemma set_Encode: "set (Encode i) \<subseteq> {c. is_alnum c}"
proof -
  have "is_alnum (CHR ''0'')" by (simp add: char_class_defs)
  moreover have "is_alnum (alphabet ! d)" if "d \<in> set (digits62 k)" for d k
    using digits62_bound [OF that] by (simp flip: alphabet_alnum)
  ultimately show ?thesis by (auto simp: Encode_digits)
qed

lemma is_ascii_Encode: "is_ascii (Encode i)"
  using set_Encode [of i] alnum_ascii by (auto simp: is_ascii_def)

lemma Encode_nonempty: "Encode i \<noteq> []"
proof (cases "i + offset = 0")
  case False
  then have "unat (i + offset) \<noteq> 0" by (simp add: unat_eq_zero)
  with False show ?thesis by (simp add: Encode_digits digits62.simps [of "unat (i + offset)"])
qed (simp add: Encode_digits)

lemma decode_loop_Encode: "decode_loop (map fst (runes (Encode i))) 0 = Inr (i + offset)"
proof -
  have runes: "map fst (runes (Encode i)) = map byte (Encode i)"
    using is_ascii_Encode [of i] by (simp add: runes_ascii)
  show ?thesis
  proof (cases "i + offset = 0")
    case True
    have "index_rune alphabet 48 = Some 0" by (simp add: index_rune_def alphabet_def flip: of_char_eq_iff [where 'a = nat])
    with True show ?thesis by (simp add: runes Encode_digits)
  next
    case False
    have "decode_loop (map (\<lambda>d. byte (alphabet ! d)) (digits62 (unat (i + offset)))) (of_nat 0)
      = Inr (of_nat (value62 0 (digits62 (unat (i + offset)))))"
      by (rule decode_loop_digits) (blast intro: digits62_bound)
    with False show ?thesis unfolding runes by (simp add: Encode_digits comp_def value62_digits62)
  qed
qed

text \<open>The sum wraps exactly when it comes out below the offset.\<close>

lemma unat_sum_offset:
  "unat (i + offset) = (if unat i + 62 ^ 6 < 2 ^ 64 then unat i + 62 ^ 6 else unat i + 62 ^ 6 - 2 ^ 64)"
proof -
  have "unat (i + offset) = (unat i + 62 ^ 6) mod 2 ^ 64"
    by (simp add: unat_word_ariths unat_offset)
  also have "\<dots> = (if unat i + 62 ^ 6 < 2 ^ 64 then unat i + 62 ^ 6 else unat i + 62 ^ 6 - 2 ^ 64)"
    using u64_bound [of i] by (auto simp: mod_if)
  finally show ?thesis .
qed

lemma offset_wraps: "i + offset < offset \<longleftrightarrow> 2 ^ 64 \<le> unat i + 62 ^ 6"
  using u64_bound [of i] unfolding word_less_nat_alt unat_offset unat_sum_offset
  by (auto split: if_splits)

section \<open>Properties\<close>

text \<open>C25: decoding an encoded id gives the id back, for every id whose sum with the offset
  fits a uint64; for the others the sum wraps and \<open>Decode\<close> reports an underflow.\<close>

theorem Decode_Encode:
  "Decode (Encode i) =
     (if unat i + 62 ^ 6 < 2 ^ 64 then Inr i else Inl (Plain ''hash: value underflows offset''))"
  using offset_wraps [of i] Encode_nonempty [of i]
  by (auto simp: Decode_def decode_loop_Encode)

text \<open>The encoding is injective on all of uint64: no two ids share a hash.\<close>

theorem Encode_inj: "inj Encode"
proof (rule injI)
  fix i j assume "Encode i = Encode j"
  then have "(Inr (i + offset) :: goerr + u64) = Inr (j + offset)"
    by (metis decode_loop_Encode)
  then show "i = j" by simp
qed

lemma length_Encode: "0 < m \<Longrightarrow> length (Encode i) \<le> m \<longleftrightarrow> unat (i + offset) < 62 ^ m"
  by (simp add: Encode_digits length_digits62 Suc_le_eq)

lemma length_Encode_7: "length (Encode i) = 7 \<longleftrightarrow> unat i < 61 * 62 ^ 6"
proof -
  have "length (Encode i) = 7 \<longleftrightarrow> length (Encode i) \<le> 7 \<and> \<not> length (Encode i) \<le> 6" by arith
  also have "\<dots> \<longleftrightarrow> unat (i + offset) < 62 ^ 7 \<and> \<not> unat (i + offset) < 62 ^ 6"
    using length_Encode [of 7 i] length_Encode [of 6 i] by simp
  also have "\<dots> \<longleftrightarrow> unat i < 61 * 62 ^ 6"
    using u64_bound [of i] unfolding unat_sum_offset by auto
  finally show ?thesis .
qed

text \<open>C26: a hash is made of base-62 characters only and has exactly seven of them precisely for
  the ids below 61 * 62^6; it never overruns the 16-byte buffer of \<open>Encode\<close>.\<close>

theorem Encode_shape:
  "set (Encode i) \<subseteq> {c. is_alnum c} \<and> length (Encode i) \<le> 16 \<and>
   (length (Encode i) = 7 \<longleftrightarrow> unat i < 61 * 62 ^ 6)"
proof (intro conjI)
  show "set (Encode i) \<subseteq> {c. is_alnum c}" by (rule set_Encode)
  have "unat (i + offset) < 62 ^ 16" using u64_bound [of "i + offset"] by simp
  then show "length (Encode i) \<le> 16" by (simp add: length_Encode)
  show "length (Encode i) = 7 \<longleftrightarrow> unat i < 61 * 62 ^ 6" by (rule length_Encode_7)
qed

end
