(* ===== verification/Anonymize.thy ===== *)
theory Anonymize
  imports GoNetText
begin

text \<open>
  \<open>internal/analytics/anonymize.go\<close>: the address of a client, cut to its network before it
  is stored with a click or a report.
\<close>

definition AnonymizeIP :: "string \<Rightarrow> string" where
  "AnonymizeIP ip =
     (if ip = [] then []
      else case ParseIP ip of
             None \<Rightarrow> []
           | Some p \<Rightarrow>
               (case to4 p of
                  Some p4 \<Rightarrow> ip_string (p4[3 := 0])
                | None \<Rightarrow> ip_string (foldl (\<lambda>p16 i. p16[i := 0]) p [8..<16])))"

text \<open>The specification, on the sixteen bytes of a parsed address: /24 of an IPv4 address, /64 of an IPv6 one.\<close>

definition anon_bytes :: "ip \<Rightarrow> ip" where
  "anon_bytes ip = (if take 12 ip = v4_in_v6_prefix then take 15 ip @ [0] else take 8 ip @ replicate 8 0)"

lemma zero_host_loop:
  assumes "length ip = 16"
  shows "foldl (\<lambda>p i. p[i := 0]) ip [8..<16] = take 8 ip @ replicate 8 (0 :: u8)"
  using length16 [OF assms] by (auto simp: upt_rec_numeral numeral_eq_Suc)

lemma zero_last_octet: "length ip = 16 \<Longrightarrow> take 12 ip = v4_in_v6_prefix \<Longrightarrow>
  v4_in_v6_prefix @ (drop 12 ip)[3 := 0] = take 15 ip @ [0 :: u8]"
  using length16 [of ip] by (auto simp: numeral_eq_Suc)

lemma length_anon_bytes: "length ip = 16 \<Longrightarrow> length (anon_bytes ip) = 16"
  by (simp add: anon_bytes_def)

text \<open>What is stored is the printed form of the masked address.\<close>

lemma AnonymizeIP_bytes:
  "AnonymizeIP s = (case ParseIP s of None \<Rightarrow> [] | Some ip \<Rightarrow> ip_string (anon_bytes ip))"
proof (cases "ParseIP s")
  case (Some ip)
  then have len: "length ip = 16" by (rule ParseIP_length)
  have s: "s \<noteq> []" using Some by auto
  show ?thesis
  proof (cases "take 12 ip = v4_in_v6_prefix")
    case True
    let ?b = "(drop 12 ip)[3 := 0]"
    have b: "length ?b = 4" using len by simp
    have "anon_bytes ip = v4_in_v6_prefix @ ?b"
      using True len by (simp add: anon_bytes_def zero_last_octet)
    with b have "ip_string ?b = ip_string (anon_bytes ip)" by (simp add: ip_string_def to4_def)
    with s Some True len show ?thesis by (simp add: AnonymizeIP_def to4_16)
  next
    case False
    with s Some len zero_host_loop [OF len] show ?thesis
      by (simp add: AnonymizeIP_def to4_16 anon_bytes_def)
  qed
qed (simp add: AnonymizeIP_def)

lemma anon_bytes_idem: "length ip = 16 \<Longrightarrow> anon_bytes (anon_bytes ip) = anon_bytes ip"
  by (auto simp: anon_bytes_def v4_in_v6_prefix_def take_Cons' numeral_eq_Suc)

lemma ParseIP_AnonymizeIP: "ParseIP (AnonymizeIP s) = map_option anon_bytes (ParseIP s)"
  by (auto simp: AnonymizeIP_bytes ParseIP_ip_string length_anon_bytes dest: ParseIP_length
      split: option.split)

lemma AnonymizeIP_idem: "AnonymizeIP (AnonymizeIP s) = AnonymizeIP s"
proof (cases "ParseIP s")
  case None
  then show ?thesis by (simp add: AnonymizeIP_bytes)
next
  case (Some ip)
  then have len: "length ip = 16" by (rule ParseIP_length)
  with Some show ?thesis
    by (simp add: AnonymizeIP_bytes ParseIP_ip_string length_anon_bytes anon_bytes_idem)
qed

section \<open>Properties\<close>


text \<open>Two clients are stored under the same text exactly when they share their /24 (IPv4)
  or /64 (IPv6) network, or when neither address parses; anonymizing again changes nothing.\<close>

theorem AnonymizeIP_network:
  "(AnonymizeIP s = AnonymizeIP t \<longleftrightarrow> map_option anon_bytes (ParseIP s) = map_option anon_bytes (ParseIP t)) \<and>
   AnonymizeIP (AnonymizeIP s) = AnonymizeIP s"
proof -
  have "AnonymizeIP x = (case map_option anon_bytes (ParseIP x) of None \<Rightarrow> [] | Some b \<Rightarrow> ip_string b)" for x
    by (simp add: AnonymizeIP_bytes split: option.split)
  then show ?thesis by (metis ParseIP_AnonymizeIP AnonymizeIP_idem)
qed

end
