(* ===== verification/Services.thy ===== *)
theory Services
  imports Base62 Anonymize Validator
begin

text \<open>
  \<open>internal/service\<close>: shortening, redirecting, abuse reports and analytics. A service holds
  the interfaces it was built with; each Go interface is a record of operations over a state,
  so that any implementation can be plugged in. A context is its deadline; that a call was
  cancelled is one of the errors the call may return.
\<close>

section \<open>Interfaces\<close>

type_synonym ctx = "time option"

text \<open>What a method with results \<open>(*T, error)\<close> returns on both: each may be \<open>nil\<close>.\<close>

record 's URLReader =
  ur_FindByHash :: "string \<Rightarrow> ('s, goerr + url) call"
  ur_UpdateLastAccessed :: "u64 \<Rightarrow> ('s, goerr + unit) call"

record 's URLCache =
  ch_Get :: "string \<Rightarrow> ('s, goerr + (string \<times> string \<times> u64)) call"
  ch_Set :: "string \<Rightarrow> string \<Rightarrow> string \<Rightarrow> u64 \<Rightarrow> duration \<Rightarrow> ('s, goerr + unit) call"
  ch_Delete :: "string \<Rightarrow> ('s, goerr + unit) call"

record 's URLRepository =
  rp_Create :: "url \<Rightarrow> ('s, goerr + url) call"
  rp_UpdateHash :: "u64 \<Rightarrow> string \<Rightarrow> ('s, goerr + unit) call"
  rp_UpdateVTResult :: "u64 \<Rightarrow> scan_result \<Rightarrow> ('s, goerr + unit) call"
  rp_FindByOriginalURL :: "string \<Rightarrow> ('s, goerr + url) call"

record 's URLScanner =
  sc_Scan :: "ctx \<Rightarrow> string \<Rightarrow> ('s, scan_result \<times> goerr option) call"

record 's ReportURLRepository =
  ru_FindByHash :: "string \<Rightarrow> ('s, goerr + url) call"
  ru_UpdateVTStatus :: "u64 \<Rightarrow> string \<Rightarrow> ('s, goerr + unit) call"

record 's ReportRepository =
  rr_Insert :: "report \<Rightarrow> ('s, goerr + report) call"
  rr_CountDistinctIPsByURLID :: "u64 \<Rightarrow> ('s, goerr + int) call"

record 's ReportCacheDeleter =
  rc_Delete :: "string \<Rightarrow> ('s, goerr + unit) call"

record 's URLFinder =
  uf_FindByHash :: "string \<Rightarrow> ('s, goerr + url) call"

record 's ClickReader =
  cr_CountByURLID :: "u64 \<Rightarrow> ('s, goerr + int) call"
  cr_GroupByDay :: "u64 \<Rightarrow> int \<Rightarrow> ('s, goerr + daily_count list) call"
  cr_TopUserAgents :: "u64 \<Rightarrow> int \<Rightarrow> ('s, goerr + user_agent_count list) call"

text \<open>The text tables and the IDNA profile, and the clock: \<open>time.Now\<close>.\<close>

record lib =
  lib_uc :: unicode_tables
  lib_idna :: "string \<Rightarrow> string option"

type_synonym 's clock = "'s \<Rightarrow> time"

text \<open>\<open>time.Duration(days) * 24 * time.Hour\<close>, and \<open>t.AddDate(0, 0, days)\<close> in UTC.\<close>

definition days_duration :: "int \<Rightarrow> duration" where
  "days_duration days = int64 (int64 (days * 24) * hour)"

definition AddDate_days :: "time \<Rightarrow> int \<Rightarrow> time" where
  "AddDate_days t days = t + days * (24 * hour)"

text \<open>\<open>context.WithTimeout\<close>: the earlier of the parent's deadline and the new one.\<close>

definition WithTimeout :: "ctx \<Rightarrow> time \<Rightarrow> duration \<Rightarrow> ctx" where
  "WithTimeout ctx t d = Some (case ctx of None \<Rightarrow> t + d | Some dl \<Rightarrow> min dl (t + d))"

section \<open>\<open>shortener.go\<close>\<close>

record 's shortenerService =
  sh_repo :: "'s URLRepository"
  sh_cache :: "'s URLCache option"
  sh_scan :: "'s URLScanner"
  sh_baseURL :: string
  sh_urlExpirationDays :: int
  sh_vtTimeout :: duration

definition NewShortenerService ::
  "'s URLRepository \<Rightarrow> 's URLCache option \<Rightarrow> 's URLScanner \<Rightarrow> string \<Rightarrow> int \<Rightarrow> duration \<Rightarrow> 's shortenerService" where
  "NewShortenerService repo cache scan baseURL urlExpirationDays vtTimeout =
     \<lparr>sh_repo = repo, sh_cache = cache, sh_scan = scan, sh_baseURL = baseURL,
      sh_urlExpirationDays = urlExpirationDays, sh_vtTimeout = vtTimeout\<rparr>"

type_synonym shorten_result = "url option \<times> scan_result \<times> goerr option"

definition shorten_err :: "scan_result \<Rightarrow> goerr \<Rightarrow> shorten_result" where
  "shorten_err r e = (None, r, Some e)"

text \<open>From the row's id on: hash, scan result and cache entry. Only the hash can fail the request.\<close>

definition shorten_finish ::
  "'s shortenerService \<Rightarrow> string \<Rightarrow> scan_result \<Rightarrow> url \<Rightarrow> ('s, shorten_result) call" where
  "shorten_finish svc normalized result u s =
     (let h = Encode (u_ID u) in
      case rp_UpdateHash (sh_repo svc) (u_ID u) h s of
        (Inl e, s1) \<Rightarrow> (shorten_err zero_scan_result (Wrapf ''shortener: update hash: %w'' [] e), s1)
      | (Inr _, s1) \<Rightarrow>
          (case rp_UpdateVTResult (sh_repo svc) (u_ID u) result s1 of (_, s2) \<Rightarrow>
             let u' = u\<lparr>u_Hash := h, u_VTStatus := sr_Status result\<rparr>;
                 s3 = (case sh_cache svc of None \<Rightarrow> s2
                   | Some c \<Rightarrow> snd (ch_Set c h normalized (u_VTStatus u') (u_ID u')
                                     (days_duration (sh_urlExpirationDays svc)) s2))
             in ((Some u', result, None), s3)))"

definition shorten_new ::
  "'s clock \<Rightarrow> 's shortenerService \<Rightarrow> ctx \<Rightarrow> string \<Rightarrow> ('s, shorten_result) call" where
  "shorten_new now svc ctx normalized s =
     (case sc_Scan (sh_scan svc) (WithTimeout ctx (now s) (sh_vtTimeout svc)) normalized s of
        ((result, _), s1) \<Rightarrow>
          if sr_Status result = ScanMalicious then (shorten_err result (Sentinel ErrURLMalicious), s1)
          else let expiresAt = AddDate_days (now s1) (sh_urlExpirationDays svc);
                   u = zero_url\<lparr>u_OriginalURL := normalized, u_ExpiresAt := Some expiresAt\<rparr>
            in case rp_Create (sh_repo svc) u s1 of
                 (Inl e, s2) \<Rightarrow> (shorten_err zero_scan_result (Wrapf ''shortener: create: %w'' [] e), s2)
               | (Inr u', s2) \<Rightarrow> shorten_finish svc normalized result u' s2)"

definition Shorten ::
  "lib \<Rightarrow> 's clock \<Rightarrow> 's shortenerService \<Rightarrow> ctx \<Rightarrow> string \<Rightarrow> ('s, shorten_result) call" where
  "Shorten lib now svc ctx longURL s =
     (case NormalizeURL (lib_uc lib) longURL of
        Inl _ \<Rightarrow> (shorten_err zero_scan_result (Wrapf ''shortener: normalize: %w'' [] (Sentinel ErrInvalidURL)), s)
      | Inr normalized \<Rightarrow>
          (case ValidateURL (lib_uc lib) (lib_idna lib) normalized (sh_baseURL svc) of
             Inl e \<Rightarrow> (shorten_err zero_scan_result e, s)
           | Inr _ \<Rightarrow>
               (case rp_FindByOriginalURL (sh_repo svc) normalized s of
                  (Inr existing, s1) \<Rightarrow>
                    ((Some existing, zero_scan_result\<lparr>sr_Status := u_VTStatus existing\<rparr>, None), s1)
                | (Inl e, s1) \<Rightarrow>
                    if \<not> err_is e ErrURLNotFound
                    then (shorten_err zero_scan_result (Wrapf ''shortener: dedup check: %w'' [] e), s1)
                    else shorten_new now svc ctx normalized s1)))"

section \<open>\<open>redirector.go\<close>\<close>

record 's redirectorService =
  rs_repo :: "'s URLReader"
  rs_cache :: "'s URLCache option"
  rs_cacheTTL :: duration

definition NewRedirectorService :: "'s URLReader \<Rightarrow> 's URLCache option \<Rightarrow> int \<Rightarrow> 's redirectorService" where
  "NewRedirectorService repo cache cacheTTLDays =
     \<lparr>rs_repo = repo, rs_cache = cache, rs_cacheTTL = days_duration cacheTTLDays\<rparr>"

type_synonym resolve_result = "url option \<times> goerr option"

text \<open>The part that reads the database: after a miss, or when there is no cache.\<close>

definition resolve_db :: "'s clock \<Rightarrow> 's redirectorService \<Rightarrow> string \<Rightarrow> ('s, resolve_result) call" where
  "resolve_db now svc h s =
     (case ur_FindByHash (rs_repo svc) h s of
        (Inl e, s1) \<Rightarrow> ((None, Some (Wrapf ''redirector: find: %w'' [] e)), s1)
      | (Inr u, s1) \<Rightarrow>
          if (case u_ExpiresAt u of None \<Rightarrow> False | Some t \<Rightarrow> t < now s1)
          then ((None, Some (Sentinel ErrURLExpired)), s1)
          else if (case parse_url (u_OriginalURL u) of None \<Rightarrow> True
                   | Some parsed \<Rightarrow> url_Scheme parsed \<noteq> ''http'' \<and> url_Scheme parsed \<noteq> ''https'')
          then ((None, Some (Sentinel ErrInvalidURL)), s1)
          else if u_VTStatus u = ScanMalicious
          then ((Some u, Some (Sentinel ErrURLMalicious)),
                case rs_cache svc of None \<Rightarrow> s1 | Some c \<Rightarrow> snd (ch_Delete c h s1))
          else ((Some u, None),
                case rs_cache svc of None \<Rightarrow> s1
                | Some c \<Rightarrow> snd (ch_Set c h (u_OriginalURL u) (u_VTStatus u) (u_ID u) (rs_cacheTTL svc) s1)))"

definition Resolve :: "'s clock \<Rightarrow> 's redirectorService \<Rightarrow> string \<Rightarrow> ('s, resolve_result) call" where
  "Resolve now svc h s =
     (case rs_cache svc of
        None \<Rightarrow> resolve_db now svc h s
      | Some c \<Rightarrow>
          (case ch_Get c h s of
             (Inr (originalURL, vtStatus, urlID), s1) \<Rightarrow>
               if vtStatus = ScanMalicious
               then ((Some (zero_url\<lparr>u_Hash := h, u_VTStatus := vtStatus\<rparr>), Some (Sentinel ErrURLMalicious)),
                     snd (ch_Delete c h s1))
               else ((Some (zero_url\<lparr>u_Hash := h, u_OriginalURL := originalURL, u_ID := urlID,
                                     u_VTStatus := vtStatus\<rparr>), None), s1)
           | (Inl e, s1) \<Rightarrow> resolve_db now svc h s1))"

section \<open>\<open>report.go\<close>\<close>

record 's reportService =
  rt_urlRepo :: "'s ReportURLRepository"
  rt_reportRepo :: "'s ReportRepository"
  rt_cache :: "'s ReportCacheDeleter"
  rt_threshold :: int

definition NewReportService ::
  "'s ReportURLRepository \<Rightarrow> 's ReportRepository \<Rightarrow> 's ReportCacheDeleter \<Rightarrow> int \<Rightarrow> 's reportService" where
  "NewReportService urlRepo reportRepo cache threshold =
     \<lparr>rt_urlRepo = urlRepo, rt_reportRepo = reportRepo, rt_cache = cache, rt_threshold = threshold\<rparr>"

definition stripPort :: "string \<Rightarrow> string" where
  "stripPort addr = (case split_host_port addr of None \<Rightarrow> addr | Some (host, _) \<Rightarrow> host)"

text \<open>What follows a stored report: counting, and the block once the threshold is reached.\<close>

definition report_count :: "'s reportService \<Rightarrow> string \<Rightarrow> u64 \<Rightarrow> 's \<Rightarrow> 's" where
  "report_count svc h uid s =
     (case rr_CountDistinctIPsByURLID (rt_reportRepo svc) uid s of
        (Inl _, s1) \<Rightarrow> s1
      | (Inr count, s1) \<Rightarrow>
          if rt_threshold svc \<le> count
          then snd (rc_Delete (rt_cache svc) h (snd (ru_UpdateVTStatus (rt_urlRepo svc) uid ''malicious'' s1)))
          else s1)"

definition Report :: "'s reportService \<Rightarrow> string \<Rightarrow> string \<Rightarrow> string \<Rightarrow> ('s, goerr option) call" where
  "Report svc h reporterIP reason s =
     (case ru_FindByHash (rt_urlRepo svc) h s of
        (Inl e, s1) \<Rightarrow> (Some e, s1)
      | (Inr u, s1) \<Rightarrow>
          if \<not> IsValidReason reason then (Some (Sentinel ErrInvalidReason), s1)
          else let anonIP = AnonymizeIP (stripPort reporterIP);
                   rep = \<lparr>r_ID = 0, r_URLID = u_ID u, r_ReporterIP = anonIP, r_Reason = reason, r_CreatedAt = zero_time\<rparr>
            in case rr_Insert (rt_reportRepo svc) rep s1 of
                 (Inl e, s2) \<Rightarrow>
                   (if err_is e ErrDuplicateReport then (Some (Sentinel ErrDuplicateReport), s2) else (Some e, s2))
               | (Inr _, s2) \<Rightarrow> (None, report_count svc h (u_ID u) s2))"

section \<open>\<open>analytics.go\<close>\<close>

record stats =
  st_TotalClicks :: int
  st_ClicksByDay :: "daily_count list"
  st_TopUserAgents :: "user_agent_count list"

record 's analyticsService =
  as_urlRepo :: "'s URLFinder"
  as_clickRepo :: "'s ClickReader"

definition NewAnalyticsService :: "'s URLFinder \<Rightarrow> 's ClickReader \<Rightarrow> 's analyticsService" where
  "NewAnalyticsService urlRepo clickRepo = \<lparr>as_urlRepo = urlRepo, as_clickRepo = clickRepo\<rparr>"

definition GetStats :: "'s analyticsService \<Rightarrow> string \<Rightarrow> ('s, goerr + stats) call" where
  "GetStats svc h s =
     (case uf_FindByHash (as_urlRepo svc) h s of
        (Inl e, s1) \<Rightarrow> (Inl (Wrapf ''analytics: find url: %w'' [] e), s1)
      | (Inr u, s1) \<Rightarrow>
     (case cr_CountByURLID (as_clickRepo svc) (u_ID u) s1 of
        (Inl e, s2) \<Rightarrow> (Inl (Wrapf ''analytics: count clicks: %w'' [] e), s2)
      | (Inr n, s2) \<Rightarrow>
     (case cr_GroupByDay (as_clickRepo svc) (u_ID u) 30 s2 of
        (Inl e, s3) \<Rightarrow> (Inl (Wrapf ''analytics: group by day: %w'' [] e), s3)
      | (Inr byDay, s3) \<Rightarrow>
     (case cr_TopUserAgents (as_clickRepo svc) (u_ID u) 5 s3 of
        (Inl e, s4) \<Rightarrow> (Inl (Wrapf ''analytics: top user agents: %w'' [] e), s4)
      | (Inr topAgents, s4) \<Rightarrow>
          (Inr \<lparr>st_TotalClicks = n, st_ClicksByDay = byDay, st_TopUserAgents = topAgents\<rparr>, s4)))))"

end
