(* ===== verification/Http.thy ===== *)
theory Http
  imports GoErrors JSONDecoder Services
begin

text \<open>
  The part of \<open>net/http\<close> the handlers use: requests, the response writer with its header map and
  what has been sent of it, and handlers as calls that return or panic. The log lines of the
  request logger are kept beside the state.
\<close>

section \<open>Headers\<close>

text \<open>\<open>textproto.CanonicalMIMEHeaderKey\<close> on keys of token characters.\<close>

fun canonical_loop :: "bool \<Rightarrow> string \<Rightarrow> string" where
  "canonical_loop upper [] = []"
| "canonical_loop upper (c # s) =
     (if upper \<and> is_lower c then char_of (byte c - 32) else if \<not> upper then ascii_lower c else c)
       # canonical_loop (c = CHR ''-'') s"

definition canonical_key :: "string \<Rightarrow> string" where
  "canonical_key k = canonical_loop True k"

type_synonym header = "string \<Rightarrow> string list"

definition header_get :: "header \<Rightarrow> string \<Rightarrow> string" where
  "header_get h k = (case h (canonical_key k) of [] \<Rightarrow> [] | v # _ \<Rightarrow> v)"

definition header_set :: "string \<Rightarrow> string \<Rightarrow> header \<Rightarrow> header" where
  "header_set k v h = h(canonical_key k := [v])"

lemma header_get_set [simp]:
  "header_get (header_set k v h) k' = (if canonical_key k = canonical_key k' then v else header_get h k')"
  by (simp add: header_get_def header_set_def)

section \<open>Requests and responses\<close>

text \<open>A request: \<open>chi.URLParam(r, "hash")\<close>, the deadline and the id that its context carries are fields.\<close>

record request =
  rq_Method :: string
  rq_Path :: string
  rq_RemoteAddr :: string
  rq_Header :: header
  rq_Body :: body
  rq_hash :: string
  rq_ctx :: ctx
  rq_request_id :: "string option"

text \<open>The header map may still change after the status line and a copy of it have been sent.\<close>

record writer =
  wr_header :: header
  wr_sent :: "(int \<times> header) option"
  wr_body :: string

definition new_writer :: writer where
  "new_writer = \<lparr>wr_header = (\<lambda>_. []), wr_sent = None, wr_body = []\<rparr>"

definition Header_Set :: "string \<Rightarrow> string \<Rightarrow> writer \<Rightarrow> writer" where
  "Header_Set k v w = w\<lparr>wr_header := header_set k v (wr_header w)\<rparr>"

definition WriteHeader :: "int \<Rightarrow> writer \<Rightarrow> writer" where
  "WriteHeader code w = (case wr_sent w of Some _ \<Rightarrow> w | None \<Rightarrow> w\<lparr>wr_sent := Some (code, wr_header w)\<rparr>)"

definition Write :: "string \<Rightarrow> writer \<Rightarrow> writer" where
  "Write b w = (let w' = WriteHeader 200 w in w'\<lparr>wr_body := wr_body w' @ b\<rparr>)"

text \<open>\<open>json.NewEncoder(w).Encode(v)\<close>: the document and a newline.\<close>

definition Encode_json :: "json \<Rightarrow> writer \<Rightarrow> writer" where
  "Encode_json j w = Write (json_text j @ [CHR 0x0A]) w"

text \<open>What the client gets; a handler that writes nothing answers 200 with the headers it set.\<close>

definition response_status :: "writer \<Rightarrow> int" where
  "response_status w = (case wr_sent w of Some (code, _) \<Rightarrow> code | None \<Rightarrow> 200)"

definition response_header :: "writer \<Rightarrow> string \<Rightarrow> string" where
  "response_header w k = header_get (case wr_sent w of Some (_, h) \<Rightarrow> h | None \<Rightarrow> wr_header w) k"

lemma writer_sel [simp]:
  "wr_header (Header_Set k v w) = header_set k v (wr_header w)" "wr_sent (Header_Set k v w) = wr_sent w"
  "wr_body (Header_Set k v w) = wr_body w"
  "wr_header (WriteHeader c w) = wr_header w" "wr_body (WriteHeader c w) = wr_body w"
  "wr_header (Write b w) = wr_header w" "wr_body (Write b w) = wr_body w @ b"
  by (simp_all add: Header_Set_def WriteHeader_def Write_def Let_def split: option.split)

lemma wr_sent_writes [simp]:
  "wr_sent (WriteHeader c w) = (case wr_sent w of None \<Rightarrow> Some (c, wr_header w) | Some x \<Rightarrow> Some x)"
  "wr_sent (Write b w) = (case wr_sent w of None \<Rightarrow> Some (200, wr_header w) | Some x \<Rightarrow> Some x)"
  by (simp_all add: WriteHeader_def Write_def Let_def split: option.split)

section \<open>Handlers\<close>

text \<open>One line of the request logger.\<close>

record log_line =
  lg_method :: string
  lg_path :: string
  lg_status :: int
  lg_duration_ms :: int
  lg_request_id :: string
  lg_user_agent :: string

record 's conn =
  cn_w :: writer
  cn_state :: 's
  cn_log :: "log_line list"

text \<open>\<open>ServeHTTP\<close>: \<open>None\<close> when it returns, the panic's value when it panics.\<close>

type_synonym 's handler = "request \<Rightarrow> 's conn \<Rightarrow> string option \<times> 's conn"
type_synonym 's middleware = "'s handler \<Rightarrow> 's handler"

definition on_writer :: "(writer \<Rightarrow> writer) \<Rightarrow> 's conn \<Rightarrow> 's conn" where
  "on_writer f c = c\<lparr>cn_w := f (cn_w c)\<rparr>"

definition on_state :: "('s \<Rightarrow> 's) \<Rightarrow> 's conn \<Rightarrow> 's conn" where
  "on_state f c = c\<lparr>cn_state := f (cn_state c)\<rparr>"

lemma on_sel [simp]:
  "cn_w (on_writer f c) = f (cn_w c)" "cn_state (on_writer f c) = cn_state c" "cn_log (on_writer f c) = cn_log c"
  "cn_w (on_state g c) = cn_w c" "cn_state (on_state g c) = g (cn_state c)" "cn_log (on_state g c) = cn_log c"
  by (simp_all add: on_writer_def on_state_def)

definition serve_return :: "'s conn \<Rightarrow> string option \<times> 's conn" where
  "serve_return c = (None, c)"

end
