(* ===== verification/Middleware.thy ===== *)
theory Middleware
  imports Http Anonymize
begin

text \<open>
  \<open>internal/middleware\<close> apart from the rate limiter: each middleware takes the next handler and
  gives a handler. The CORS library, the stack trace and the random bytes are parameters.
\<close>

section \<open>\<open>sanitize.go\<close>\<close>

definition SanitizeLogValue :: "string \<Rightarrow> string" where
  "SanitizeLogValue s = str_map (\<lambda>r. if r < 32 \<or> r = 127 then None else Some r) s"

section \<open>\<open>security.go\<close>\<close>

definition SecurityHeaders :: "'s middleware" where
  "SecurityHeaders next r c =
     next r (on_writer (Header_Set ''Content-Security-Policy'' (''default-src '' @ [CHR 0x27] @ ''none'' @ [CHR 0x27])
       \<circ> Header_Set ''Referrer-Policy'' ''no-referrer''
       \<circ> Header_Set ''X-XSS-Protection'' ''1; mode=block''
       \<circ> Header_Set ''X-Frame-Options'' ''DENY''
       \<circ> Header_Set ''X-Content-Type-Options'' ''nosniff'') c)"

section \<open>\<open>body_limit.go\<close>\<close>

definition BodyLimit :: "int \<Rightarrow> 's middleware" where
  "BodyLimit maxBytes next r c = next (r\<lparr>rq_Body := MaxBytesReader maxBytes (rq_Body r)\<rparr>) c"

section \<open>\<open>content_type.go\<close>\<close>

text \<open>A JSON object with an error text and a code, as \<open>rateLimitError\<close> and its kin encode.\<close>

definition error_json :: "string \<Rightarrow> string \<Rightarrow> json" where
  "error_json msg code = JObj [(''error'', JStr msg), (''code'', JStr code)]"

definition RequireJSON :: "unicode_tables \<Rightarrow> 's middleware" where
  "RequireJSON uc next r c =
     (let ct = header_get (rq_Header r) ''Content-Type'' in
      if \<not> str_contains (to_lower uc ct) ''application/json''
      then serve_return (on_writer (Encode_json (error_json ''unsupported media type'' ''ERR_UNSUPPORTED_MEDIA_TYPE'')
             \<circ> WriteHeader 415 \<circ> Header_Set ''Content-Type'' ''application/json'') c)
      else next r c)"

section \<open>\<open>requestid.go\<close>\<close>

text \<open>\<open>hex.EncodeToString\<close>, and the UUID of 16 random bytes.\<close>

definition hex_encode :: "u8 list \<Rightarrow> string" where
  "hex_encode bs = concat (map (\<lambda>b. hex2 (unat b)) bs)"

definition generateRequestID :: "u8 list \<Rightarrow> string" where
  "generateRequestID rnd =
     (let b = rnd[6 := (rnd ! 6 AND 0x0F) OR 0x40, 8 := (rnd ! 8 AND 0x3F) OR 0x80]
      in hex_encode (take 4 b) @ ''-'' @ hex_encode (take 2 (drop 4 b)) @ ''-'' @ hex_encode (take 2 (drop 6 b)) @ ''-'' @
         hex_encode (take 2 (drop 8 b)) @ ''-'' @ hex_encode (drop 10 b))"

definition RequestID :: "u8 list \<Rightarrow> 's middleware" where
  "RequestID rnd next r c =
     (let i = generateRequestID rnd
      in next (r\<lparr>rq_request_id := Some i\<rparr>) (on_writer (Header_Set ''X-Request-ID'' i) c))"

definition GetRequestID :: "request \<Rightarrow> string" where
  "GetRequestID r = (case rq_request_id r of Some i \<Rightarrow> i | None \<Rightarrow> [])"

section \<open>\<open>recoverer.go\<close>\<close>

definition Recovery :: "(string \<Rightarrow> string) \<Rightarrow> bool \<Rightarrow> 's middleware" where
  "Recovery stack isDev next r c = (case next r c of
     (None, c') \<Rightarrow> (None, c')
   | (Some rec, c') \<Rightarrow>
       serve_return (on_writer
         (Encode_json (JObj ([(''error'', JStr ''internal server error''), (''code'', JStr ''ERR_INTERNAL'')] @
             (if isDev \<and> stack rec \<noteq> [] then [(''stack'', JStr (stack rec))] else [])))
          \<circ> WriteHeader 500 \<circ> Header_Set ''Content-Type'' ''application/json'') c'))"

section \<open>\<open>logger.go\<close>\<close>

text \<open>The wrapped writer knows the status that was sent, and 0 when none was. A panic logs nothing.\<close>

definition Logger :: "'s clock \<Rightarrow> 's middleware" where
  "Logger now next r c =
     (let start = now (cn_state c) in
      case next r c of
        (Some rec, c') \<Rightarrow> (Some rec, c')
      | (None, c') \<Rightarrow>
          serve_return (c'\<lparr>cn_log := cn_log c' @
            [\<lparr>lg_method = SanitizeLogValue (rq_Method r), lg_path = SanitizeLogValue (rq_Path r),
              lg_status = (case wr_sent (cn_w c') of Some (code, _) \<Rightarrow> code | None \<Rightarrow> 0),
              lg_duration_ms = (now (cn_state c') - start) div 1000000,
              lg_request_id = GetRequestID r,
              lg_user_agent = SanitizeLogValue (header_get (rq_Header r) ''User-Agent'')\<rparr>]\<rparr>))"

section \<open>\<open>cors.go\<close>\<close>

record cors_options =
  co_AllowedOrigins :: "string list"
  co_AllowedMethods :: "string list"
  co_AllowedHeaders :: "string list"
  co_MaxAge :: int

definition NewCORS :: "(cors_options \<Rightarrow> 's middleware) \<Rightarrow> string \<Rightarrow> 's middleware" where
  "NewCORS handler allowedOrigins =
     (let origins = filter (\<lambda>s. s \<noteq> []) (map trim_space (split_byte CHR '','' allowedOrigins));
          origins' = (if origins = [] then [''*''] else origins)
      in handler \<lparr>co_AllowedOrigins = origins', co_AllowedMethods = [''GET'', ''POST'', ''OPTIONS''],
           co_AllowedHeaders = [''Content-Type'', ''X-Request-ID''], co_MaxAge = 300\<rparr>)"

end
