(* ===== verification/MiddlewareLaws.thy ===== *)
theory MiddlewareLaws
  imports Middleware Validator
begin

text \<open>
  What the middleware promises on its own: log values without control characters, and request
  ids that are version 4 UUIDs.
\<close>

section \<open>Log values\<close>

lemma decode_encoded:
  assumes "s \<noteq> []" "decode_rune s = (r, w)"
  shows "decode_rune (encode_rune r @ y) = (r, length (encode_rune r))"
proof (cases "r = rune_error \<and> w = 1")
  case True
  then show ?thesis by (simp add: encode_rune_def rune_error_def decode_rune_def decode3_def cont_byte_def)
next
  case False
  from decode_rune_valid [OF assms(2,1) False, of y] decode_rune_width [OF assms] show ?thesis by (simp add: min_def)
qed

lemma encode_rune_nonempty [simp]: "encode_rune r \<noteq> []"
  by (simp add: encode_rune_def Let_def)

text \<open>The runes that a string consists of are read back from their encodings.\<close>

lemma runes_encoded:
  "set rs \<subseteq> set (map fst (runes s)) \<Longrightarrow> runes (concat (map encode_rune rs)) = map (\<lambda>r. (r, encode_rune r)) rs"
proof (induction rs)
  case (Cons r rs)
  have "\<exists>t w. t \<noteq> [] \<and> decode_rune t = (r, w)" if "r \<in> set (map fst (runes s))" for s
    using that
  proof (induction s rule: runes.induct)
    case (1 s)
    show ?case
    proof (cases "s = []")
      case False
      obtain r' w where d: "decode_rune s = (r', w)" by (cases "decode_rune s")
      then have "r = r' \<or> r \<in> set (map fst (runes (drop w s)))" using 1(2) runes_step [OF False d] by auto
      then show ?thesis using 1(1) [OF False refl] d False by auto
    qed (use 1 in simp)
  qed
  moreover have "r \<in> set (map fst (runes s))" using Cons.prems by simp
  ultimately obtain t w where "t \<noteq> []" "decode_rune t = (r, w)" by meson
  then have "decode_rune (encode_rune r @ y) = (r, length (encode_rune r))" for y by (rule decode_encoded)
  then show ?case using Cons runes_step [of "encode_rune r @ concat (map encode_rune rs)"] by simp
qed simp

definition log_safe :: "nat \<Rightarrow> bool" where
  "log_safe r \<longleftrightarrow> 32 \<le> r \<and> r \<noteq> 127"

lemma SanitizeLogValue_runes:
  "SanitizeLogValue s = concat (map encode_rune (filter log_safe (map fst (runes s))))"
proof -
  have "concat (map (\<lambda>(r, _). case (if r < 32 \<or> r = 127 then None else Some r) of None \<Rightarrow> [] | Some r' \<Rightarrow> encode_rune r') rs) =
      concat (map encode_rune (filter log_safe (map fst rs)))" for rs :: "(nat \<times> string) list"
    by (induction rs) (auto simp: log_safe_def)
  then show ?thesis by (simp add: SanitizeLogValue_def str_map_def)
qed

lemma SanitizeLogValue_idem: "SanitizeLogValue (SanitizeLogValue s) = SanitizeLogValue s"
proof -
  let ?rs = "filter log_safe (map fst (runes s))"
  have "runes (SanitizeLogValue s) = map (\<lambda>r. (r, encode_rune r)) ?rs"
    unfolding SanitizeLogValue_runes [of s] by (rule runes_encoded [of _ s]) auto
  then have "map fst (runes (SanitizeLogValue s)) = ?rs" by (simp add: comp_def)
  then show ?thesis by (simp add: SanitizeLogValue_runes)
qed

lemma SanitizeLogValue_bytes:
  assumes "ch \<in> set (SanitizeLogValue s)" shows "log_safe (byte ch)"
proof -
  from assms obtain r where r: "log_safe r" "ch \<in> set (encode_rune r)" by (auto simp: SanitizeLogValue_runes)
  show ?thesis
  proof (cases "r < 128")
    case True
    with r show ?thesis by (simp add: encode_rune_ascii)
  next
    case False
    then have "(128 :: nat) \<le> byte ch" using encode_rune_high [OF _ r(2)] by simp
    then show ?thesis by (simp add: log_safe_def)
  qed
qed

text \<open>C33: a value that is logged or stored as a user agent has no ASCII control character, so no header can break
  a log line; sanitising twice changes nothing more.\<close>

theorem SanitizeLogValue_safe:
  "filter (\<lambda>ch. byte ch < (32 :: nat) \<or> byte ch = (127 :: nat)) (SanitizeLogValue s) = [] \<and>
   SanitizeLogValue (SanitizeLogValue s) = SanitizeLogValue s"
proof -
  have "\<not> (byte ch < (32 :: nat) \<or> byte ch = (127 :: nat))" if "ch \<in> set (SanitizeLogValue s)" for ch
    using SanitizeLogValue_bytes [OF that] by (auto simp: log_safe_def)
  then show ?thesis using SanitizeLogValue_idem by (simp add: filter_empty_conv)
qed

section \<open>Request ids\<close>

text \<open>The sixteen bytes of the UUID: random but for the version and the variant.\<close>

definition uuid_bytes :: "u8 list \<Rightarrow> u8 list" where
  "uuid_bytes rnd = rnd[6 := (rnd ! 6 AND 0x0F) OR 0x40, 8 := (rnd ! 8 AND 0x3F) OR 0x80]"

lemma length_hex2 [simp]: "length (hex2 n) = 2"
  by (simp add: hex2_def)

lemma length_hex_encode [simp]: "length (hex_encode bs) = 2 * length bs"
  by (induction bs) (simp_all add: hex_encode_def)

lemma hex_digit_inject: "m < 16 \<Longrightarrow> n < 16 \<Longrightarrow> hex_digit m = hex_digit n \<Longrightarrow> m = n"
  by (simp add: hex_digit_def char_of_eq_iff take_bit_nat_eq_self split: if_splits)

lemma hex2_inject:
  assumes "m < 256" "n < 256" "hex2 m = hex2 n" shows "m = n"
proof -
  have "m div 16 mod 16 = n div 16 mod 16" "m mod 16 = n mod 16"
    using assms(3) by (auto simp: hex2_def intro: hex_digit_inject)
  then show ?thesis using assms(1,2) by (metis div_mult_mod_eq less_mult_imp_div_less mod_less numeral_times_numeral semiring_norm(12,13,14))
qed

lemma hex_encode_inject:
  "length bs = length bs' \<Longrightarrow> hex_encode bs = hex_encode bs' \<Longrightarrow> bs = bs'"
proof (induction bs bs' rule: list_induct2)
  case (Cons b bs b' bs')
  then have "hex2 (unat b) = hex2 (unat b')" "hex_encode bs = hex_encode bs'"
    by (simp_all add: hex_encode_def)
  with Cons.IH hex2_inject [OF u8_bound u8_bound] show ?case by (simp add: word_unat_eq_iff)
qed simp

lemma generateRequestID_bytes:
  "generateRequestID rnd = (let b = uuid_bytes rnd in hex_encode (take 4 b) @ ''-'' @ hex_encode (take 2 (drop 4 b)) @ ''-'' @
     hex_encode (take 2 (drop 6 b)) @ ''-'' @ hex_encode (take 2 (drop 8 b)) @ ''-'' @ hex_encode (drop 10 b))"
  by (simp add: generateRequestID_def uuid_bytes_def Let_def)

lemma nat_and_low: "(n :: nat) AND 15 = n mod 16" "(n :: nat) AND 63 = n mod 64"
  using take_bit_eq_mask [of 4 n] take_bit_eq_mask [of 6 n] by (simp_all add: take_bit_eq_mod mask_eq_exp_minus_1)

lemma or_disjoint: "m < 2 ^ k \<Longrightarrow> (m :: nat) OR 2 ^ k = m + 2 ^ k"
proof -
  assume "m < 2 ^ k"
  then have "m AND 2 ^ k = 0" by (simp add: and_exp_eq_0_iff_not_bit bit_iff_odd)
  then show ?thesis by (simp add: disjunctive_add_eq_or)
qed

lemma fixed_bits:
  "unat ((x AND 0x0F) OR 0x40 :: u8) = unat x mod 16 + 64" "unat ((x AND 0x3F) OR 0x80 :: u8) = unat x mod 64 + 128"
  using or_disjoint [of "unat x mod 16" 6] or_disjoint [of "unat x mod 64" 7]
  by (simp_all add: unsigned_or_eq unsigned_and_eq nat_and_low)

lemma hex_digit_values:
  "hex_digit 4 = CHR ''4''" "hex_digit 8 = CHR ''8''" "hex_digit 9 = CHR ''9''" "hex_digit 10 = CHR ''a''" "hex_digit 11 = CHR ''b''"
  by code_simp+

lemma version_digit: "hd (hex2 (unat ((x AND 0x0F) OR 0x40 :: u8))) = CHR ''4''"
proof -
  have "(unat x mod 16 + 64) div 16 = 4" by simp
  then show ?thesis by (simp add: hex2_def fixed_bits hex_digit_values)
qed

lemma variant_digit: "hd (hex2 (unat ((x AND 0x3F) OR 0x80 :: u8))) \<in> {CHR ''8'', CHR ''9'', CHR ''a'', CHR ''b''}"
proof -
  have "(unat x mod 64 + 128) div 16 = unat x mod 64 div 16 + 8" by simp
  moreover have "unat x mod 64 div 16 < 4" by simp
  ultimately have "(unat x mod 64 + 128) div 16 \<in> {8, 9, 10, 11}" by auto
  then show ?thesis unfolding hex2_def fixed_bits by (auto simp: hex_digit_values)
qed

lemma hex_encode_Cons: "hex_encode (b # bs) = hex2 (unat b) @ hex_encode bs"
  by (simp add: hex_encode_def)

lemma generateRequestID_inject:
  assumes "length r = 16" "length r' = 16" "generateRequestID r = generateRequestID r'"
  shows "uuid_bytes r = uuid_bytes r'"
proof -
  define b c where "b = uuid_bytes r" and "c = uuid_bytes r'"
  have len: "length b = 16" "length c = 16" using assms by (simp_all add: b_def c_def uuid_bytes_def)
  have "hex_encode (take 4 b) = hex_encode (take 4 c) \<and> hex_encode (take 2 (drop 4 b)) = hex_encode (take 2 (drop 4 c)) \<and>
      hex_encode (take 2 (drop 6 b)) = hex_encode (take 2 (drop 6 c)) \<and>
      hex_encode (take 2 (drop 8 b)) = hex_encode (take 2 (drop 8 c)) \<and> hex_encode (drop 10 b) = hex_encode (drop 10 c)"
    using assms(3) unfolding generateRequestID_bytes Let_def b_def [symmetric] c_def [symmetric] by (simp add: len)
  then have parts: "take 4 b = take 4 c" "take 2 (drop 4 b) = take 2 (drop 4 c)" "take 2 (drop 6 b) = take 2 (drop 6 c)"
    "take 2 (drop 8 b) = take 2 (drop 8 c)" "drop 10 b = drop 10 c"
    by (auto intro!: hex_encode_inject simp: len)
  have split: "xs = take 4 xs @ take 2 (drop 4 xs) @ take 2 (drop 6 xs) @ take 2 (drop 8 xs) @ drop 10 xs"
    if "length xs = 16" for xs :: "u8 list"
    using length16 [OF that] by auto
  have "b = c" using split [OF len(1)] split [OF len(2)] parts by metis
  then show ?thesis by (simp add: b_def c_def)
qed

text \<open>C34: a request id is a UUID in its canonical text: 36 characters, dashes at the four places, version 4 and
  the RFC variant; two requests share an id only if all the random bits of theirs agree.\<close>

theorem generateRequestID_uuid4:
  assumes "length rnd = 16" "length rnd' = 16"
  shows "length (generateRequestID rnd) = 36 \<and>
    map ((!) (generateRequestID rnd)) [8, 13, 18, 23] = ''----'' \<and> generateRequestID rnd ! 14 = CHR ''4'' \<and>
    generateRequestID rnd ! 19 \<in> {CHR ''8'', CHR ''9'', CHR ''a'', CHR ''b''} \<and>
    (generateRequestID rnd = generateRequestID rnd' \<longleftrightarrow> uuid_bytes rnd = uuid_bytes rnd')"
proof -
  have len: "length (uuid_bytes rnd) = 16" using assms(1) by (simp add: uuid_bytes_def)
  obtain a0 a1 a2 a3 a4 a5 a6 a7 a8 a9 a10 a11 a12 a13 a14 a15 where b:
    "uuid_bytes rnd = [a0, a1, a2, a3, a4, a5, a6, a7, a8, a9, a10, a11, a12, a13, a14, a15]"
    using length16 [OF len] by blast
  have a6: "a6 = (rnd ! 6 AND 0x0F) OR 0x40" and a8: "a8 = (rnd ! 8 AND 0x3F) OR 0x80"
    using arg_cong [OF b, of "\<lambda>xs. xs ! 6"] arg_cong [OF b, of "\<lambda>xs. xs ! 8"] assms(1) by (simp_all add: uuid_bytes_def)
  have two: "\<exists>p q. hex2 n = [p, q]" for n by (simp add: hex2_def)
  obtain p0 q0 p1 q1 p2 q2 p3 q3 where h1: "hex2 (unat a0) = [p0, q0]" "hex2 (unat a1) = [p1, q1]"
    "hex2 (unat a2) = [p2, q2]" "hex2 (unat a3) = [p3, q3]" using two by meson
  obtain p4 q4 p5 q5 p6 q6 p7 q7 where h2: "hex2 (unat a4) = [p4, q4]" "hex2 (unat a5) = [p5, q5]"
    "hex2 (unat a6) = [p6, q6]" "hex2 (unat a7) = [p7, q7]" using two by meson
  obtain p8 q8 p9 q9 where h3: "hex2 (unat a8) = [p8, q8]" "hex2 (unat a9) = [p9, q9]" using two by meson
  have id: "generateRequestID rnd = [p0, q0, p1, q1, p2, q2, p3, q3] @ ''-'' @ [p4, q4, p5, q5] @ ''-'' @
      [p6, q6, p7, q7] @ ''-'' @ [p8, q8, p9, q9] @ ''-'' @ hex_encode [a10, a11, a12, a13, a14, a15]"
    by (simp add: generateRequestID_bytes b h1 h2 h3 hex_encode_Cons) (simp add: hex_encode_def)
  have "p6 = CHR ''4''" using version_digit [of "rnd ! 6"] h2(3) by (simp add: a6)
  moreover have "p8 \<in> {CHR ''8'', CHR ''9'', CHR ''a'', CHR ''b''}" using variant_digit [of "rnd ! 8"] h3(1) by (simp add: a8)
  moreover have "uuid_bytes rnd = uuid_bytes rnd'" if "generateRequestID rnd = generateRequestID rnd'"
    using generateRequestID_inject [OF assms that] .
  moreover have "generateRequestID rnd = generateRequestID rnd'" if "uuid_bytes rnd = uuid_bytes rnd'"
    using that by (simp add: generateRequestID_bytes)
  ultimately show ?thesis by (auto simp: id)
qed

theorem generateRequestID_uuid4_witness:
  "length (generateRequestID (replicate 16 255)) = 36 \<and> generateRequestID (replicate 16 255) ! 14 = CHR ''4''"
  using generateRequestID_uuid4 [of "replicate 16 255" "replicate 16 255"] by simp

end
