(* ===== verification/RateLimit.thy ===== *)
theory RateLimit
  imports Middleware
begin

text \<open>
  \<open>internal/middleware/ratelimit.go\<close>: one limiter per client address, created on first use and
  dropped after ten idle minutes. \<open>golang.org/x/time/rate\<close> is a parameter: a new limiter for a
  rate and a burst, and \<open>Allow\<close> at a time; so is the type of rates, Go's \<open>float64\<close>.
\<close>

section \<open>State\<close>

record ('f, 'l) rate_lib =
  rt_New :: "'f \<Rightarrow> int \<Rightarrow> 'l"
  rt_Allow :: "'l \<Rightarrow> time \<Rightarrow> bool \<times> 'l"

record 'l entry =
  en_limiter :: 'l
  en_lastSeen :: time

record ('f, 'l) RateLimiter =
  rl_entries :: "string \<Rightarrow> 'l entry option"
  rl_rps :: 'f
  rl_burst :: int

definition NewRateLimiter :: "'f \<Rightarrow> int \<Rightarrow> ('f, 'l) RateLimiter" where
  "NewRateLimiter rps burst = \<lparr>rl_entries = (\<lambda>_. None), rl_rps = rps, rl_burst = burst\<rparr>"

section \<open>Operations\<close>

text \<open>\<open>getEntry\<close>: the entry of an address, marked as seen now.\<close>

definition getEntry ::
  "('f, 'l) rate_lib \<Rightarrow> time \<Rightarrow> string \<Rightarrow> ('f, 'l) RateLimiter \<Rightarrow> 'l entry \<times> ('f, 'l) RateLimiter" where
  "getEntry lib now ip rl =
     (let e = (case rl_entries rl ip of
                 Some e \<Rightarrow> e\<lparr>en_lastSeen := now\<rparr>
               | None \<Rightarrow> \<lparr>en_limiter = rt_New lib (rl_rps rl) (rl_burst rl), en_lastSeen = now\<rparr>)
      in (e, rl\<lparr>rl_entries := (rl_entries rl)(ip \<mapsto> e)\<rparr>))"

text \<open>The limiter of the entry decides; its new state stays in the entry.\<close>

definition allow_ip ::
  "('f, 'l) rate_lib \<Rightarrow> time \<Rightarrow> string \<Rightarrow> ('f, 'l) RateLimiter \<Rightarrow> bool \<times> ('f, 'l) RateLimiter" where
  "allow_ip lib now ip rl =
     (case getEntry lib now ip rl of (e, rl1) \<Rightarrow>
      case rt_Allow lib (en_limiter e) now of (ok, l) \<Rightarrow>
        (ok, rl1\<lparr>rl_entries := (rl_entries rl1)(ip \<mapsto> e\<lparr>en_limiter := l\<rparr>)\<rparr>))"

definition rate_cleanup :: "time \<Rightarrow> ('f, 'l) RateLimiter \<Rightarrow> ('f, 'l) RateLimiter" where
  "rate_cleanup now rl =
     (let cutoff = now + (- 10 * minute)
      in rl\<lparr>rl_entries := (\<lambda>ip. case rl_entries rl ip of
            Some e \<Rightarrow> if en_lastSeen e < cutoff then None else Some e | None \<Rightarrow> None)\<rparr>)"

text \<open>\<open>startCleanup\<close> on the ticks its \<open>select\<close> receives, \<open>None\<close> for the cancelled context.\<close>

fun startCleanup :: "time option list \<Rightarrow> ('f, 'l) RateLimiter \<Rightarrow> ('f, 'l) RateLimiter" where
  "startCleanup [] rl = rl"
| "startCleanup (None # ts) rl = rl"
| "startCleanup (Some t # ts) rl = startCleanup ts (rate_cleanup t rl)"

section \<open>Client addresses\<close>

text \<open>One entry of the list of trusted proxies: a network, or a single address.\<close>

definition proxy_matches :: "ip \<Rightarrow> string \<Rightarrow> bool" where
  "proxy_matches parsed proxy0 =
     (let proxy = trim_space proxy0 in
      if proxy = [] then False
      else if str_contains proxy ''/''
      then (case parse_cidr proxy of None \<Rightarrow> False | Some network \<Rightarrow> net_contains network parsed)
      else ip_equal (ParseIP proxy) parsed)"

definition isTrustedProxy :: "string \<Rightarrow> string \<Rightarrow> bool" where
  "isTrustedProxy ip trustedProxies = (case ParseIP ip of
     None \<Rightarrow> False
   | Some parsed \<Rightarrow> \<exists>proxy\<in>set (split_byte CHR '','' trustedProxies). proxy_matches parsed proxy)"

definition getIP :: "request \<Rightarrow> string \<Rightarrow> string" where
  "getIP r trustedProxies =
     (let host = (case split_host_port (rq_RemoteAddr r) of None \<Rightarrow> rq_RemoteAddr r | Some (h, _) \<Rightarrow> h) in
      if trustedProxies = [] then host
      else let xff = header_get (rq_Header r) ''X-Forwarded-For'' in
      if xff = [] then host
      else if isTrustedProxy host trustedProxies then trim_space (fst (cut CHR '','' xff))
      else host)"

section \<open>The middleware\<close>

text \<open>Where a limiter lives in the state of the server.\<close>

record ('s, 'f, 'l) limiter_ref =
  lr_get :: "'s \<Rightarrow> ('f, 'l) RateLimiter"
  lr_put :: "('f, 'l) RateLimiter \<Rightarrow> 's \<Rightarrow> 's"

definition too_many_requests :: "writer \<Rightarrow> writer" where
  "too_many_requests = Encode_json (error_json ''rate limit exceeded'' ''ERR_RATE_LIMIT'') \<circ> WriteHeader 429
     \<circ> Header_Set ''Retry-After'' ''60'' \<circ> Header_Set ''Content-Type'' ''application/json''"

definition MiddlewareWithProxies ::
  "('f, 'l) rate_lib \<Rightarrow> 's clock \<Rightarrow> ('s, 'f, 'l) limiter_ref \<Rightarrow> string \<Rightarrow> 's middleware" where
  "MiddlewareWithProxies lib now ref trustedProxies next r c =
     (case allow_ip lib (now (cn_state c)) (getIP r trustedProxies) (lr_get ref (cn_state c)) of (ok, rl) \<Rightarrow>
        let c' = on_state (lr_put ref rl) c
        in if \<not> ok then serve_return (on_writer too_many_requests c') else next r c')"

definition RateLimiter_Middleware ::
  "('f, 'l) rate_lib \<Rightarrow> 's clock \<Rightarrow> ('s, 'f, 'l) limiter_ref \<Rightarrow> 's middleware" where
  "RateLimiter_Middleware lib now ref = MiddlewareWithProxies lib now ref []"

end
