(* ===== verification/RateLimitLaws.thy ===== *)
theory RateLimitLaws
  imports RateLimit
begin

text \<open>
  What the rate limiter promises: each client address has a limiter of its own, and dropping
  the entries of idle addresses does not show.
\<close>

section \<open>Runs\<close>

datatype rate_event = Request string time | Cleanup time

fun event_time :: "rate_event \<Rightarrow> time" where
  "event_time (Request ip t) = t"
| "event_time (Cleanup t) = t"

fun rate_run ::
  "('f, 'l) rate_lib \<Rightarrow> rate_event list \<Rightarrow> ('f, 'l) RateLimiter \<Rightarrow> (string \<times> bool) list \<times> ('f, 'l) RateLimiter" where
  "rate_run lib [] rl = ([], rl)"
| "rate_run lib (Request ip t # es) rl =
     (case allow_ip lib t ip rl of (ok, rl') \<Rightarrow> case rate_run lib es rl' of (ds, rl'') \<Rightarrow> ((ip, ok) # ds, rl''))"
| "rate_run lib (Cleanup t # es) rl = rate_run lib es (rate_cleanup t rl)"

text \<open>The decisions for one address, and the times of its requests.\<close>

definition decisions :: "string \<Rightarrow> (string \<times> bool) list \<Rightarrow> bool list" where
  "decisions ip ds = map snd (filter (\<lambda>d. fst d = ip) ds)"

fun times_of :: "string \<Rightarrow> rate_event list \<Rightarrow> time list" where
  "times_of ip [] = []"
| "times_of ip (Request ip' t # es) = (if ip' = ip then t # times_of ip es else times_of ip es)"
| "times_of ip (Cleanup t # es) = times_of ip es"

text \<open>The reference: a single limiter asked at a list of times.\<close>

fun limiter_run :: "('f, 'l) rate_lib \<Rightarrow> time list \<Rightarrow> 'l \<Rightarrow> bool list" where
  "limiter_run lib [] l = []"
| "limiter_run lib (t # ts) l = (case rt_Allow lib l t of (ok, l') \<Rightarrow> ok # limiter_run lib ts l')"

definition limiter_after :: "('f, 'l) rate_lib \<Rightarrow> time list \<Rightarrow> 'l \<Rightarrow> 'l" where
  "limiter_after lib ts l = fold (\<lambda>t l. snd (rt_Allow lib l t)) ts l"

lemma limiter_after_simps [simp]:
  "limiter_after lib [] l = l" "limiter_after lib (ts @ [t]) l = snd (rt_Allow lib (limiter_after lib ts l) t)"
  by (simp_all add: limiter_after_def)

lemma decisions_simps [simp]:
  "decisions ip [] = []" "decisions ip ((ip', ok) # ds) = (if ip' = ip then ok # decisions ip ds else decisions ip ds)"
  by (simp_all add: decisions_def)

section \<open>One request\<close>

definition limiter_of :: "('f, 'l) rate_lib \<Rightarrow> ('f, 'l) RateLimiter \<Rightarrow> string \<Rightarrow> 'l" where
  "limiter_of lib rl ip = (case rl_entries rl ip of
     Some e \<Rightarrow> en_limiter e | None \<Rightarrow> rt_New lib (rl_rps rl) (rl_burst rl))"

lemma allow_ip_result: "fst (allow_ip lib t ip rl) = fst (rt_Allow lib (limiter_of lib rl ip) t)"
  by (auto simp: allow_ip_def getEntry_def limiter_of_def Let_def split: option.split prod.split)

lemma allow_ip_entry:
  "rl_entries (snd (allow_ip lib t ip rl)) = (rl_entries rl)(ip \<mapsto>
     \<lparr>en_limiter = snd (rt_Allow lib (limiter_of lib rl ip) t), en_lastSeen = t\<rparr>)"
  by (auto simp: allow_ip_def getEntry_def limiter_of_def Let_def split: option.split prod.split)

lemma allow_ip_config [simp]:
  "rl_rps (snd (allow_ip lib t ip rl)) = rl_rps rl" "rl_burst (snd (allow_ip lib t ip rl)) = rl_burst rl"
  by (simp_all add: allow_ip_def getEntry_def Let_def split: option.split prod.split)

lemma cleanup_config [simp]:
  "rl_rps (rate_cleanup t rl) = rl_rps rl" "rl_burst (rate_cleanup t rl) = rl_burst rl"
  by (simp_all add: rate_cleanup_def Let_def)

lemma allow_ip_limiter:
  "limiter_of lib (snd (allow_ip lib t ip rl)) ip' =
     (if ip' = ip then snd (rt_Allow lib (limiter_of lib rl ip) t) else limiter_of lib rl ip')"
  by (simp add: limiter_of_def [of lib "snd (allow_ip lib t ip rl)"] allow_ip_entry) (simp add: limiter_of_def split: option.split)

lemma rate_run_request:
  "fst (rate_run lib (Request ip t # es) rl) =
     (ip, fst (rt_Allow lib (limiter_of lib rl ip) t)) # fst (rate_run lib es (snd (allow_ip lib t ip rl)))"
  using allow_ip_result [of lib t ip rl] by (cases "allow_ip lib t ip rl") (simp split: prod.split)

lemma limiter_run_Cons:
  "limiter_run lib (t # ts) l = fst (rt_Allow lib l t) # limiter_run lib ts (snd (rt_Allow lib l t))"
  by (simp split: prod.split)

text \<open>Without eviction an address sees its own limiter, whatever the others do.\<close>

lemma decisions_separate:
  "(\<forall>t. Cleanup t \<notin> set es) \<Longrightarrow>
     decisions ip (fst (rate_run lib es rl)) = limiter_run lib (times_of ip es) (limiter_of lib rl ip)"
proof (induction es arbitrary: rl)
  case (Cons e es)
  then obtain ip' t where e: "e = Request ip' t" by (cases e) auto
  have "decisions ip (fst (rate_run lib es (snd (allow_ip lib t ip' rl)))) =
      limiter_run lib (times_of ip es) (limiter_of lib (snd (allow_ip lib t ip' rl)) ip)"
    using Cons by simp
  then show ?case
    by (cases "ip' = ip")
      (simp_all add: e rate_run_request limiter_run_Cons allow_ip_limiter del: rate_run.simps limiter_run.simps)
qed simp

section \<open>Eviction\<close>

text \<open>
  The documented behaviour of a token bucket that refills within ten minutes: left alone for
  so long, it decides and continues as a new one.
\<close>

definition refills :: "('f, 'l) rate_lib \<Rightarrow> 'f \<Rightarrow> int \<Rightarrow> bool" where
  "refills lib rps burst \<longleftrightarrow> (\<forall>ts t. sorted (ts @ [t]) \<longrightarrow> (\<forall>t'\<in>set ts. t' + 10 * minute \<le> t) \<longrightarrow>
     rt_Allow lib (limiter_after lib ts (rt_New lib rps burst)) t = rt_Allow lib (rt_New lib rps burst) t)"

text \<open>The entry of an address against the times \<open>ts\<close> of its requests so far.\<close>

definition tracks :: "('f, 'l) rate_lib \<Rightarrow> time list \<Rightarrow> time \<Rightarrow> ('f, 'l) RateLimiter \<Rightarrow> string \<Rightarrow> bool" where
  "tracks lib ts now rl ip \<longleftrightarrow> sorted ts \<and> (\<forall>t\<in>set ts. t \<le> now) \<and>
     (case rl_entries rl ip of
        None \<Rightarrow> \<forall>t\<in>set ts. t + 10 * minute \<le> now
      | Some e \<Rightarrow> en_limiter e = limiter_after lib ts (rt_New lib (rl_rps rl) (rl_burst rl)) \<and>
          (\<forall>t\<in>set ts. t \<le> en_lastSeen e))"

lemma tracks_later: "tracks lib ts now rl ip \<Longrightarrow> now \<le> t \<Longrightarrow> tracks lib ts t rl ip"
  by (force simp: tracks_def split: option.splits)

lemma tracks_allow:
  assumes "refills lib (rl_rps rl) (rl_burst rl)" "tracks lib ts t rl ip"
  shows "rt_Allow lib (limiter_of lib rl ip) t =
    rt_Allow lib (limiter_after lib ts (rt_New lib (rl_rps rl) (rl_burst rl))) t"
proof (cases "rl_entries rl ip")
  case None
  with assms(2) have "sorted (ts @ [t])" "\<forall>t'\<in>set ts. t' + 10 * minute \<le> t"
    by (auto simp: tracks_def sorted_append)
  with assms(1) None show ?thesis by (simp add: refills_def limiter_of_def)
qed (use assms(2) in \<open>simp add: tracks_def limiter_of_def\<close>)

lemma tracks_request:
  assumes "refills lib (rl_rps rl) (rl_burst rl)" "tracks lib ts t rl ip"
  shows "tracks lib (ts @ [t]) t (snd (allow_ip lib t ip rl)) ip"
  using assms(2) tracks_allow [OF assms] by (auto simp: tracks_def allow_ip_entry sorted_append split: option.splits)

lemma tracks_other: "ip' \<noteq> ip \<Longrightarrow> tracks lib ts t rl ip \<Longrightarrow> tracks lib ts t (snd (allow_ip lib t ip' rl)) ip"
  by (simp add: tracks_def allow_ip_entry split: option.splits)

lemma tracks_cleanup: "tracks lib ts t rl ip \<Longrightarrow> tracks lib ts t (rate_cleanup t rl) ip"
  by (force simp: tracks_def rate_cleanup_def Let_def split: option.splits)

lemma decisions_evicting:
  assumes "refills lib (rl_rps rl) (rl_burst rl)" "sorted (now # map event_time es)" "tracks lib ts now rl ip"
  shows "decisions ip (fst (rate_run lib es rl)) =
    limiter_run lib (times_of ip es) (limiter_after lib ts (rt_New lib (rl_rps rl) (rl_burst rl)))"
  using assms
proof (induction es arbitrary: rl now ts)
  case (Cons e es)
  let ?new = "rt_New lib (rl_rps rl) (rl_burst rl)"
  have next_sorted: "sorted (event_time e # map event_time es)" using Cons.prems(2) by simp
  have tr: "tracks lib ts (event_time e) rl ip" using tracks_later [OF Cons.prems(3)] Cons.prems(2) by simp
  show ?case
  proof (cases e)
    case (Cleanup t)
    then have "tracks lib ts t (rate_cleanup t rl) ip" "sorted (t # map event_time es)"
      using tracks_cleanup [of lib ts t rl ip] tr next_sorted by simp_all
    from Cons.IH [OF _ this(2,1)] show ?thesis using Cons.prems(1) Cleanup by simp
  next
    case (Request ip' t)
    let ?rl = "snd (allow_ip lib t ip' rl)"
    have refills: "refills lib (rl_rps ?rl) (rl_burst ?rl)" using Cons.prems(1) by simp
    have sorted: "sorted (t # map event_time es)" and tr': "tracks lib ts t rl ip"
      using next_sorted tr Request by simp_all
    show ?thesis
    proof (cases "ip' = ip")
      case True
      have "tracks lib (ts @ [t]) t ?rl ip" using tracks_request [OF Cons.prems(1) tr'] True by simp
      from Cons.IH [OF refills sorted this]
      have IH: "decisions ip (fst (rate_run lib es ?rl)) =
          limiter_run lib (times_of ip es) (snd (rt_Allow lib (limiter_after lib ts ?new) t))" by simp
      show ?thesis
        using IH tracks_allow [OF Cons.prems(1) tr'] True
        by (simp add: Request rate_run_request limiter_run_Cons del: rate_run.simps limiter_run.simps)
    next
      case False
      from Cons.IH [OF refills sorted tracks_other [OF False tr']]
      show ?thesis
        using False by (simp add: Request rate_run_request del: rate_run.simps limiter_run.simps)
    qed
  qed
qed simp

section \<open>A token bucket\<close>

text \<open>A limiter that holds time: one request costs a period, and at most \<open>burst\<close> periods are saved.\<close>

record bucket =
  bk_period :: int
  bk_burst :: int
  bk_saved :: int
  bk_last :: "time option"

definition bucket_lib :: "(int, bucket) rate_lib" where
  "bucket_lib = \<lparr>rt_New = (\<lambda>p b. \<lparr>bk_period = p, bk_burst = b, bk_saved = b * p, bk_last = None\<rparr>),
     rt_Allow = (\<lambda>l t.
       let saved = min (bk_burst l * bk_period l) (bk_saved l + (case bk_last l of None \<Rightarrow> 0 | Some t0 \<Rightarrow> t - t0))
       in if bk_period l \<le> saved then (True, l\<lparr>bk_saved := saved - bk_period l, bk_last := Some t\<rparr>)
          else (False, l\<lparr>bk_saved := saved, bk_last := Some t\<rparr>))\<rparr>"

lemma bucket_ops:
  "rt_New bucket_lib p b = \<lparr>bk_period = p, bk_burst = b, bk_saved = b * p, bk_last = None\<rparr>"
  "rt_Allow bucket_lib l t = (let saved = min (bk_burst l * bk_period l)
        (bk_saved l + (case bk_last l of None \<Rightarrow> 0 | Some t0 \<Rightarrow> t - t0))
     in if bk_period l \<le> saved then (True, l\<lparr>bk_saved := saved - bk_period l, bk_last := Some t\<rparr>)
        else (False, l\<lparr>bk_saved := saved, bk_last := Some t\<rparr>))"
  by (simp_all add: bucket_lib_def)

definition bucket_ok :: "int \<Rightarrow> int \<Rightarrow> time list \<Rightarrow> bucket \<Rightarrow> bool" where
  "bucket_ok p b ts l \<longleftrightarrow> bk_period l = p \<and> bk_burst l = b \<and> 0 \<le> bk_saved l \<and>
     (if ts = [] then l = rt_New bucket_lib p b else bk_last l = Some (last ts))"

lemma bucket_ok_allow:
  assumes "0 \<le> p" "0 \<le> b" "sorted (ts @ [t])" "bucket_ok p b ts l"
  shows "bucket_ok p b (ts @ [t]) (snd (rt_Allow bucket_lib l t))"
proof -
  have "0 \<le> (case bk_last l of None \<Rightarrow> 0 | Some t0 \<Rightarrow> t - t0)"
    using assms(3,4) by (cases "ts = []") (auto simp: bucket_ok_def bucket_ops sorted_append)
  with assms show ?thesis by (auto simp: bucket_ok_def bucket_ops(2) Let_def)
qed

lemma bucket_after:
  assumes "0 \<le> p" "0 \<le> b" "sorted ts"
  shows "bucket_ok p b ts (limiter_after bucket_lib ts (rt_New bucket_lib p b))"
  using assms(3)
proof (induction ts rule: rev_induct)
  case Nil
  then show ?case using assms by (simp add: bucket_ok_def bucket_ops)
next
  case (snoc t ts)
  then have "bucket_ok p b ts (limiter_after bucket_lib ts (rt_New bucket_lib p b))" by (simp add: sorted_append)
  from bucket_ok_allow [OF assms(1,2) snoc.prems this] show ?case by simp
qed

lemma bucket_refills:
  assumes "0 \<le> p" "0 \<le> b" "b * p \<le> 10 * minute"
  shows "refills bucket_lib p b"
  unfolding refills_def
proof (intro allI impI)
  fix ts t assume ts: "sorted (ts @ [t])" "\<forall>t'\<in>set ts. t' + 10 * minute \<le> t"
  define l where "l = limiter_after bucket_lib ts (rt_New bucket_lib p b)"
  have l: "bucket_ok p b ts l" unfolding l_def using bucket_after [OF assms(1,2)] ts(1) by (simp add: sorted_append)
  have "rt_Allow bucket_lib l t = rt_Allow bucket_lib (rt_New bucket_lib p b) t"
  proof (cases "ts = []")
    case False
    then have "last ts + 10 * minute \<le> t" using ts(2) by simp
    with l False assms(3) have "min (b * p) (bk_saved l + (t - last ts)) = b * p" by (simp add: bucket_ok_def)
    with l False show ?thesis by (cases l) (simp add: bucket_ops bucket_ok_def Let_def)
  qed (use l in \<open>simp add: bucket_ok_def\<close>)
  then show "rt_Allow bucket_lib (limiter_after bucket_lib ts (rt_New bucket_lib p b)) t =
      rt_Allow bucket_lib (rt_New bucket_lib p b) t" by (simp add: l_def)
qed

section \<open>Properties\<close>

text \<open>While no entry is evicted, the decisions for an address are those of a limiter of its own that only
  its requests use, for every limiter library.\<close>

theorem rate_limits_separate:
  assumes "\<And>t. Cleanup t \<notin> set es"
  shows "decisions ip (fst (rate_run lib es (NewRateLimiter rps burst))) =
    limiter_run lib (times_of ip es) (rt_New lib rps burst)"
  using decisions_separate [of es ip lib "NewRateLimiter rps burst"] assms
  by (simp add: limiter_of_def NewRateLimiter_def)

definition demo_requests :: "rate_event list" where
  "demo_requests = [Request ''a'' 0, Request ''b'' 1, Request ''a'' 2, Request ''a'' 3, Request ''b'' 4, Request ''a'' (second + 1)]"

theorem rate_limits_separate_witness:
  "decisions ''a'' (fst (rate_run bucket_lib demo_requests (NewRateLimiter second 2))) = [True, True, False, True]"
proof -
  have "Cleanup t \<notin> set demo_requests" for t by (simp add: demo_requests_def)
  from rate_limits_separate [of demo_requests "''a''" bucket_lib second 2, OF this]
  have "decisions ''a'' (fst (rate_run bucket_lib demo_requests (NewRateLimiter second 2))) =
    limiter_run bucket_lib (times_of ''a'' demo_requests) (rt_New bucket_lib second 2)" .
  also have "\<dots> = [True, True, False, True]" by code_simp
  finally show ?thesis .
qed


definition demo_eviction :: "rate_event list" where
  "demo_eviction = [Request ''a'' 0, Request ''a'' 1, Request ''a'' 2, Cleanup (11 * minute), Request ''a'' (11 * minute)]"


end
