(* ===== verification/LimiterRuns.thy ===== *)
theory LimiterRuns
  imports RateLimitLaws "HOL-Library.Multiset"
begin

text \<open>
  The rate limiter at the grain of its own synchronisation: entries are objects with a mutex, the
  addresses are keys of a \<open>sync.Map\<close>, and requests and the cleanup goroutine interleave at every
  operation of the map, of an entry and of its limiter. While nothing is evicted the decisions are those of
  the atomic \<open>allow_ip\<close>, one request after the other; clients never share a limiter, evictions or not.
\<close>

section \<open>Memory\<close>

text \<open>A pointer to an entry is its index among the allocated ones.\<close>

record ('f, 'l) limiter_mem =
  lm_heap :: "'l entry list"
  lm_map :: "string \<Rightarrow> nat option"
  lm_rps :: 'f
  lm_burst :: int

definition touch :: "time \<Rightarrow> nat \<Rightarrow> ('f, 'l) limiter_mem \<Rightarrow> ('f, 'l) limiter_mem" where
  "touch now e m = m\<lparr>lm_heap := (lm_heap m)[e := (lm_heap m ! e)\<lparr>en_lastSeen := now\<rparr>]\<rparr>"

definition seen :: "nat \<Rightarrow> ('f, 'l) limiter_mem \<Rightarrow> time" where
  "seen e m = en_lastSeen (lm_heap m ! e)"

definition LoadOrStore :: "string \<Rightarrow> nat \<Rightarrow> ('f, 'l) limiter_mem \<Rightarrow> nat \<times> ('f, 'l) limiter_mem" where
  "LoadOrStore ip e m = (case lm_map m ip of
     Some a \<Rightarrow> (a, m) | None \<Rightarrow> (e, m\<lparr>lm_map := (lm_map m)(ip \<mapsto> e)\<rparr>))"

section \<open>Goroutines\<close>

text \<open>Where a request is in \<open>getEntry\<close> and the \<open>Allow\<close> that follows it.\<close>

datatype limiter_pc = Loading | Touching nat | Making | TouchingNew nat | Storing nat | TouchingActual nat
  | Deciding nat | Decided bool

fun request_step ::
  "('f, 'l) rate_lib \<Rightarrow> time \<Rightarrow> string \<Rightarrow> limiter_pc \<Rightarrow> ('f, 'l) limiter_mem \<Rightarrow> (limiter_pc \<times> ('f, 'l) limiter_mem) option" where
  "request_step lib now ip Loading m = Some (case lm_map m ip of Some e \<Rightarrow> Touching e | None \<Rightarrow> Making, m)"
| "request_step lib now ip (Touching e) m = Some (Deciding e, touch now e m)"
| "request_step lib now ip Making m = Some (TouchingNew (length (lm_heap m)),
     m\<lparr>lm_heap := lm_heap m @ [\<lparr>en_limiter = rt_New lib (lm_rps m) (lm_burst m), en_lastSeen = zero_time\<rparr>]\<rparr>)"
| "request_step lib now ip (TouchingNew e) m = Some (Storing e, touch now e m)"
| "request_step lib now ip (Storing e) m = (case LoadOrStore ip e m of
     (result, m') \<Rightarrow> Some (if result \<noteq> e then TouchingActual result else Deciding result, m'))"
| "request_step lib now ip (TouchingActual e) m = Some (Deciding e, touch now e m)"
| "request_step lib now ip (Deciding e) m = (case rt_Allow lib (en_limiter (lm_heap m ! e)) now of
     (ok, l) \<Rightarrow> Some (Decided ok, m\<lparr>lm_heap := (lm_heap m)[e := (lm_heap m ! e)\<lparr>en_limiter := l\<rparr>]\<rparr>))"
| "request_step lib now ip (Decided ok) m = None"

text \<open>
  A \<open>cleanup\<close> with its cutoff and the keys that \<open>Range\<close> has still to visit: it loads the value of a key,
  asks when the entry was last seen, and deletes the key, whatever that is mapped to by then.
\<close>

datatype limiter_sweep = Sweeping time "string list" | Checking time string nat "string list" | Deleting time string "string list"

definition idle_cutoff :: "time \<Rightarrow> time" where
  "idle_cutoff now = now + (- 10 * minute)"

fun sweep_step :: "limiter_sweep \<Rightarrow> ('f, 'l) limiter_mem \<Rightarrow> (limiter_sweep \<times> ('f, 'l) limiter_mem) option" where
  "sweep_step (Sweeping cutoff []) m = None"
| "sweep_step (Sweeping cutoff (key # keys)) m =
     Some (case lm_map m key of Some e \<Rightarrow> Checking cutoff key e keys | None \<Rightarrow> Sweeping cutoff keys, m)"
| "sweep_step (Checking cutoff key e keys) m =
     Some (if seen e m < cutoff then Deleting cutoff key keys else Sweeping cutoff keys, m)"
| "sweep_step (Deleting cutoff key keys) m = Some (Sweeping cutoff keys, m\<lparr>lm_map := (lm_map m)(key := None)\<rparr>)"

record ('f, 'l) limiter_sys =
  ls_mem :: "('f, 'l) limiter_mem"
  ls_requests :: "(string \<times> limiter_pc) list"
  ls_sweeps :: "limiter_sweep list"
  ls_clock :: time

definition limiter_start :: "'f \<Rightarrow> int \<Rightarrow> time \<Rightarrow> ('f, 'l) limiter_sys" where
  "limiter_start rps burst t = \<lparr>ls_mem = \<lparr>lm_heap = [], lm_map = (\<lambda>_. None), lm_rps = rps, lm_burst = burst\<rparr>,
     ls_requests = [], ls_sweeps = [], ls_clock = t\<rparr>"

text \<open>\<open>evicts\<close> says whether the cleanup goroutine runs; \<open>Range\<close> may visit the keys in any order.\<close>

inductive limiter_step :: "('f, 'l) rate_lib \<Rightarrow> bool \<Rightarrow> ('f, 'l) limiter_sys \<Rightarrow> ('f, 'l) limiter_sys \<Rightarrow> bool"
  for lib :: "('f, 'l) rate_lib" and evicts :: bool where
  arrive: "limiter_step lib evicts s (s\<lparr>ls_requests := ls_requests s @ [(ip, Loading)]\<rparr>)"
| request: "i < length (ls_requests s) \<Longrightarrow> ls_requests s ! i = (ip, pc) \<Longrightarrow>
    request_step lib (ls_clock s) ip pc (ls_mem s) = Some (pc', m) \<Longrightarrow>
    limiter_step lib evicts s (s\<lparr>ls_mem := m, ls_requests := (ls_requests s)[i := (ip, pc')]\<rparr>)"
| begin_sweep: "evicts \<Longrightarrow>
    limiter_step lib evicts s (s\<lparr>ls_sweeps := ls_sweeps s @ [Sweeping (idle_cutoff (ls_clock s)) keys]\<rparr>)"
| sweep: "i < length (ls_sweeps s) \<Longrightarrow> sweep_step (ls_sweeps s ! i) (ls_mem s) = Some (x, m) \<Longrightarrow>
    limiter_step lib evicts s (s\<lparr>ls_mem := m, ls_sweeps := (ls_sweeps s)[i := x]\<rparr>)"
| later: "ls_clock s \<le> t \<Longrightarrow> limiter_step lib evicts s (s\<lparr>ls_clock := t\<rparr>)"

abbreviation limiter_runs :: "('f, 'l) rate_lib \<Rightarrow> bool \<Rightarrow> ('f, 'l) limiter_sys \<Rightarrow> ('f, 'l) limiter_sys \<Rightarrow> bool" where
  "limiter_runs lib evicts \<equiv> (limiter_step lib evicts)\<^sup>*\<^sup>*"

text \<open>The requests that have been decided.\<close>

definition decided :: "(string \<times> limiter_pc) list \<Rightarrow> (string \<times> bool) multiset" where
  "decided rs = \<Sum>\<^sub># (image_mset (\<lambda>(ip, pc). case pc of Decided ok \<Rightarrow> {#(ip, ok)#} | _ \<Rightarrow> {#}) (mset rs))"

section \<open>Without evictions\<close>

text \<open>The entry a request has found in the map, and one it has made and not yet stored.\<close>

fun held_ref :: "limiter_pc \<Rightarrow> nat option" where
  "held_ref (Touching e) = Some e"
| "held_ref (TouchingActual e) = Some e"
| "held_ref (Deciding e) = Some e"
| "held_ref _ = None"

fun fresh_ref :: "limiter_pc \<Rightarrow> nat option" where
  "fresh_ref (TouchingNew e) = Some e"
| "fresh_ref (Storing e) = Some e"
| "fresh_ref _ = None"

abbreviation new_of :: "('f, 'l) rate_lib \<Rightarrow> ('f, 'l) limiter_mem \<Rightarrow> 'l" where
  "new_of lib m \<equiv> rt_New lib (lm_rps m) (lm_burst m)"

text \<open>What is found is what the map holds; what is fresh is new, in no map and in no other request's hands.\<close>

definition linked :: "('f, 'l) rate_lib \<Rightarrow> ('f, 'l) limiter_mem \<Rightarrow> (string \<times> limiter_pc) list \<Rightarrow> bool" where
  "linked lib m rs \<longleftrightarrow>
     (\<forall>ip e. lm_map m ip = Some e \<longrightarrow> e < length (lm_heap m)) \<and>
     (\<forall>ip ip' e. lm_map m ip = Some e \<longrightarrow> lm_map m ip' = Some e \<longrightarrow> ip = ip') \<and>
     (\<forall>i<length rs. \<forall>e. held_ref (snd (rs ! i)) = Some e \<longrightarrow> lm_map m (fst (rs ! i)) = Some e) \<and>
     (\<forall>i<length rs. \<forall>e. fresh_ref (snd (rs ! i)) = Some e \<longrightarrow>
        e < length (lm_heap m) \<and> (\<forall>ip. lm_map m ip \<noteq> Some e) \<and> en_limiter (lm_heap m ! e) = new_of lib m) \<and>
     (\<forall>i<length rs. \<forall>j<length rs. \<forall>e. fresh_ref (snd (rs ! i)) = Some e \<longrightarrow> fresh_ref (snd (rs ! j)) = Some e \<longrightarrow> i = j)"

lemma linkedD:
  assumes "linked lib m rs"
  shows "lm_map m ip = Some e \<Longrightarrow> e < length (lm_heap m)"
    "lm_map m ip = Some e \<Longrightarrow> lm_map m ip' = Some e \<Longrightarrow> ip = ip'"
    "i < length rs \<Longrightarrow> held_ref (snd (rs ! i)) = Some e \<Longrightarrow> lm_map m (fst (rs ! i)) = Some e"
    "i < length rs \<Longrightarrow> fresh_ref (snd (rs ! i)) = Some e \<Longrightarrow> e < length (lm_heap m)"
    "i < length rs \<Longrightarrow> fresh_ref (snd (rs ! i)) = Some e \<Longrightarrow> lm_map m ip \<noteq> Some e"
    "i < length rs \<Longrightarrow> fresh_ref (snd (rs ! i)) = Some e \<Longrightarrow> en_limiter (lm_heap m ! e) = new_of lib m"
    "i < length rs \<Longrightarrow> j < length rs \<Longrightarrow> fresh_ref (snd (rs ! i)) = Some e \<Longrightarrow> fresh_ref (snd (rs ! j)) = Some e \<Longrightarrow> i = j"
  using assms unfolding linked_def by blast+

text \<open>The limiter that decides about an address.\<close>

definition current :: "('f, 'l) rate_lib \<Rightarrow> ('f, 'l) limiter_mem \<Rightarrow> string \<Rightarrow> 'l" where
  "current lib m ip = (case lm_map m ip of Some e \<Rightarrow> en_limiter (lm_heap m ! e) | None \<Rightarrow> new_of lib m)"

lemma touch_sel [simp]:
  "lm_map (touch now e m) = lm_map m" "lm_rps (touch now e m) = lm_rps m" "lm_burst (touch now e m) = lm_burst m"
  "length (lm_heap (touch now e m)) = length (lm_heap m)"
  "en_limiter (lm_heap (touch now e m) ! e') = en_limiter (lm_heap m ! e')"
  by (cases "e < length (lm_heap m)"; simp add: touch_def nth_list_update list_update_beyond)+

lemma current_touch [simp]: "current lib (touch now e m) = current lib m"
  by (simp add: current_def fun_eq_iff split: option.split)

text \<open>A step other than the decision keeps the links and every limiter.\<close>

lemma linked_other:
  assumes "linked lib m rs" "i < length rs" "rs ! i = (ip, pc)"
    and "\<And>e. held_ref pc' = Some e \<Longrightarrow> lm_map m ip = Some e" "fresh_ref pc' \<in> {None, fresh_ref pc}"
  shows "linked lib m (rs[i := (ip, pc')])"
proof -
  have fresh: "fresh_ref (snd (rs ! j)) = Some e" if "fresh_ref (snd (rs[i := (ip, pc')] ! j)) = Some e" "j < length rs" for j e
    using that assms(2,3,5) by (auto simp: nth_list_update split: if_splits)
  note D = linkedD [OF assms(1)]
  show ?thesis
    unfolding linked_def length_list_update
  proof (intro conjI allI impI)
    show "e < length (lm_heap m)" if "lm_map m x = Some e" for x e by (rule D(1) [OF that])
    show "x = y" if "lm_map m x = Some e" "lm_map m y = Some e" for x y e by (rule D(2) [OF that])
    show "lm_map m (fst (rs[i := (ip, pc')] ! j)) = Some e"
      if "j < length rs" "held_ref (snd (rs[i := (ip, pc')] ! j)) = Some e" for j e
      using that assms(2-4) D(3) [OF that(1), of e] by (auto simp: nth_list_update split: if_splits)
    show "e < length (lm_heap m)" "lm_map m x \<noteq> Some e" "en_limiter (lm_heap m ! e) = new_of lib m"
      if "j < length rs" "fresh_ref (snd (rs[i := (ip, pc')] ! j)) = Some e" for j e x
      using D(4-6) [OF that(1) fresh [OF that(2,1)]] by blast+
    show "j = k" if "j < length rs" "k < length rs" "fresh_ref (snd (rs[i := (ip, pc')] ! j)) = Some e"
      "fresh_ref (snd (rs[i := (ip, pc')] ! k)) = Some e" for j k e
      using D(7) [OF that(1,2) fresh [OF that(3,1)] fresh [OF that(4,2)]] .
  qed
qed

lemma linked_touch: "linked lib (touch now e m) rs \<longleftrightarrow> linked lib m rs"
  by (simp add: linked_def)

lemma linked_make:
  assumes "linked lib m rs" "i < length rs" "rs ! i = (ip, Making)"
    and m': "m' = m\<lparr>lm_heap := lm_heap m @ [\<lparr>en_limiter = new_of lib m, en_lastSeen = t\<rparr>]\<rparr>"
  shows "linked lib m' (rs[i := (ip, TouchingNew (length (lm_heap m)))])" "current lib m' = current lib m"
proof -
  note D = linkedD [OF assms(1)]
  let ?rs = "rs[i := (ip, TouchingNew (length (lm_heap m)))]" and ?n = "length (lm_heap m)"
  have sel: "lm_map m' = lm_map m" "lm_rps m' = lm_rps m" "lm_burst m' = lm_burst m" "length (lm_heap m') = Suc ?n"
    "lm_heap m' ! ?n = \<lparr>en_limiter = new_of lib m, en_lastSeen = t\<rparr>" "e < ?n \<Longrightarrow> lm_heap m' ! e = lm_heap m ! e" for e
    by (simp_all add: m' nth_append)
  have fresh: "j = i \<and> e = ?n \<or> j \<noteq> i \<and> fresh_ref (snd (rs ! j)) = Some e"
    if "fresh_ref (snd (?rs ! j)) = Some e" "j < length rs" for j e
    using that assms(2) by (auto simp: nth_list_update split: if_splits)
  show "linked lib m' ?rs"
    unfolding linked_def length_list_update sel
  proof (intro conjI allI impI)
    show "e < Suc ?n" if "lm_map m x = Some e" for x e using D(1) [OF that] by simp
    show "x = y" if "lm_map m x = Some e" "lm_map m y = Some e" for x y e by (rule D(2) [OF that])
    show "lm_map m (fst (?rs ! j)) = Some e" if "j < length rs" "held_ref (snd (?rs ! j)) = Some e" for j e
      using that assms(2) D(3) [OF that(1), of e] by (auto simp: nth_list_update split: if_splits)
    show "e < Suc ?n" "lm_map m x \<noteq> Some e" "en_limiter (lm_heap m' ! e) = new_of lib m"
      if j: "j < length rs" "fresh_ref (snd (?rs ! j)) = Some e" for j e x
      using fresh [OF j(2,1)] D(1) [of x ?n] D(4-6) [OF j(1), of e] sel(5) sel(6) [of e] by auto
    show "j = k" if "j < length rs" "k < length rs" "fresh_ref (snd (?rs ! j)) = Some e" "fresh_ref (snd (?rs ! k)) = Some e" for j k e
      using fresh [OF that(3,1)] fresh [OF that(4,2)] D(4) [OF that(1), of e] D(4) [OF that(2), of e] D(7) [OF that(1,2), of e] by auto
  qed
  show "current lib m' = current lib m"
    using D(1) sel by (auto simp: current_def fun_eq_iff split: option.split)
qed

lemma linked_store:
  assumes "linked lib m rs" "i < length rs" "rs ! i = (ip, Storing e)" "lm_map m ip = None"
    and m': "m' = m\<lparr>lm_map := (lm_map m)(ip \<mapsto> e)\<rparr>"
  shows "linked lib m' (rs[i := (ip, Deciding e)])" "current lib m' = current lib m"
proof -
  note D = linkedD [OF assms(1)]
  let ?rs = "rs[i := (ip, Deciding e)]"
  have e: "e < length (lm_heap m)" "lm_map m x \<noteq> Some e" "en_limiter (lm_heap m ! e) = new_of lib m" for x
    using D(4-6) [OF assms(2), of e] assms(3) by auto
  have fresh: "j \<noteq> i \<and> fresh_ref (snd (rs ! j)) = Some a" if "fresh_ref (snd (?rs ! j)) = Some a" "j < length rs" for j a
    using that assms(2) by (auto simp: nth_list_update split: if_splits)
  have sel: "lm_map m' = (lm_map m)(ip \<mapsto> e)" "lm_heap m' = lm_heap m" "lm_rps m' = lm_rps m" "lm_burst m' = lm_burst m"
    by (simp_all add: m')
  show "linked lib m' ?rs"
    unfolding linked_def length_list_update sel
  proof (intro conjI allI impI)
    show "a < length (lm_heap m)" if "((lm_map m)(ip \<mapsto> e)) x = Some a" for x a
      using that e(1) D(1) by (auto split: if_splits)
    show "x = y" if "((lm_map m)(ip \<mapsto> e)) x = Some a" "((lm_map m)(ip \<mapsto> e)) y = Some a" for x y a
      using that e(2) D(2) by (auto split: if_splits)
    show "((lm_map m)(ip \<mapsto> e)) (fst (?rs ! j)) = Some a" if "j < length rs" "held_ref (snd (?rs ! j)) = Some a" for j a
      using that assms(2,4) D(3) [OF that(1), of a] by (auto simp: nth_list_update split: if_splits)
    show "a < length (lm_heap m)" "((lm_map m)(ip \<mapsto> e)) x \<noteq> Some a" "en_limiter (lm_heap m ! a) = new_of lib m"
      if j: "j < length rs" "fresh_ref (snd (?rs ! j)) = Some a" for j a x
    proof -
      have "a \<noteq> e" using fresh [OF j(2,1)] D(7) [OF j(1) assms(2), of e] assms(3) by auto
      then show "a < length (lm_heap m)" "((lm_map m)(ip \<mapsto> e)) x \<noteq> Some a" "en_limiter (lm_heap m ! a) = new_of lib m"
        using fresh [OF j(2,1)] D(4-6) [OF j(1), of a] by auto
    qed
    show "j = k" if "j < length rs" "k < length rs" "fresh_ref (snd (?rs ! j)) = Some a" "fresh_ref (snd (?rs ! k)) = Some a" for j k a
      using D(7) [OF that(1,2)] fresh [OF that(3,1)] fresh [OF that(4,2)] by blast
  qed
  show "current lib m' = current lib m"
    using e(3) assms(4) sel by (auto simp: current_def fun_eq_iff split: option.split)
qed

lemma linked_decide:
  assumes "linked lib m rs" "i < length rs" "rs ! i = (ip, Deciding e)"
    and m': "m' = m\<lparr>lm_heap := (lm_heap m)[e := (lm_heap m ! e)\<lparr>en_limiter := l\<rparr>]\<rparr>"
  shows "linked lib m' (rs[i := (ip, Decided ok)])" "current lib m' = (current lib m)(ip := l)"
    "current lib m ip = en_limiter (lm_heap m ! e)"
proof -
  note D = linkedD [OF assms(1)]
  have e: "lm_map m ip = Some e" using D(3) [OF assms(2), of e] assms(3) by simp
  then have len: "e < length (lm_heap m)" by (rule D(1))
  have sel: "lm_map m' = lm_map m" "lm_rps m' = lm_rps m" "lm_burst m' = lm_burst m" "length (lm_heap m') = length (lm_heap m)"
    "en_limiter (lm_heap m' ! a) = (if a = e then l else en_limiter (lm_heap m ! a))" for a
    using len by (simp_all add: m' nth_list_update)
  have "linked lib m' rs"
    unfolding linked_def sel(1-4)
  proof (intro conjI allI impI)
    show "a < length (lm_heap m)" if "lm_map m x = Some a" for x a by (rule D(1) [OF that])
    show "x = y" if "lm_map m x = Some a" "lm_map m y = Some a" for x y a by (rule D(2) [OF that])
    show "lm_map m (fst (rs ! j)) = Some a" if "j < length rs" "held_ref (snd (rs ! j)) = Some a" for j a by (rule D(3) [OF that])
    show "a < length (lm_heap m)" "lm_map m x \<noteq> Some a" "en_limiter (lm_heap m' ! a) = new_of lib m"
      if "j < length rs" "fresh_ref (snd (rs ! j)) = Some a" for j a x
      using D(4-6) [OF that] e sel(5) [of a] by auto
    show "j = k" if "j < length rs" "k < length rs" "fresh_ref (snd (rs ! j)) = Some a" "fresh_ref (snd (rs ! k)) = Some a" for j k a
      by (rule D(7) [OF that])
  qed
  then show "linked lib m' (rs[i := (ip, Decided ok)])"
    by (rule linked_other [OF _ assms(2,3)]) simp_all
  show "current lib m' = (current lib m)(ip := l)"
  proof
    fix x
    show "current lib m' x = ((current lib m)(ip := l)) x"
    proof (cases "x = ip")
      case False
      then have "lm_map m x \<noteq> Some e" using D(2) [OF e, of x] by blast
      with False show ?thesis by (auto simp: current_def sel split: option.split)
    qed (simp add: current_def sel e)
  qed
  show "current lib m ip = en_limiter (lm_heap m ! e)" by (simp add: current_def e)
qed

lemma request_linked:
  assumes "linked lib m rs" "i < length rs" "rs ! i = (ip, pc)" "request_step lib now ip pc m = Some (pc', m')"
  shows "linked lib m' (rs[i := (ip, pc')]) \<and> lm_rps m' = lm_rps m \<and> lm_burst m' = lm_burst m \<and>
    (case pc' of
       Decided ok \<Rightarrow> (ok, current lib m' ip) = rt_Allow lib (current lib m ip) now \<and>
         current lib m' = (current lib m)(ip := current lib m' ip)
     | _ \<Rightarrow> current lib m' = current lib m)"
proof (cases pc)
  case Loading
  then show ?thesis
    using assms linked_other [OF assms(1-3), of pc'] by (auto split: option.splits)
next
  case (Touching e)
  then show ?thesis
    using assms linked_other [OF assms(1-3), of pc'] linkedD(3) [OF assms(1,2), of e] by (auto simp: linked_touch)
next
  case Making
  then show ?thesis using assms(4) linked_make [OF assms(1,2) assms(3) [unfolded Making]] by auto
next
  case (TouchingNew e)
  then show ?thesis
    using assms linked_other [OF assms(1-3), of pc'] by (auto simp: linked_touch)
next
  case (TouchingActual e)
  then show ?thesis
    using assms linked_other [OF assms(1-3), of pc'] linkedD(3) [OF assms(1,2), of e] by (auto simp: linked_touch)
next
  case (Storing e)
  show ?thesis
  proof (cases "lm_map m ip")
    case None
    then show ?thesis
      using assms(4) linked_store [OF assms(1,2) assms(3) [unfolded Storing] None] Storing by (auto simp: LoadOrStore_def)
  next
    case (Some a)
    then have "a \<noteq> e" using linkedD(5) [OF assms(1,2), of e ip] assms(3) Storing by auto
    then show ?thesis
      using assms(4) linked_other [OF assms(1-3), of pc'] Storing Some by (auto simp: LoadOrStore_def)
  qed
next
  case (Deciding e)
  obtain ok l where al: "rt_Allow lib (en_limiter (lm_heap m ! e)) now = (ok, l)" by (metis surj_pair)
  note dec = linked_decide [OF assms(1,2) assms(3) [unfolded Deciding] refl]
  show ?thesis
    using assms(4) dec(1) [of l ok] dec(2) [of l] dec(3) al Deciding by auto
next
  case (Decided ok)
  then show ?thesis using assms(4) by simp
qed

text \<open>The run of the atomic limiter, one event more.\<close>

lemma rate_run_snoc:
  "rate_run lib (es @ [Request ip t]) rl = (fst (rate_run lib es rl) @ [(ip, fst (allow_ip lib t ip (snd (rate_run lib es rl))))],
     snd (allow_ip lib t ip (snd (rate_run lib es rl))))"
proof (induction es arbitrary: rl)
  case (Cons e es)
  then show ?case by (cases e) (simp_all split: prod.split)
qed (simp split: prod.split)

lemma decided_append: "decided (rs @ [(ip, Loading)]) = decided rs"
  by (simp add: decided_def)

lemma decided_update:
  assumes "i < length rs" "rs ! i = (ip, pc)" "\<And>ok. pc \<noteq> Decided ok"
  shows "decided (rs[i := (ip, pc')]) = decided rs + (case pc' of Decided ok \<Rightarrow> {#(ip, ok)#} | _ \<Rightarrow> {#})"
proof -
  let ?f = "\<lambda>(ip, pc). case pc of Decided ok \<Rightarrow> {#(ip, ok)#} | _ \<Rightarrow> {#}"
  have none: "?f (ip, pc) = {#}" using assms(3) by (cases pc) auto
  have "rs = take i rs @ (ip, pc) # drop (Suc i) rs" using assms(1,2) id_take_nth_drop by metis
  then have "decided rs = decided (take i rs @ (ip, pc) # drop (Suc i) rs)" by simp
  also have "\<dots> + ?f (ip, pc') = decided (take i rs @ (ip, pc') # drop (Suc i) rs)"
    using none by (simp add: decided_def)
  finally show ?thesis using assms(1) by (simp add: upd_conv_take_nth_drop)
qed

definition sequential :: "('f, 'l) rate_lib \<Rightarrow> 'f \<Rightarrow> int \<Rightarrow> ('f, 'l) limiter_sys \<Rightarrow> bool" where
  "sequential lib rps burst s \<longleftrightarrow> (\<exists>es. (\<forall>t. Cleanup t \<notin> set es) \<and> sorted (map event_time es @ [ls_clock s]) \<and>
     decided (ls_requests s) = mset (fst (rate_run lib es (NewRateLimiter rps burst))) \<and>
     current lib (ls_mem s) = limiter_of lib (snd (rate_run lib es (NewRateLimiter rps burst))))"

definition limiter_inv :: "('f, 'l) rate_lib \<Rightarrow> 'f \<Rightarrow> int \<Rightarrow> ('f, 'l) limiter_sys \<Rightarrow> bool" where
  "limiter_inv lib rps burst s \<longleftrightarrow> linked lib (ls_mem s) (ls_requests s) \<and> ls_sweeps s = [] \<and>
     lm_rps (ls_mem s) = rps \<and> lm_burst (ls_mem s) = burst \<and> sequential lib rps burst s"

lemma limiter_inv_start: "limiter_inv lib rps burst (limiter_start rps burst t)"
  by (auto simp: limiter_inv_def linked_def limiter_start_def sequential_def decided_def current_def limiter_of_def
      NewRateLimiter_def fun_eq_iff intro!: exI [of _ "[]"])

lemma linked_arrive: "linked lib m rs \<Longrightarrow> linked lib m (rs @ [(ip, Loading)])"
  unfolding linked_def by (auto simp: nth_append less_Suc_eq split: if_splits)

text \<open>A decision is one more request of the atomic limiter.\<close>

lemma sequential_decide:
  assumes "sequential lib rps burst s" "decided rs = add_mset (ip, ok) (decided (ls_requests s))"
    and "(ok, current lib m ip) = rt_Allow lib (current lib (ls_mem s) ip) (ls_clock s)"
    and "current lib m = (current lib (ls_mem s))(ip := current lib m ip)"
  shows "sequential lib rps burst (s\<lparr>ls_mem := m, ls_requests := rs\<rparr>)"
proof -
  obtain es where es: "\<forall>t. Cleanup t \<notin> set es" "sorted (map event_time es @ [ls_clock s])"
      "decided (ls_requests s) = mset (fst (rate_run lib es (NewRateLimiter rps burst)))"
      "current lib (ls_mem s) = limiter_of lib (snd (rate_run lib es (NewRateLimiter rps burst)))"
    using assms(1) by (auto simp: sequential_def)
  let ?rl = "snd (rate_run lib es (NewRateLimiter rps burst))"
  have al: "snd (rt_Allow lib (limiter_of lib ?rl ip) (ls_clock s)) = current lib m ip"
    "fst (rt_Allow lib (limiter_of lib ?rl ip) (ls_clock s)) = ok"
    using assms(3) [symmetric] unfolding es(4) by simp_all
  have "limiter_of lib (snd (allow_ip lib (ls_clock s) ip ?rl)) = current lib m"
  proof
    show "limiter_of lib (snd (allow_ip lib (ls_clock s) ip ?rl)) x = current lib m x" for x
      using al(1) fun_cong [OF assms(4), of x] by (simp add: allow_ip_limiter es(4))
  qed
  then show ?thesis
    using es assms(2) al(2) unfolding sequential_def
    by (intro exI [of _ "es @ [Request ip (ls_clock s)]"]) (auto simp: rate_run_snoc sorted_append allow_ip_result)
qed

lemma limiter_inv_step:
  assumes "limiter_step lib False s s'" "limiter_inv lib rps burst s"
  shows "limiter_inv lib rps burst s'"
  using assms
proof (induction rule: limiter_step.induct)
  case (arrive s ip)
  then show ?case
    by (simp add: limiter_inv_def linked_arrive sequential_def decided_append)
next
  case (request i s ip pc pc' m)
  have inv: "linked lib (ls_mem s) (ls_requests s)" "ls_sweeps s = []" "lm_rps (ls_mem s) = rps" "lm_burst (ls_mem s) = burst"
    "sequential lib rps burst s"
    using request.prems by (simp_all add: limiter_inv_def)
  note step = request_linked [OF inv(1) request.hyps]
  have und: "pc \<noteq> Decided ok" for ok using request.hyps(3) by auto
  note dec = decided_update [OF request.hyps(1,2) und, of pc']
  have "sequential lib rps burst (s\<lparr>ls_mem := m, ls_requests := (ls_requests s)[i := (ip, pc')]\<rparr>)"
  proof (cases "\<exists>ok. pc' = Decided ok")
    case False
    then show ?thesis
      using inv(5) step dec by (auto simp: sequential_def split: limiter_pc.splits)
  next
    case True
    then show ?thesis using step dec by (auto intro!: sequential_decide [OF inv(5)])
  qed
  with step inv show ?case by (simp add: limiter_inv_def)
next
  case (later s t)
  have "sorted (map event_time es @ [t])" if "sorted (map event_time es @ [ls_clock s])" for es
    using that later.hyps by (auto simp: sorted_append)
  then show ?case using later.prems by (auto simp: limiter_inv_def sequential_def)
qed (simp_all add: limiter_inv_def)

lemma limiter_runs_inv:
  assumes "limiter_runs lib False (limiter_start rps burst t) s" shows "limiter_inv lib rps burst s"
  using assms by (induction rule: rtranclp_induct) (auto intro: limiter_inv_start limiter_inv_step)

section \<open>With evictions\<close>

text \<open>Whose entry it is: the address it was made for.\<close>

definition owned :: "(nat \<Rightarrow> string) \<Rightarrow> ('f, 'l) limiter_sys \<Rightarrow> bool" where
  "owned own s \<longleftrightarrow>
     (\<forall>ip e. lm_map (ls_mem s) ip = Some e \<longrightarrow> e < length (lm_heap (ls_mem s)) \<and> own e = ip) \<and>
     (\<forall>(ip, pc)\<in>set (ls_requests s). \<forall>e. held_ref pc = Some e \<or> fresh_ref pc = Some e \<longrightarrow>
        e < length (lm_heap (ls_mem s)) \<and> own e = ip)"

lemma owned_cong: "owned own s \<Longrightarrow> n = length (lm_heap (ls_mem s)) \<Longrightarrow> owned (own(n := x)) s"
  by (fastforce simp: owned_def)

lemma owned_map: "owned own s \<Longrightarrow> lm_map (ls_mem s) ip = Some e \<Longrightarrow> e < length (lm_heap (ls_mem s)) \<and> own e = ip"
  by (simp add: owned_def)

lemma owned_pc:
  "owned own s \<Longrightarrow> (ip, pc) \<in> set (ls_requests s) \<Longrightarrow> held_ref pc = Some e \<or> fresh_ref pc = Some e \<Longrightarrow>
    e < length (lm_heap (ls_mem s)) \<and> own e = ip"
  by (fastforce simp: owned_def)

lemma owned_request:
  assumes own: "owned own s" and i: "i < length (ls_requests s)" "ls_requests s ! i = (ip, pc)"
    and len: "length (lm_heap (ls_mem s)) \<le> length (lm_heap m)"
    and map: "\<And>ip' e. lm_map m ip' = Some e \<Longrightarrow> e < length (lm_heap m) \<and> own e = ip'"
    and pc: "\<And>e. held_ref pc' = Some e \<or> fresh_ref pc' = Some e \<Longrightarrow> e < length (lm_heap m) \<and> own e = ip"
  shows "owned own (s\<lparr>ls_mem := m, ls_requests := (ls_requests s)[i := (ip, pc')]\<rparr>)"
proof -
  have "e < length (lm_heap m) \<and> own e = x"
    if "(x, q) \<in> set ((ls_requests s)[i := (ip, pc')])" "held_ref q = Some e \<or> fresh_ref q = Some e" for x q e
  proof -
    have "(x, q) = (ip, pc') \<or> (x, q) \<in> set (ls_requests s)"
      using that(1) set_update_subset_insert [of "ls_requests s" i "(ip, pc')"] by blast
    then show ?thesis using pc that(2) owned_pc [OF own _ that(2), of x] len by fastforce
  qed
  then show ?thesis using map by (auto simp: owned_def)
qed

lemma owned_step:
  assumes "limiter_step lib evicts s s'" "owned own s"
  shows "\<exists>own'. owned own' s'"
  using assms
proof (induction rule: limiter_step.induct)
  case (request i s ip pc pc' m)
  have mem: "(ip, pc) \<in> set (ls_requests s)" using request.hyps(1,2) by (metis nth_mem)
  note own = owned_map [OF request.prems] and ref = owned_pc [OF request.prems mem]
  note r = owned_request [OF _ request.hyps(1,2)]
  show ?case
  proof (cases pc)
    case Making
    let ?own = "own(length (lm_heap (ls_mem s)) := ip)"
    have "owned ?own s" by (rule owned_cong [OF request.prems]) simp
    from r [OF this, of m pc'] show ?thesis
      using request.hyps(3) Making own by (intro exI [of _ ?own]) fastforce
  next
    case (Storing e)
    show ?thesis
      by (intro exI [of _ own] r [OF request.prems])
        (use request.hyps(3) Storing own ref in \<open>auto simp: LoadOrStore_def split: option.splits if_splits\<close>)
  qed (intro exI [of _ own] r [OF request.prems]; use request.hyps(3) own ref in \<open>auto split: option.splits prod.splits\<close>)+
next
  case (sweep i s x m)
  have "lm_heap m = lm_heap (ls_mem s)" "lm_map m ip = Some e \<Longrightarrow> lm_map (ls_mem s) ip = Some e" for ip e
    using sweep.hyps(2) by (cases "(ls_sweeps s ! i, ls_mem s)" rule: sweep_step.cases; auto split: if_splits)+
  then show ?case using sweep.prems by (intro exI [of _ own]) (auto simp: owned_def)
qed (auto simp: owned_def)

lemma owned_runs: "limiter_runs lib evicts (limiter_start rps burst t) s \<Longrightarrow> \<exists>own. owned own s"
proof (induction rule: rtranclp_induct)
  case base
  show ?case by (simp add: owned_def limiter_start_def)
next
  case (step s s')
  then show ?case using owned_step by blast
qed

section \<open>Runs by moves\<close>

text \<open>A run is given by who moves next; \<open>None\<close> when it cannot.\<close>

datatype limiter_move = Arrive string | Ask nat | Start "string list" | Clean nat | Wait time

fun move_limiter :: "('f, 'l) rate_lib \<Rightarrow> limiter_move \<Rightarrow> ('f, 'l) limiter_sys \<Rightarrow> ('f, 'l) limiter_sys option" where
  "move_limiter lib (Arrive ip) s = Some (s\<lparr>ls_requests := ls_requests s @ [(ip, Loading)]\<rparr>)"
| "move_limiter lib (Ask i) s = (if i < length (ls_requests s)
     then (case ls_requests s ! i of (ip, pc) \<Rightarrow> case request_step lib (ls_clock s) ip pc (ls_mem s) of
       Some (pc', m) \<Rightarrow> Some (s\<lparr>ls_mem := m, ls_requests := (ls_requests s)[i := (ip, pc')]\<rparr>) | None \<Rightarrow> None)
     else None)"
| "move_limiter lib (Start keys) s = Some (s\<lparr>ls_sweeps := ls_sweeps s @ [Sweeping (idle_cutoff (ls_clock s)) keys]\<rparr>)"
| "move_limiter lib (Clean i) s = (if i < length (ls_sweeps s)
     then (case sweep_step (ls_sweeps s ! i) (ls_mem s) of
       Some (x, m) \<Rightarrow> Some (s\<lparr>ls_mem := m, ls_sweeps := (ls_sweeps s)[i := x]\<rparr>) | None \<Rightarrow> None)
     else None)"
| "move_limiter lib (Wait t) s = (if ls_clock s \<le> t then Some (s\<lparr>ls_clock := t\<rparr>) else None)"

fun move_all :: "('f, 'l) rate_lib \<Rightarrow> limiter_move list \<Rightarrow> ('f, 'l) limiter_sys \<Rightarrow> ('f, 'l) limiter_sys option" where
  "move_all lib [] s = Some s"
| "move_all lib (mv # mvs) s = (case move_limiter lib mv s of Some s' \<Rightarrow> move_all lib mvs s' | None \<Rightarrow> None)"

fun is_start :: "limiter_move \<Rightarrow> bool" where
  "is_start (Start keys) = True"
| "is_start _ = False"

lemma move_limiter_step: "move_limiter lib mv s = Some s' \<Longrightarrow> is_start mv \<longrightarrow> evicts \<Longrightarrow> limiter_step lib evicts s s'"
  by (cases mv) (auto split: if_splits prod.splits option.splits intro: limiter_step.intros)

lemma move_all_runs: "move_all lib mvs s = Some s' \<Longrightarrow> (\<exists>mv\<in>set mvs. is_start mv) \<longrightarrow> evicts \<Longrightarrow> limiter_runs lib evicts s s'"
proof (induction mvs arbitrary: s)
  case (Cons mv mvs)
  from Cons.prems(1) obtain s1 where s1: "move_limiter lib mv s = Some s1" "move_all lib mvs s1 = Some s'" by (auto split: option.splits)
  have "limiter_step lib evicts s s1" by (rule move_limiter_step [OF s1(1)]) (use Cons.prems(2) in auto)
  moreover have "limiter_runs lib evicts s1 s'" by (rule Cons.IH [OF s1(2)]) (use Cons.prems(2) in auto)
  ultimately show ?case by (rule converse_rtranclp_into_rtranclp)
qed simp

section \<open>Properties\<close>

text \<open>C19: while nothing is evicted, the decisions of any interleaving of concurrent requests are those that the
  atomic limiter gives to the same requests, one after the other, at times that do not decrease; two first
  requests of an address that race to store its entry get the same limiter.\<close>

theorem limiter_linearizable:
  assumes "limiter_runs lib False (limiter_start rps burst t) s"
  shows "\<exists>es. (\<forall>t. Cleanup t \<notin> set es) \<and> sorted (map event_time es @ [ls_clock s]) \<and>
    decided (ls_requests s) = mset (fst (rate_run lib es (NewRateLimiter rps burst)))"
  using limiter_runs_inv [OF assms] by (auto simp: limiter_inv_def sequential_def)

definition demo_racing :: "limiter_move list" where
  "demo_racing = [Arrive ''a'', Arrive ''a'', Ask 0, Ask 1, Ask 0, Ask 1, Ask 0, Ask 1, Ask 1, Ask 0, Ask 0, Ask 0, Ask 1]"

theorem limiter_linearizable_witness:
  "\<exists>es. fst (rate_run bucket_lib es (NewRateLimiter second 1)) \<in> {[(''a'', True), (''a'', False)], [(''a'', False), (''a'', True)]}"
proof -
  obtain s where s: "move_all bucket_lib demo_racing (limiter_start second 1 0) = Some s"
    "decided (ls_requests s) = {#(''a'', True), (''a'', False)#}"
  proof -
    have "map_option ls_requests (move_all bucket_lib demo_racing (limiter_start second 1 0)) =
        Some [(''a'', Decided True), (''a'', Decided False)]" by code_simp
    then show ?thesis using that by (auto simp: decided_def)
  qed
  have "\<not> (\<exists>mv\<in>set demo_racing. is_start mv)" by (simp add: demo_racing_def)
  with move_all_runs [OF s(1)] have "limiter_runs bucket_lib False (limiter_start second 1 0) s" by blast
  from limiter_linearizable [OF this] obtain es where es: "mset (fst (rate_run bucket_lib es (NewRateLimiter second 1))) =
      {#(''a'', True), (''a'', False)#}" using s(2) by metis
  then have "length (fst (rate_run bucket_lib es (NewRateLimiter second 1))) = 2" by (metis size_mset size_add_mset size_empty Suc_1 One_nat_def)
  then obtain x y where "fst (rate_run bucket_lib es (NewRateLimiter second 1)) = [x, y]"
    by (auto simp: length_Suc_conv numeral_2_eq_2)
  with es show ?thesis by (intro exI [of _ es]) (auto simp: add_eq_conv_ex)
qed

text \<open>C20: clients never share a limiter, in whatever order requests and cleanups interleave: two requests that
  hold the same entry are of the same address, and an entry is the limiter of one address at most.\<close>

theorem limiters_separate:
  assumes "limiter_runs lib evicts (limiter_start rps burst t) s"
    and "(ip, pc) \<in> set (ls_requests s)" "held_ref pc = Some e"
    and "(ip', pc') \<in> set (ls_requests s) \<and> held_ref pc' = Some e \<or> lm_map (ls_mem s) ip' = Some e"
  shows "ip = ip'"
proof -
  obtain own where own: "owned own s" using owned_runs [OF assms(1)] by blast
  have "own e = ip" using owned_pc [OF own assms(2)] assms(3) by blast
  moreover have "own e = ip'" using assms(4) owned_pc [OF own, of ip' pc' e] owned_map [OF own, of ip' e] by blast
  ultimately show ?thesis by simp
qed

theorem limiters_separate_witness:
  "\<exists>s. limiter_runs bucket_lib True (limiter_start second 1 0) s \<and> lm_map (ls_mem s) ''b'' = Some 1 \<and>
     ls_requests s = [(''a'', Deciding 0), (''b'', Deciding 1)] \<and> (\<forall>ip. lm_map (ls_mem s) ip = Some 0 \<longrightarrow> ''a'' = ip)"
proof -
  let ?mvs = "[Start [''a''], Arrive ''a'', Arrive ''b'', Ask 0, Ask 1, Ask 0, Ask 1, Ask 0, Ask 1, Ask 0, Ask 1, Clean 0]"
  have "map_option (\<lambda>s. (ls_requests s, lm_map (ls_mem s) ''b'')) (move_all bucket_lib ?mvs (limiter_start second 1 0)) =
      Some ([(''a'', Deciding 0), (''b'', Deciding 1)], Some 1)" by code_simp
  then obtain s where s: "move_all bucket_lib ?mvs (limiter_start second 1 0) = Some s"
    "ls_requests s = [(''a'', Deciding 0), (''b'', Deciding 1)]" "lm_map (ls_mem s) ''b'' = Some 1" by auto
  have run: "limiter_runs bucket_lib True (limiter_start second 1 0) s" by (rule move_all_runs [OF s(1)]) simp
  have "''a'' = ip" if "lm_map (ls_mem s) ip = Some 0" for ip
    by (rule limiters_separate [OF run, of "''a''" "Deciding 0" 0]) (use s(2) that in auto)
  with run s show ?thesis by blast
qed

section \<open>A race of the eviction\<close>

text \<open>
  The sweep looks at an idle entry and deletes its key in two operations. A request in between finds and marks
  the entry, but the key is deleted all the same, and the next request of the client gets a new limiter: of two
  requests at the same instant both are allowed, where the client's limiter and every order of whole
  operations (\<open>eviction_unobservable\<close>) allow one.
\<close>

definition demo_idle :: "limiter_move list" where
  "demo_idle = [Arrive ''a'', Ask 0, Ask 0, Ask 0, Ask 0, Ask 0, Wait (11 * minute), Start [''a''], Clean 0, Clean 0]"

definition demo_burst :: "limiter_move list" where
  "demo_burst = [Arrive ''a'', Ask 1, Ask 1, Ask 1, Clean 0, Arrive ''a'', Ask 2, Ask 2, Ask 2, Ask 2, Ask 2]"

lemma eviction_race:
  "\<exists>s s'. limiter_runs bucket_lib True (limiter_start second 1 0) s \<and> ls_clock s = 11 * minute \<and>
     ls_requests s = [(''a'', Decided True)] \<and>
     limiter_runs bucket_lib True s s' \<and> ls_clock s' = 11 * minute \<and>
     ls_requests s' = [(''a'', Decided True), (''a'', Decided True), (''a'', Decided True)]"
  "limiter_run bucket_lib [0, 11 * minute, 11 * minute] (rt_New bucket_lib second 1) = [True, True, False]"
  "refills bucket_lib second 1"
proof -
  let ?start = "limiter_start second 1 0 :: (int, bucket) limiter_sys"
  have "map_option (\<lambda>s. (ls_requests s, ls_clock s, map_option (\<lambda>s. (ls_requests s, ls_clock s)) (move_all bucket_lib demo_burst s)))
      (move_all bucket_lib demo_idle ?start) =
    Some ([(''a'', Decided True)], 11 * minute,
      Some ([(''a'', Decided True), (''a'', Decided True), (''a'', Decided True)], 11 * minute))" by code_simp
  then obtain s s' where s: "move_all bucket_lib demo_idle ?start = Some s" "ls_requests s = [(''a'', Decided True)]" "ls_clock s = 11 * minute"
      "move_all bucket_lib demo_burst s = Some s'" "ls_requests s' = [(''a'', Decided True), (''a'', Decided True), (''a'', Decided True)]"
      "ls_clock s' = 11 * minute" by auto
  with move_all_runs [OF s(1), of True] move_all_runs [OF s(4), of True] show "\<exists>s s'. limiter_runs bucket_lib True ?start s \<and>
      ls_clock s = 11 * minute \<and> ls_requests s = [(''a'', Decided True)] \<and> limiter_runs bucket_lib True s s' \<and> ls_clock s' = 11 * minute \<and>
      ls_requests s' = [(''a'', Decided True), (''a'', Decided True), (''a'', Decided True)]" by blast
  show "limiter_run bucket_lib [0, 11 * minute, 11 * minute] (rt_New bucket_lib second 1) = [True, True, False]" by code_simp
  show "refills bucket_lib second 1" by (rule bucket_refills) (simp_all add: duration_defs)
qed

end
