(* ===== verification/Dispatcher.thy ===== *)
theory Dispatcher
  imports Services "HOL-Library.Multiset"
begin

text \<open>
  \<open>internal/analytics/dispatcher.go\<close>: clicks wait in a bounded channel for a pool of workers.
  Each goroutine is a state of its own, so that submitting, the workers' calls and the
  shutdown interleave in every order; the channel is the list of its buffered events.
\<close>

section \<open>State\<close>

record ClickEvent =
  ev_URLID :: u64
  ev_AccessedAt :: time
  ev_UserAgent :: string
  ev_IP :: string

record 's ClickInserter =
  ci_Insert :: "click \<Rightarrow> ('s, goerr + click) call"

record 's LastAccessUpdater =
  la_UpdateLastAccessed :: "u64 \<Rightarrow> ('s, goerr + unit) call"

record 's ClickCleaner =
  cl_DeleteOlderThan :: "int \<Rightarrow> ('s, goerr + int) call"

text \<open>Where a worker is: waiting for an event, before \<open>Insert\<close>, before \<open>UpdateLastAccessed\<close>, or done.\<close>

datatype worker = Waiting | Inserting ClickEvent | Updating ClickEvent | Exited

record 's Dispatcher =
  ds_events :: "ClickEvent list"
  ds_bufferSize :: nat
  ds_closed :: bool
  ds_workers :: "worker list"
  ds_clickRepo :: "'s ClickInserter"
  ds_urlRepo :: "'s LastAccessUpdater"
  ds_cleaner :: "'s ClickCleaner option"
  ds_retentionDays :: int
  ds_numWorkers :: int
  ds_processed :: int
  ds_dropped :: int

section \<open>Operations\<close>

text \<open>\<open>make(chan ClickEvent, bufferSize)\<close> panics for a negative size: \<open>None\<close>. (So it does for a buffer past the
  address space, which no machine has.)\<close>

definition NewDispatcher ::
  "'s ClickInserter \<Rightarrow> 's LastAccessUpdater \<Rightarrow> int \<Rightarrow> int \<Rightarrow> 's Dispatcher option" where
  "NewDispatcher clickRepo urlRepo numWorkers bufferSize =
     (if bufferSize < 0 then None
      else Some \<lparr>ds_events = [], ds_bufferSize = nat bufferSize, ds_closed = False, ds_workers = [],
        ds_clickRepo = clickRepo, ds_urlRepo = urlRepo, ds_cleaner = None, ds_retentionDays = 0,
        ds_numWorkers = numWorkers, ds_processed = 0, ds_dropped = 0\<rparr>)"

definition WithRetention :: "'s Dispatcher \<Rightarrow> 's ClickCleaner \<Rightarrow> int \<Rightarrow> 's Dispatcher" where
  "WithRetention d cleaner retentionDays = d\<lparr>ds_cleaner := Some cleaner, ds_retentionDays := retentionDays\<rparr>"

text \<open>The first waiting worker takes an event that is sent while the buffer is empty and of size 0.\<close>

definition hand_over :: "ClickEvent \<Rightarrow> worker list \<Rightarrow> worker list option" where
  "hand_over e ws = (if Waiting \<in> set ws
     then Some (takeWhile (\<lambda>w. w \<noteq> Waiting) ws @ Inserting e # tl (dropWhile (\<lambda>w. w \<noteq> Waiting) ws)) else None)"

text \<open>
  \<open>select { case d.events <- event: default: ... }\<close>: the event is buffered, or taken by a worker
  when the channel has no buffer, or dropped; sending on a closed channel panics: \<open>None\<close>.
\<close>

definition Submit :: "ClickEvent \<Rightarrow> 's Dispatcher \<Rightarrow> 's Dispatcher option" where
  "Submit event d =
     (if ds_closed d then None
      else if length (ds_events d) < ds_bufferSize d then Some (d\<lparr>ds_events := ds_events d @ [event]\<rparr>)
      else case (if ds_bufferSize d = 0 then hand_over event (ds_workers d) else None) of
             Some ws \<Rightarrow> Some (d\<lparr>ds_workers := ws\<rparr>)
           | None \<Rightarrow> Some (d\<lparr>ds_dropped := int64 (ds_dropped d + 1)\<rparr>))"

text \<open>\<open>Run\<close> starts the workers (the loops over tickers are below).\<close>

definition dispatcher_Run :: "'s Dispatcher \<Rightarrow> 's Dispatcher" where
  "dispatcher_Run d = d\<lparr>ds_workers := ds_workers d @ replicate (nat (ds_numWorkers d)) Waiting\<rparr>"

definition QueueLen :: "'s Dispatcher \<Rightarrow> nat" where "QueueLen d = length (ds_events d)"
definition Processed :: "'s Dispatcher \<Rightarrow> int" where "Processed d = ds_processed d"
definition Dropped :: "'s Dispatcher \<Rightarrow> int" where "Dropped d = ds_dropped d"

definition click_of :: "ClickEvent \<Rightarrow> click" where
  "click_of event = \<lparr>c_ID = 0, c_URLID = ev_URLID event, c_AccessedAt = ev_AccessedAt event,
     c_UserAgent = ev_UserAgent event, c_IP = ev_IP event\<rparr>"

text \<open>
  One step of the goroutine \<open>worker()\<close>: it receives, inserts the click, updates the URL's last
  access and counts, whatever the two calls return; it ends when the channel is closed and
  empty. \<open>None\<close>: it is blocked or has ended.
\<close>

definition set_worker :: "nat \<Rightarrow> worker \<Rightarrow> 's Dispatcher \<Rightarrow> 's Dispatcher" where
  "set_worker i w d = d\<lparr>ds_workers := (ds_workers d)[i := w]\<rparr>"

definition worker_step :: "nat \<Rightarrow> 's Dispatcher \<times> 's \<Rightarrow> ('s Dispatcher \<times> 's) option" where
  "worker_step i x = (case x of (d, s) \<Rightarrow>
     if i < length (ds_workers d)
     then (case ds_workers d ! i of
             Waiting \<Rightarrow>
               (case ds_events d of
                  [] \<Rightarrow> if ds_closed d then Some (set_worker i Exited d, s) else None
                | e # es \<Rightarrow> Some ((set_worker i (Inserting e) d)\<lparr>ds_events := es\<rparr>, s))
           | Inserting e \<Rightarrow>
               Some (set_worker i (Updating e) d, snd (ci_Insert (ds_clickRepo d) (click_of e) s))
           | Updating e \<Rightarrow>
               Some ((set_worker i Waiting d)\<lparr>ds_processed := int64 (ds_processed d + 1)\<rparr>,
                     snd (la_UpdateLastAccessed (ds_urlRepo d) (ev_URLID e) s))
           | Exited \<Rightarrow> None)
     else None)"

text \<open>\<open>close(d.events)\<close> panics on a channel that is closed: \<open>None\<close>.\<close>

definition close_events :: "'s Dispatcher \<Rightarrow> 's Dispatcher option" where
  "close_events d = (if ds_closed d then None else Some (d\<lparr>ds_closed := True\<rparr>))"

text \<open>\<open>d.wg.Wait()\<close> returns once every worker has ended; at the timeout the rest is reported.\<close>

definition drained :: "'s Dispatcher \<Rightarrow> bool" where
  "drained d \<longleftrightarrow> (\<forall>w\<in>set (ds_workers d). w = Exited)"

definition shutdown_warning :: "'s Dispatcher \<Rightarrow> nat option" where
  "shutdown_warning d = (if drained d then None else Some (length (ds_events d)))"

text \<open>\<open>cleanupLoop\<close> and \<open>statsLoop\<close>: what their \<open>select\<close> receives.\<close>

datatype loop_event = Tick | Done

fun cleanupLoop :: "'s ClickCleaner \<Rightarrow> int \<Rightarrow> loop_event list \<Rightarrow> 's \<Rightarrow> 's" where
  "cleanupLoop cleaner days [] s = s"
| "cleanupLoop cleaner days (Done # es) s = s"
| "cleanupLoop cleaner days (Tick # es) s = cleanupLoop cleaner days es (snd (cl_DeleteOlderThan cleaner days s))"

text \<open>The counters a tick of \<open>statsLoop\<close> logs, for the dispatcher as it is at each tick.\<close>

fun statsLoop :: "(loop_event \<times> 's Dispatcher) list \<Rightarrow> (int \<times> int \<times> nat) list" where
  "statsLoop [] = []"
| "statsLoop ((Done, d) # es) = []"
| "statsLoop ((Tick, d) # es) = (ds_processed d, ds_dropped d, length (ds_events d)) # statsLoop es"

end
