(* ===== verification/Handlers.thy ===== *)
theory Handlers
  imports RateLimit Dispatcher
begin

text \<open>
  \<open>internal/handler\<close>: the HTTP handlers over the services, with the JSON they read and write and
  the status of every error. Dereferencing a nil pointer and sending on the closed channel of
  the dispatcher panic.
\<close>

section \<open>\<open>dto.go\<close>\<close>

definition WriteJSON :: "int \<Rightarrow> json \<Rightarrow> writer \<Rightarrow> writer" where
  "WriteJSON status data = Encode_json data \<circ> WriteHeader status \<circ> Header_Set ''Content-Type'' ''application/json''"

definition WriteError :: "int \<Rightarrow> string \<Rightarrow> string \<Rightarrow> writer \<Rightarrow> writer" where
  "WriteError status msg code = WriteJSON status (error_json msg code)"

definition ShortenRequest_fields :: "string field list" where
  "ShortenRequest_fields = [string_field ''url'' (\<lambda>f. f)]"

definition ReportRequest_fields :: "string field list" where
  "ReportRequest_fields = [string_field ''reason'' (\<lambda>f. f)]"

definition shorten_response :: "string \<Rightarrow> string \<Rightarrow> json" where
  "shorten_response h short = JObj [(''hash'', JStr h), (''short_url'', JStr short)]"

definition report_response :: "string \<Rightarrow> json" where
  "report_response msg = JObj [(''message'', JStr msg)]"

text \<open>A field with \<open>omitempty\<close> is left out when it is empty.\<close>

definition omitempty :: "string \<Rightarrow> string \<Rightarrow> (string \<times> json) list" where
  "omitempty name v = (if v = [] then [] else [(name, JStr v)])"

definition malicious_json :: "string \<Rightarrow> string \<Rightarrow> string \<Rightarrow> string \<Rightarrow> json" where
  "malicious_json error0 code details report =
     JObj ([(''error'', JStr error0), (''code'', JStr code)] @ omitempty ''details'' details @ omitempty ''report'' report)"

definition nil_dereference :: string where
  "nil_dereference = ''runtime error: invalid memory address or nil pointer dereference''"

definition respond :: "(writer \<Rightarrow> writer) \<Rightarrow> 's \<Rightarrow> 's conn \<Rightarrow> string option \<times> 's conn" where
  "respond f s c = serve_return (on_writer f (c\<lparr>cn_state := s\<rparr>))"

definition respond_error :: "int \<Rightarrow> string \<Rightarrow> string \<Rightarrow> 's \<Rightarrow> 's conn \<Rightarrow> string option \<times> 's conn" where
  "respond_error status msg code = respond (WriteError status msg code)"

section \<open>\<open>shorten.go\<close>\<close>

record 's ShortenHandler =
  hs_Shorten :: "ctx \<Rightarrow> string \<Rightarrow> ('s, shorten_result) call"
  hs_baseURL :: string

definition NewShortenHandler :: "(ctx \<Rightarrow> string \<Rightarrow> ('s, shorten_result) call) \<Rightarrow> string \<Rightarrow> 's ShortenHandler" where
  "NewShortenHandler svc baseURL = \<lparr>hs_Shorten = svc, hs_baseURL = baseURL\<rparr>"

definition engines_text :: "scan_result \<Rightarrow> string" where
  "engines_text r = ''detected by '' @ format_int (sr_Positives r) @ ''/'' @ format_int (sr_Total r) @ '' security engines''"

definition shorten_failure :: "unicode_tables \<Rightarrow> scan_result \<Rightarrow> goerr \<Rightarrow> writer \<Rightarrow> writer" where
  "shorten_failure uc r e =
     (if err_is e ErrURLMalicious
      then WriteJSON 422 (malicious_json ''url flagged as malicious'' ''ERR_URL_MALICIOUS'' (engines_text r) (sr_Permalink r))
      else if err_is e ErrInvalidURL then WriteError 400 (err_text uc e) ''ERR_INVALID_URL''
      else if err_is e ErrURLHasCredentials then WriteError 400 (err_text uc e) ''ERR_URL_CREDENTIALS''
      else if err_is e ErrURLPrivateIP then WriteError 400 (err_text uc e) ''ERR_URL_PRIVATE_IP''
      else if err_is e ErrURLSelfRef then WriteError 400 (err_text uc e) ''ERR_URL_SELF_REF''
      else if err_is e ErrURLBlocked then WriteError 400 (err_text uc e) ''ERR_URL_BLOCKED''
      else if err_is e ErrURLHomograph then WriteError 400 (err_text uc e) ''ERR_URL_HOMOGRAPH''
      else WriteError 500 ''internal server error'' ''ERR_INTERNAL'')"

definition ShortenHandle :: "unicode_tables \<Rightarrow> 's ShortenHandler \<Rightarrow> 's handler" where
  "ShortenHandle uc h r c = (case Decode_strict uc ShortenRequest_fields (rq_Body r) [] of
     Inl MaxBytesError \<Rightarrow> respond_error 413 ''request body too large'' ''ERR_BODY_TOO_LARGE'' (cn_state c) c
   | Inl UnknownFieldError \<Rightarrow> respond_error 400 ''unknown fields in request body'' ''ERR_UNKNOWN_FIELDS'' (cn_state c) c
   | Inl InvalidBody \<Rightarrow> respond_error 400 ''invalid request body'' ''ERR_INVALID_BODY'' (cn_state c) c
   | Inr url \<Rightarrow> (case hs_Shorten h (rq_ctx r) url (cn_state c) of
        ((u, result, Some e), s) \<Rightarrow> respond (shorten_failure uc result e) s c
      | ((u, result, None), s) \<Rightarrow>
          let c1 = c\<lparr>cn_state := s\<rparr>;
              c2 = (if sr_Status result = ScanUnverified then on_writer (Header_Set ''X-Scan-Status'' ''unverified'') c1 else c1)
          in (case u of
                None \<Rightarrow> (Some nil_dereference, c2)
              | Some u \<Rightarrow> respond (WriteJSON 201 (shorten_response (u_Hash u) (hs_baseURL h @ ''/'' @ u_Hash u))) s c2)))"

section \<open>\<open>redirect.go\<close>\<close>

definition hashPattern :: "string \<Rightarrow> bool" where
  "hashPattern h \<longleftrightarrow> length h = 7 \<and> (\<forall>ch\<in>set h. is_alnum ch)"

record 's RedirectHandler =
  rh_Resolve :: "string \<Rightarrow> ('s, resolve_result) call"
  rh_Submit :: "ClickEvent \<Rightarrow> 's \<Rightarrow> 's option"
  rh_cache :: "(string \<Rightarrow> ('s, goerr + unit) call) option"
  rh_trustedProxies :: string

definition NewRedirectHandlerWithCache ::
  "(string \<Rightarrow> ('s, resolve_result) call) \<Rightarrow> (ClickEvent \<Rightarrow> 's \<Rightarrow> 's option) \<Rightarrow> (string \<Rightarrow> ('s, goerr + unit) call) \<Rightarrow> 's RedirectHandler" where
  "NewRedirectHandlerWithCache svc submit cache =
     \<lparr>rh_Resolve = svc, rh_Submit = submit, rh_cache = Some cache, rh_trustedProxies = []\<rparr>"

definition NewRedirectHandler ::
  "(string \<Rightarrow> ('s, resolve_result) call) \<Rightarrow> (ClickEvent \<Rightarrow> 's \<Rightarrow> 's option) \<Rightarrow> 's RedirectHandler" where
  "NewRedirectHandler svc submit = \<lparr>rh_Resolve = svc, rh_Submit = submit, rh_cache = None, rh_trustedProxies = []\<rparr>"

definition SetTrustedProxies :: "string \<Rightarrow> 's RedirectHandler \<Rightarrow> 's RedirectHandler" where
  "SetTrustedProxies proxies h = h\<lparr>rh_trustedProxies := proxies\<rparr>"

definition sanitizeRedirectURL :: "string \<Rightarrow> string" where
  "sanitizeRedirectURL raw = filter (\<lambda>ch. byte ch \<notin> {13, 10, 9, 0 :: nat}) raw"

definition handler_isTrustedProxy :: "string \<Rightarrow> string \<Rightarrow> bool" where
  "handler_isTrustedProxy ip trustedProxies = (case ParseIP ip of
     None \<Rightarrow> False
   | Some parsed \<Rightarrow> find (\<lambda>proxy0. let proxy = trim_space proxy0 in
         if proxy = [] then False
         else if str_contains proxy ''/''
         then (case parse_cidr proxy of Some cidr \<Rightarrow> net_contains cidr parsed | None \<Rightarrow> False)
         else ip_equal (ParseIP proxy) parsed) (split_byte CHR '','' trustedProxies) \<noteq> None)"

definition clientIP :: "request \<Rightarrow> string \<Rightarrow> string" where
  "clientIP r trustedProxies =
     (let host = (case split_host_port (rq_RemoteAddr r) of Some (h, _) \<Rightarrow> h | None \<Rightarrow> rq_RemoteAddr r);
          xff = header_get (rq_Header r) ''X-Forwarded-For'' in
      if trustedProxies = [] then host
      else if xff = [] then host
      else if handler_isTrustedProxy host trustedProxies then trim_space (hd (split_byte CHR '','' xff))
      else host)"

definition redirect_failure :: "url option \<Rightarrow> goerr \<Rightarrow> writer \<Rightarrow> writer" where
  "redirect_failure u e =
     (if err_is e ErrURLNotFound then WriteError 404 ''url not found'' ''ERR_NOT_FOUND''
      else if err_is e ErrURLExpired then WriteError 410 ''url expired'' ''ERR_URL_EXPIRED''
      else if err_is e ErrURLMalicious
      then WriteJSON 403 (malicious_json ''this url has been flagged as malicious and is no longer available''
             ''ERR_URL_MALICIOUS'' [] (case u of Some u \<Rightarrow> (case u_VTPermalink u of Some p \<Rightarrow> p | None \<Rightarrow> []) | None \<Rightarrow> []))
      else WriteError 500 ''internal server error'' ''ERR_INTERNAL'')"

text \<open>The click, and the redirect itself, once the URL is known to be one.\<close>

definition click_event :: "'s clock \<Rightarrow> 's RedirectHandler \<Rightarrow> request \<Rightarrow> url \<Rightarrow> 's \<Rightarrow> ClickEvent" where
  "click_event now h r u s = \<lparr>ev_URLID = u_ID u, ev_AccessedAt = now s,
     ev_UserAgent = SanitizeLogValue (header_get (rq_Header r) ''User-Agent''),
     ev_IP = AnonymizeIP (clientIP r (rh_trustedProxies h))\<rparr>"

definition redirect_to :: "string \<Rightarrow> writer \<Rightarrow> writer" where
  "redirect_to cleaned = WriteHeader 301 \<circ> Header_Set ''Location'' cleaned
     \<circ> Header_Set ''Cache-Control'' ''private, max-age=0, no-store''"

definition valid_scheme :: "string \<Rightarrow> bool" where
  "valid_scheme cleaned = (case parse_url cleaned of
     None \<Rightarrow> False | Some parsed \<Rightarrow> url_Scheme parsed = ''http'' \<or> url_Scheme parsed = ''https'')"

definition RedirectHandle :: "'s clock \<Rightarrow> 's RedirectHandler \<Rightarrow> 's handler" where
  "RedirectHandle now h r c =
     (let hash = rq_hash r in
      if \<not> hashPattern hash then respond_error 404 ''url not found'' ''ERR_NOT_FOUND'' (cn_state c) c
      else case rh_Resolve h hash (cn_state c) of
        ((u, Some e), s) \<Rightarrow> respond (redirect_failure u e) s c
      | ((None, None), s) \<Rightarrow> (Some nil_dereference, c\<lparr>cn_state := s\<rparr>)
      | ((Some u, None), s) \<Rightarrow>
          (let cleaned = sanitizeRedirectURL (u_OriginalURL u) in
           if \<not> valid_scheme cleaned
           then let s' = (case rh_cache h of None \<Rightarrow> s | Some del \<Rightarrow> snd (del hash s))
                in respond_error 500 ''internal server error'' ''ERR_INTERNAL'' s' c
           else case rh_Submit h (click_event now h r u s) s of
                  None \<Rightarrow> (Some ''send on closed channel'', c\<lparr>cn_state := s\<rparr>)
                | Some s' \<Rightarrow> respond (redirect_to cleaned) s' c))"

section \<open>\<open>analytics.go\<close>\<close>

definition daily_json :: "daily_count \<Rightarrow> json" where
  "daily_json d = JObj [(''Date'', JStr (dc_Date d)), (''Count'', JNum (format_int (dc_Count d)))]"

definition agent_json :: "user_agent_count \<Rightarrow> json" where
  "agent_json a = JObj [(''UserAgent'', JStr (uac_UserAgent a)), (''Count'', JNum (format_int (uac_Count a)))]"

definition stats_json :: "stats \<Rightarrow> json" where
  "stats_json st = JObj [(''total_clicks'', JNum (format_int (st_TotalClicks st))),
     (''clicks_by_day'', JArr (map daily_json (st_ClicksByDay st))),
     (''top_user_agents'', JArr (map agent_json (st_TopUserAgents st)))]"

record 's AnalyticsHandler =
  ha_GetStats :: "string \<Rightarrow> ('s, goerr + stats) call"

definition NewAnalyticsHandler :: "(string \<Rightarrow> ('s, goerr + stats) call) \<Rightarrow> 's AnalyticsHandler" where
  "NewAnalyticsHandler svc = \<lparr>ha_GetStats = svc\<rparr>"

definition AnalyticsHandle :: "'s AnalyticsHandler \<Rightarrow> 's handler" where
  "AnalyticsHandle h r c = (case ha_GetStats h (rq_hash r) (cn_state c) of
     (Inl e, s) \<Rightarrow>
       if err_is e ErrURLNotFound then respond_error 404 ''url not found'' ''ERR_NOT_FOUND'' s c
       else respond_error 500 ''internal server error'' ''ERR_INTERNAL'' s c
   | (Inr st, s) \<Rightarrow> respond (WriteJSON 200 (stats_json st)) s c)"

section \<open>\<open>report.go\<close>\<close>

record 's ReportHandler =
  hr_Report :: "string \<Rightarrow> string \<Rightarrow> string \<Rightarrow> ('s, goerr option) call"

definition NewReportHandler :: "(string \<Rightarrow> string \<Rightarrow> string \<Rightarrow> ('s, goerr option) call) \<Rightarrow> 's ReportHandler" where
  "NewReportHandler svc = \<lparr>hr_Report = svc\<rparr>"

definition report_failure :: "goerr \<Rightarrow> writer \<Rightarrow> writer" where
  "report_failure e =
     (if err_is e ErrURLNotFound then WriteError 404 ''url not found'' ''ERR_NOT_FOUND''
      else if err_is e ErrDuplicateReport then WriteError 409 ''url already reported by this ip'' ''ERR_DUPLICATE_REPORT''
      else if err_is e ErrInvalidReason then WriteError 400 ''invalid report reason'' ''ERR_INVALID_REASON''
      else WriteError 500 ''internal server error'' ''ERR_INTERNAL'')"

text \<open>Only the text of a decoding error is looked at, so a body past the limit is an invalid one here.\<close>

definition ReportHandle :: "unicode_tables \<Rightarrow> 's ReportHandler \<Rightarrow> 's handler" where
  "ReportHandle uc h r c =
     (let rawIP = (case split_host_port (rq_RemoteAddr r) of Some (host, _) \<Rightarrow> host | None \<Rightarrow> rq_RemoteAddr r) in
      case Decode_strict uc ReportRequest_fields (rq_Body r) [] of
        Inl UnknownFieldError \<Rightarrow> respond_error 400 ''unknown fields in request body'' ''ERR_UNKNOWN_FIELDS'' (cn_state c) c
      | Inl _ \<Rightarrow> respond_error 400 ''invalid request body'' ''ERR_INVALID_BODY'' (cn_state c) c
      | Inr reason \<Rightarrow> (case hr_Report h (rq_hash r) rawIP reason (cn_state c) of
           (Some e, s) \<Rightarrow> respond (report_failure e) s c
         | (None, s) \<Rightarrow> respond (WriteJSON 201 (report_response ''report received'')) s c))"

section \<open>\<open>health.go\<close>\<close>

text \<open>\<open>Ping\<close> of the two clients, under a timeout of a second: whether it succeeded.\<close>

record 's HealthHandler =
  hh_pingMySQL :: "('s, bool) call"
  hh_pingRedis :: "('s, bool) call"
  hh_healthSecretKey :: string

definition NewHealthHandler :: "('s, bool) call \<Rightarrow> ('s, bool) call \<Rightarrow> 's HealthHandler" where
  "NewHealthHandler db redis = \<lparr>hh_pingMySQL = db, hh_pingRedis = redis, hh_healthSecretKey = []\<rparr>"

definition NewHealthHandlerWithSecret :: "('s, bool) call \<Rightarrow> ('s, bool) call \<Rightarrow> string \<Rightarrow> 's HealthHandler" where
  "NewHealthHandlerWithSecret db redis secretKey =
     \<lparr>hh_pingMySQL = db, hh_pingRedis = redis, hh_healthSecretKey = secretKey\<rparr>"

definition HealthHandle :: "'s HealthHandler \<Rightarrow> 's handler" where
  "HealthHandle h r c = (case hh_pingMySQL h (cn_state c) of (mysqlOK, s1) \<Rightarrow>
     case hh_pingRedis h s1 of (redisOK, s2) \<Rightarrow>
       if mysqlOK \<and> redisOK then respond (WriteJSON 200 (JObj [(''status'', JStr ''ok'')])) s2 c
       else respond (WriteJSON 503 (JObj [(''status'', JStr ''degraded'')])) s2 c)"

definition HandleDetails :: "'s HealthHandler \<Rightarrow> 's handler" where
  "HandleDetails h r c =
     (if hh_healthSecretKey h = [] then respond_error 404 ''not found'' ''ERR_NOT_FOUND'' (cn_state c) c
      else if header_get (rq_Header r) ''X-Health-Key'' \<noteq> hh_healthSecretKey h
      then respond_error 403 ''forbidden'' ''ERR_FORBIDDEN'' (cn_state c) c
      else case hh_pingMySQL h (cn_state c) of (mysqlOK, s1) \<Rightarrow>
           case hh_pingRedis h s1 of (redisOK, s2) \<Rightarrow>
             let mysqlStatus = (if mysqlOK then ''up'' else ''down''); redisStatus = (if redisOK then ''up'' else ''down'');
                 down = (mysqlStatus = ''down'' \<or> redisStatus = ''down'')
             in respond (WriteJSON (if down then 503 else 200)
                  (JObj [(''status'', JStr (if down then ''degraded'' else ''ok'')), (''mysql'', JStr mysqlStatus), (''redis'', JStr redisStatus)])) s2 c)"

end
