(* ===== verification/DispatcherRuns.thy ===== *)
theory DispatcherRuns
  imports Dispatcher
begin

text \<open>
  Every interleaving of the dispatcher's goroutines: requests submit, workers move, the
  shutdown closes the channel, and the database changes under them. Histories of what was
  accepted, dropped, taken and finished are kept beside the state to state what the code promises.
\<close>

section \<open>Steps and their histories\<close>

record 's pool =
  pl_disp :: "'s Dispatcher"
  pl_state :: 's
  pl_accepted :: "ClickEvent list"
  pl_rejected :: "ClickEvent list"
  pl_taken :: "ClickEvent list"
  pl_finished :: "ClickEvent list"

definition pool_start :: "'s Dispatcher \<Rightarrow> 's \<Rightarrow> 's pool" where
  "pool_start d s = \<lparr>pl_disp = d, pl_state = s, pl_accepted = [], pl_rejected = [], pl_taken = [], pl_finished = []\<rparr>"

definition buffers :: "'s Dispatcher \<Rightarrow> bool" where
  "buffers d \<longleftrightarrow> length (ds_events d) < ds_bufferSize d"

definition hands_over :: "'s Dispatcher \<Rightarrow> bool" where
  "hands_over d \<longleftrightarrow> \<not> buffers d \<and> ds_bufferSize d = 0 \<and> Waiting \<in> set (ds_workers d)"

definition submitted :: "ClickEvent \<Rightarrow> 's Dispatcher \<Rightarrow> 's pool \<Rightarrow> 's pool" where
  "submitted e d' x = x\<lparr>pl_disp := d',
     pl_accepted := pl_accepted x @ (if buffers (pl_disp x) \<or> hands_over (pl_disp x) then [e] else []),
     pl_rejected := pl_rejected x @ (if buffers (pl_disp x) \<or> hands_over (pl_disp x) then [] else [e]),
     pl_taken := pl_taken x @ (if hands_over (pl_disp x) then [e] else [])\<rparr>"

definition worked :: "nat \<Rightarrow> 's Dispatcher \<times> 's \<Rightarrow> 's pool \<Rightarrow> 's pool" where
  "worked i y x = x\<lparr>pl_disp := fst y, pl_state := snd y,
     pl_taken := pl_taken x @ (case ds_workers (pl_disp x) ! i of Waiting \<Rightarrow> take 1 (ds_events (pl_disp x)) | _ \<Rightarrow> []),
     pl_finished := pl_finished x @ (case ds_workers (pl_disp x) ! i of Updating e \<Rightarrow> [e] | _ \<Rightarrow> [])\<rparr>"

inductive pool_step :: "('s \<Rightarrow> 's \<Rightarrow> bool) \<Rightarrow> 's pool \<Rightarrow> 's pool \<Rightarrow> bool" for others :: "'s \<Rightarrow> 's \<Rightarrow> bool" where
  submit: "Submit e (pl_disp x) = Some d \<Longrightarrow> pool_step others x (submitted e d x)"
| work: "worker_step i (pl_disp x, pl_state x) = Some y \<Longrightarrow> pool_step others x (worked i y x)"
| close: "close_events (pl_disp x) = Some d \<Longrightarrow> pool_step others x (x\<lparr>pl_disp := d\<rparr>)"
| other: "others (pl_state x) s \<Longrightarrow> pool_step others x (x\<lparr>pl_state := s\<rparr>)"

inductive pool_run :: "('s \<Rightarrow> 's \<Rightarrow> bool) \<Rightarrow> 's pool \<Rightarrow> 's pool \<Rightarrow> bool" for others :: "'s \<Rightarrow> 's \<Rightarrow> bool" and x :: "'s pool" where
  refl: "pool_run others x x"
| step: "pool_run others x y \<Longrightarrow> pool_step others y z \<Longrightarrow> pool_run others x z"

section \<open>What is in flight\<close>

fun held :: "worker \<Rightarrow> ClickEvent multiset" where
  "held (Inserting e) = {#e#}"
| "held (Updating e) = {#e#}"
| "held _ = {#}"

text \<open>What the workers hold, counted by some weight.\<close>

definition worker_sum :: "(worker \<Rightarrow> 'a multiset) \<Rightarrow> worker list \<Rightarrow> 'a multiset" where
  "worker_sum f ws = \<Sum>\<^sub># (image_mset f (mset ws))"

lemma worker_sum_set:
  assumes "i < length ws" shows "worker_sum f (ws[i := w]) + f (ws ! i) = worker_sum f ws + f w"
proof -
  have "mset ws = add_mset (ws ! i) (mset (ws[i := w]) - {#w#})"
    using assms by (simp add: mset_update)
  moreover have "mset (ws[i := w]) = add_mset w (mset (ws[i := w]) - {#w#})"
    using assms by (simp add: set_update_memI)
  ultimately have "worker_sum f ws = f (ws ! i) + \<Sum>\<^sub># (image_mset f (mset (ws[i := w]) - {#w#}))"
    and "worker_sum f (ws[i := w]) = f w + \<Sum>\<^sub># (image_mset f (mset (ws[i := w]) - {#w#}))"
    unfolding worker_sum_def by (metis image_mset_add_mset sum_mset.insert)+
  then show ?thesis by simp
qed

lemma worker_sum_swap:
  "i < length ws \<Longrightarrow> ws ! i = w \<Longrightarrow> worker_sum f (ws[i := w']) = worker_sum f ws + f w' - f w"
  using worker_sum_set [of i ws f w'] by (metis add_diff_cancel_right')

lemma worker_sum_Nil [simp]: "worker_sum f [] = {#}" "worker_sum f (w # ws) = f w + worker_sum f ws"
  by (simp_all add: worker_sum_def)

lemma worker_sum_member: "i < length ws \<Longrightarrow> f (ws ! i) \<subseteq># worker_sum f ws"
proof (induction ws arbitrary: i)
  case (Cons w ws)
  show ?case
  proof (cases i)
    case (Suc j)
    with Cons have "f (ws ! j) \<subseteq># worker_sum f ws" by simp
    then show ?thesis using Suc by (simp add: subset_mset.add_increasing)
  qed simp
qed simp

lemma worker_sum_replicate: "f w = {#} \<Longrightarrow> worker_sum f (replicate n w) = {#}"
  by (induction n) simp_all

definition in_flight :: "worker list \<Rightarrow> ClickEvent multiset" where
  "in_flight = worker_sum held"

lemma in_flight_simps [simp]: "in_flight [] = {#}" "in_flight (w # ws) = held w + in_flight ws"
  by (simp_all add: in_flight_def)

lemma size_in_flight: "size (in_flight ws) \<le> length ws"
proof (induction ws)
  case (Cons w ws)
  then show ?case by (cases w) simp_all
qed simp

text \<open>A hand-over is an update of the first waiting worker.\<close>

lemma hand_over_update:
  "hand_over e ws = Some ws' \<Longrightarrow> \<exists>i < length ws. ws ! i = Waiting \<and> ws' = ws[i := Inserting e]"
proof (induction ws arbitrary: ws')
  case (Cons w ws)
  show ?case
  proof (cases "w = Waiting")
    case True
    with Cons.prems show ?thesis by (auto simp: hand_over_def intro: exI [of _ 0])
  next
    case False
    with Cons.prems obtain vs where vs: "hand_over e ws = Some vs" "ws' = w # vs"
      by (auto simp: hand_over_def split: if_splits)
    from Cons.IH [OF vs(1)] obtain i where "i < length ws" "ws ! i = Waiting" "vs = ws[i := Inserting e]" by blast
    with vs show ?thesis by (intro exI [of _ "Suc i"]) simp
  qed
qed (simp add: hand_over_def)

lemma hand_over_None [simp]: "hand_over e ws = None \<longleftrightarrow> Waiting \<notin> set ws"
  by (simp add: hand_over_def)

section \<open>The invariant of every interleaving\<close>

definition pool_ok :: "'s pool \<Rightarrow> bool" where
  "pool_ok x \<longleftrightarrow>
     pl_accepted x = pl_taken x @ ds_events (pl_disp x) \<and>
     mset (pl_taken x) = in_flight (ds_workers (pl_disp x)) + mset (pl_finished x) \<and>
     length (ds_events (pl_disp x)) \<le> ds_bufferSize (pl_disp x) \<and>
     (Exited \<in> set (ds_workers (pl_disp x)) \<longrightarrow> ds_closed (pl_disp x) \<and> ds_events (pl_disp x) = []) \<and>
     ds_processed (pl_disp x) = int64 (int (length (pl_finished x))) \<and>
     ds_dropped (pl_disp x) = int64 (int (length (pl_rejected x)))"

lemma int64_Suc: "int64 (int64 (int n) + 1) = int64 (int (Suc n))"
proof -
  have "int64 (int64 (int n) + int64 1) = int64 (int n + 1)"
    unfolding int64_def by (rule signed_take_bit_add)
  moreover have "int64 1 = 1" by (simp add: int64_id)
  ultimately show ?thesis by (simp add: add.commute)
qed

lemma in_flight_swap:
  "i < length ws \<Longrightarrow> ws ! i = w \<Longrightarrow> in_flight (ws[i := w']) = in_flight ws + held w' - held w"
  by (simp add: in_flight_def worker_sum_swap)

lemma in_flight_member: "i < length ws \<Longrightarrow> held (ws ! i) \<subseteq># in_flight ws"
  by (simp add: in_flight_def worker_sum_member)

lemma Exited_update: "Exited \<in> set (ws[i := w]) \<Longrightarrow> w \<noteq> Exited \<Longrightarrow> Exited \<in> set ws"
  by (metis insertE set_update_subset_insert subsetD)

text \<open>The three outcomes of \<open>Submit\<close>.\<close>

lemma Submit_cases:
  assumes "Submit e d = Some d'"
  obtains (buffered) "\<not> ds_closed d" "buffers d" "d' = d\<lparr>ds_events := ds_events d @ [e]\<rparr>"
  | (handed) i where "\<not> ds_closed d" "hands_over d" "i < length (ds_workers d)" "ds_workers d ! i = Waiting"
      "d' = set_worker i (Inserting e) d"
  | (dropped) "\<not> ds_closed d" "\<not> buffers d" "\<not> hands_over d" "d' = d\<lparr>ds_dropped := int64 (ds_dropped d + 1)\<rparr>"
proof (cases "buffers d \<or> \<not> hands_over d")
  case True
  with assms show ?thesis
    by (auto simp: Submit_def buffers_def hands_over_def hand_over_def split: if_splits intro: that)
next
  case False
  with assms obtain ws where ws: "\<not> ds_closed d" "hands_over d" "hand_over e (ds_workers d) = Some ws" "d' = d\<lparr>ds_workers := ws\<rparr>"
    by (auto simp: Submit_def buffers_def hands_over_def split: if_splits option.splits)
  with hand_over_update [OF ws(3)] show ?thesis by (auto simp: set_worker_def intro: that(2))
qed

text \<open>The four moves of a worker.\<close>

lemma worker_step_cases:
  assumes "worker_step i (d, s) = Some y"
  obtains (receive) e es where "i < length (ds_workers d)" "ds_workers d ! i = Waiting" "ds_events d = e # es"
      "y = ((set_worker i (Inserting e) d)\<lparr>ds_events := es\<rparr>, s)"
  | (exit) "i < length (ds_workers d)" "ds_workers d ! i = Waiting" "ds_events d = []" "ds_closed d"
      "y = (set_worker i Exited d, s)"
  | (insert) e where "i < length (ds_workers d)" "ds_workers d ! i = Inserting e"
      "y = (set_worker i (Updating e) d, snd (ci_Insert (ds_clickRepo d) (click_of e) s))"
  | (update) e where "i < length (ds_workers d)" "ds_workers d ! i = Updating e"
      "y = ((set_worker i Waiting d)\<lparr>ds_processed := int64 (ds_processed d + 1)\<rparr>,
            snd (la_UpdateLastAccessed (ds_urlRepo d) (ev_URLID e) s))"
  using assms by (auto simp: worker_step_def split: if_splits worker.splits list.splits)

lemma pool_ok_start:
  "pool_ok (pool_start d s) \<longleftrightarrow> ds_events d = [] \<and> in_flight (ds_workers d) = {#} \<and>
     (Exited \<in> set (ds_workers d) \<longrightarrow> ds_closed d) \<and> ds_processed d = 0 \<and> ds_dropped d = 0"
  by (auto simp: pool_ok_def pool_start_def int64_id)

lemma submitted_ok:
  assumes "Submit e (pl_disp x) = Some d" "pool_ok x" shows "pool_ok (submitted e d x)"
  using assms(1)
proof (cases rule: Submit_cases)
  case buffered
  with assms(2) show ?thesis by (auto simp: pool_ok_def submitted_def hands_over_def buffers_def)
next
  case (handed i)
  then have "ds_events (pl_disp x) = []" "\<not> buffers (pl_disp x)"
    using assms(2) by (auto simp: hands_over_def pool_ok_def)
  with handed assms(2) show ?thesis
    by (auto simp: pool_ok_def submitted_def set_worker_def in_flight_swap dest: Exited_update)
next
  case dropped
  with assms(2) show ?thesis by (auto simp: pool_ok_def submitted_def int64_Suc)
qed

lemma worked_ok:
  assumes "worker_step i (pl_disp x, pl_state x) = Some y" "pool_ok x" shows "pool_ok (worked i y x)"
proof -
  have member: "i < length (ds_workers (pl_disp x)) \<Longrightarrow> held (ds_workers (pl_disp x) ! i) \<subseteq># in_flight (ds_workers (pl_disp x))"
    by (rule in_flight_member)
  from assms(1) show ?thesis
  proof (cases rule: worker_step_cases)
    case (update e)
    with member assms(2) show ?thesis
      by (auto simp: pool_ok_def worked_def set_worker_def in_flight_swap int64_Suc dest: Exited_update)
  qed (use member assms(2) in \<open>auto simp: pool_ok_def worked_def set_worker_def in_flight_swap dest: Exited_update\<close>)
qed

lemma pool_step_ok: "pool_step others x y \<Longrightarrow> pool_ok x \<Longrightarrow> pool_ok y"
  by (induction rule: pool_step.induct)
    (auto simp: submitted_ok worked_ok, auto simp: pool_ok_def close_events_def split: if_splits)

lemma pool_run_ok: "pool_run others x y \<Longrightarrow> pool_ok x \<Longrightarrow> pool_ok y"
  by (induction rule: pool_run.induct) (auto intro: pool_step_ok)

section \<open>What a run leaves unchanged\<close>

lemma worker_step_config:
  "worker_step i (d, s) = Some (d', s') \<Longrightarrow> length (ds_workers d') = length (ds_workers d) \<and>
     ds_bufferSize d' = ds_bufferSize d \<and> ds_closed d' = ds_closed d \<and>
     ds_clickRepo d' = ds_clickRepo d \<and> ds_urlRepo d' = ds_urlRepo d"
  by (elim worker_step_cases) (simp_all add: set_worker_def)

lemma Submit_config:
  "Submit e d = Some d' \<Longrightarrow> length (ds_workers d') = length (ds_workers d) \<and>
     ds_bufferSize d' = ds_bufferSize d \<and> ds_closed d' = ds_closed d \<and>
     ds_clickRepo d' = ds_clickRepo d \<and> ds_urlRepo d' = ds_urlRepo d"
  by (elim Submit_cases) (simp_all add: set_worker_def)

definition same_config :: "'s Dispatcher \<Rightarrow> 's Dispatcher \<Rightarrow> bool" where
  "same_config d d' \<longleftrightarrow> length (ds_workers d') = length (ds_workers d) \<and> ds_bufferSize d' = ds_bufferSize d \<and>
     ds_clickRepo d' = ds_clickRepo d \<and> ds_urlRepo d' = ds_urlRepo d"

lemma pool_step_config: "pool_step others x y \<Longrightarrow> same_config (pl_disp x) (pl_disp y)"
proof (induction rule: pool_step.induct)
  case (work i x y)
  then show ?case
    using worker_step_config [of i "pl_disp x" "pl_state x" "fst y" "snd y"] by (simp add: worked_def same_config_def)
qed (auto simp: submitted_def close_events_def same_config_def dest: Submit_config split: if_splits)

lemma pool_run_config: "pool_run others x y \<Longrightarrow> same_config (pl_disp x) (pl_disp y)"
  by (induction rule: pool_run.induct) (auto simp: same_config_def dest!: pool_step_config)

text \<open>The pool the server starts: \<open>NewDispatcher\<close>, \<open>WithRetention\<close> and \<open>Run\<close>.\<close>

definition started :: "'s ClickInserter \<Rightarrow> 's LastAccessUpdater \<Rightarrow> 's ClickCleaner \<Rightarrow> int \<Rightarrow> int \<Rightarrow> int \<Rightarrow> 's Dispatcher option" where
  "started clickRepo urlRepo cleaner retentionDays numWorkers bufferSize =
     map_option (\<lambda>d. dispatcher_Run (WithRetention d cleaner retentionDays)) (NewDispatcher clickRepo urlRepo numWorkers bufferSize)"

lemma started_sel:
  assumes "started clickRepo urlRepo cleaner retentionDays numWorkers bufferSize = Some d"
  shows "ds_events d = []" "ds_bufferSize d = nat bufferSize" "\<not> ds_closed d"
    "ds_workers d = replicate (nat numWorkers) Waiting" "ds_clickRepo d = clickRepo" "ds_urlRepo d = urlRepo"
    "ds_processed d = 0" "ds_dropped d = 0"
  using assms by (auto simp: started_def NewDispatcher_def WithRetention_def dispatcher_Run_def split: if_splits)

lemma in_flight_waiting [simp]: "in_flight (replicate n Waiting) = {#}"
  by (simp add: in_flight_def worker_sum_replicate)

lemma started_ok:
  "started clickRepo urlRepo cleaner retentionDays numWorkers bufferSize = Some d \<Longrightarrow> pool_ok (pool_start d s)"
  by (simp add: pool_ok_start started_sel)

lemma started_run:
  assumes "started clickRepo urlRepo cleaner retentionDays numWorkers bufferSize = Some d"
    and "pool_run others (pool_start d s) x"
  shows "pool_ok x" "length (ds_workers (pl_disp x)) = nat numWorkers" "ds_bufferSize (pl_disp x) = nat bufferSize"
    "ds_clickRepo (pl_disp x) = clickRepo" "ds_urlRepo (pl_disp x) = urlRepo"
  using pool_run_ok [OF assms(2) started_ok [OF assms(1)]] pool_run_config [OF assms(2)]
  by (simp_all add: same_config_def pool_start_def started_sel [OF assms(1)])

section \<open>The end of a run\<close>

lemma in_flight_exited: "\<forall>w\<in>set ws. w = Exited \<Longrightarrow> in_flight ws = {#}"
  by (induction ws) simp_all

lemma drained_all:
  assumes "pool_ok x" "drained (pl_disp x)" "ds_workers (pl_disp x) \<noteq> []"
  shows "ds_closed (pl_disp x)" "ds_events (pl_disp x) = []" "mset (pl_finished x) = mset (pl_accepted x)"
proof -
  have "Exited \<in> set (ds_workers (pl_disp x))"
    using assms(2,3) by (metis drained_def last_in_set)
  moreover have "in_flight (ds_workers (pl_disp x)) = {#}"
    using assms(2) by (simp add: drained_def in_flight_exited)
  ultimately show "ds_closed (pl_disp x)" "ds_events (pl_disp x) = []" "mset (pl_finished x) = mset (pl_accepted x)"
    using assms(1) by (simp_all add: pool_ok_def)
qed

text \<open>What is left to do: an event waiting counts for its three moves, a worker for its exit.\<close>

fun moves_left :: "worker \<Rightarrow> nat" where
  "moves_left Waiting = 1"
| "moves_left (Inserting e) = 3"
| "moves_left (Updating e) = 2"
| "moves_left Exited = 0"

definition work_left :: "'s Dispatcher \<Rightarrow> nat" where
  "work_left d = 3 * length (ds_events d) + sum_list (map moves_left (ds_workers d))"

lemma sum_list_map_update:
  fixes f :: "'a \<Rightarrow> nat"
  shows "i < length xs \<Longrightarrow> sum_list (map f (xs[i := y])) + f (xs ! i) = sum_list (map f xs) + f y"
  by (induction xs arbitrary: i) (auto split: nat.split)

lemma worker_step_work: "worker_step i (d, s) = Some (d', s') \<Longrightarrow> work_left d = Suc (work_left d')"
proof (elim worker_step_cases, goal_cases)
  case (1 e es)
  then show ?case using sum_list_map_update [of i "ds_workers d" moves_left "Inserting e"]
    by (simp add: work_left_def set_worker_def)
next
  case 2
  then show ?case using sum_list_map_update [of i "ds_workers d" moves_left Exited]
    by (simp add: work_left_def set_worker_def)
next
  case (3 e)
  then show ?case using sum_list_map_update [of i "ds_workers d" moves_left "Updating e"]
    by (simp add: work_left_def set_worker_def)
next
  case (4 e)
  then show ?case using sum_list_map_update [of i "ds_workers d" moves_left Waiting]
    by (simp add: work_left_def set_worker_def)
qed

text \<open>After the channel is closed only the end of every worker stops the pool.\<close>

lemma closed_progress:
  assumes "ds_closed d" "\<not> drained d" shows "\<exists>i y. worker_step i (d, s) = Some y"
proof -
  from assms(2) obtain i where i: "i < length (ds_workers d)" "ds_workers d ! i \<noteq> Exited"
    by (auto simp: drained_def in_set_conv_nth)
  have "\<exists>y. worker_step i (d, s) = Some y"
  proof (cases "ds_workers d ! i")
    case Waiting
    with i assms(1) show ?thesis by (cases "ds_events d") (simp_all add: worker_step_def)
  qed (use i in \<open>simp_all add: worker_step_def\<close>)
  then show ?thesis by blast
qed

lemma drained_stops: "drained d \<Longrightarrow> worker_step i (d, s) = None"
proof -
  assume "drained d"
  then have "i < length (ds_workers d) \<Longrightarrow> ds_workers d ! i = Exited" by (simp add: drained_def)
  then show ?thesis by (simp add: worker_step_def)
qed

text \<open>A schedule is the list of the workers that move, in order.\<close>

fun run_workers :: "nat list \<Rightarrow> 's Dispatcher \<times> 's \<Rightarrow> ('s Dispatcher \<times> 's) option" where
  "run_workers [] x = Some x"
| "run_workers (i # is) x = Option.bind (worker_step i x) (run_workers is)"

lemma run_workers_work:
  "run_workers sched (d, s) = Some (d', s') \<Longrightarrow> work_left d = length sched + work_left d'"
proof (induction sched arbitrary: d s)
  case (Cons i sched)
  then obtain e t where "worker_step i (d, s) = Some (e, t)" "run_workers sched (e, t) = Some (d', s')"
    by (auto simp: bind_eq_Some_conv)
  with Cons.IH worker_step_work show ?case by fastforce
qed simp

lemma run_workers_closed:
  "run_workers sched (d, s) = Some (d', s') \<Longrightarrow> ds_closed d' = ds_closed d"
proof (induction sched arbitrary: d s)
  case (Cons i sched)
  then obtain e t where "worker_step i (d, s) = Some (e, t)" "run_workers sched (e, t) = Some (d', s')"
    by (auto simp: bind_eq_Some_conv)
  with Cons.IH worker_step_config show ?case by fastforce
qed simp

lemma moves_left_0: "sum_list (map moves_left ws) = 0 \<Longrightarrow> \<forall>w\<in>set ws. w = Exited"
proof (induction ws)
  case (Cons w ws)
  then show ?case by (cases w) auto
qed simp

text \<open>Every schedule of a closed dispatcher is cut off by \<open>work_left\<close>, and one that cannot be
  continued has drained it; \<open>work_left\<close> moves always do.\<close>

lemma closed_drains:
  assumes "ds_closed d" "run_workers sched (d, s) = Some (d', s')"
  shows "length sched \<le> work_left d" "length sched = work_left d \<Longrightarrow> drained d'"
    "(\<forall>i. worker_step i (d', s') = None) \<Longrightarrow> drained d'"
proof -
  note w = run_workers_work [OF assms(2)]
  show "length sched \<le> work_left d" using w by simp
  { assume "length sched = work_left d"
    then have "sum_list (map moves_left (ds_workers d')) = 0" using w by (simp add: work_left_def)
    then show "drained d'" unfolding drained_def by (rule moves_left_0) }
  { assume "\<forall>i. worker_step i (d', s') = None"
    moreover have "ds_closed d'" using run_workers_closed [OF assms(2)] assms(1) by simp
    ultimately show "drained d'" using closed_progress [of d' s'] by fastforce }
qed

lemma closed_can_drain:
  assumes "ds_closed d"
  shows "\<exists>sched d' s'. run_workers sched (d, s) = Some (d', s') \<and> drained d'"
  using assms
proof (induction "work_left d" arbitrary: d s rule: less_induct)
  case less
  show ?case
  proof (cases "drained d")
    case True
    then show ?thesis by (intro exI [of _ "[]"]) simp
  next
    case False
    then obtain i e t where step: "worker_step i (d, s) = Some (e, t)"
      using closed_progress [OF less.prems] by (metis surj_pair)
    have "work_left e < work_left d" "ds_closed e"
      using worker_step_work [OF step] worker_step_config [OF step] less.prems by simp_all
    from less.hyps [OF this] obtain sched d' s' where "run_workers sched (e, t) = Some (d', s')" "drained d'" by blast
    with step show ?thesis by (intro exI [of _ "i # sched"]) auto
  qed
qed

text \<open>A schedule of the workers is a run of the pool.\<close>

lemma pool_run_trans: "pool_run others y z \<Longrightarrow> pool_run others x y \<Longrightarrow> pool_run others x z"
  by (induction rule: pool_run.induct) (auto intro: pool_run.step)

lemma run_workers_pool:
  "run_workers sched (pl_disp x, pl_state x) = Some (d, s) \<Longrightarrow>
     \<exists>y. pool_run others x y \<and> pl_disp y = d \<and> pl_state y = s \<and> pl_accepted y = pl_accepted x"
proof (induction sched arbitrary: x)
  case Nil
  then show ?case by (auto intro: pool_run.refl)
next
  case (Cons i sched)
  then obtain y where y: "worker_step i (pl_disp x, pl_state x) = Some y" "run_workers sched y = Some (d, s)"
    by (auto simp: bind_eq_Some_conv)
  have w: "pl_disp (worked i y x) = fst y" "pl_state (worked i y x) = snd y" "pl_accepted (worked i y x) = pl_accepted x"
    by (simp_all add: worked_def)
  from Cons.IH [of "worked i y x"] y(2) w obtain z where
    "pool_run others (worked i y x) z" "pl_disp z = d" "pl_state z = s" "pl_accepted z = pl_accepted x" by auto
  moreover have "pool_run others x (worked i y x)"
    by (rule pool_run.step [OF pool_run.refl pool_step.work [OF y(1)]])
  ultimately show ?case using pool_run_trans by blast
qed

lemma closed_pool_drains:
  assumes "ds_closed (pl_disp x)"
  shows "\<exists>y. pool_run others x y \<and> drained (pl_disp y) \<and> pl_accepted y = pl_accepted x"
  using closed_can_drain [OF assms, of "pl_state x"] run_workers_pool [of _ x _ _ others] by blast

section \<open>The contract: a bounded bag of events\<close>

text \<open>
  What the dispatcher promises to the handlers that submit and to the shutdown: it takes an
  event while there is room, refuses one only when its buffer is full, finishes what it has
  taken in any order, and takes nothing once it is closed.
\<close>

record bag =
  bg_pending :: "ClickEvent multiset"
  bg_finished :: "ClickEvent multiset"
  bg_refused :: nat
  bg_open :: bool

inductive bag_step :: "nat \<Rightarrow> nat \<Rightarrow> bag \<Rightarrow> bag \<Rightarrow> bool" for buffer :: nat and workers :: nat where
  accept: "bg_open b \<Longrightarrow> size (bg_pending b) < buffer + workers \<Longrightarrow>
    bag_step buffer workers b (b\<lparr>bg_pending := bg_pending b + {#e#}\<rparr>)"
| refuse: "bg_open b \<Longrightarrow> buffer \<le> size (bg_pending b) \<Longrightarrow>
    bag_step buffer workers b (b\<lparr>bg_refused := bg_refused b + 1\<rparr>)"
| finish: "e \<in># bg_pending b \<Longrightarrow>
    bag_step buffer workers b (b\<lparr>bg_pending := bg_pending b - {#e#}, bg_finished := bg_finished b + {#e#}\<rparr>)"
| shut: "bg_open b \<Longrightarrow> bag_step buffer workers b (b\<lparr>bg_open := False\<rparr>)"

abbreviation bag_run :: "nat \<Rightarrow> nat \<Rightarrow> bag \<Rightarrow> bag \<Rightarrow> bool" where
  "bag_run buffer workers \<equiv> (bag_step buffer workers)\<^sup>*\<^sup>*"

definition empty_bag :: bag where
  "empty_bag = \<lparr>bg_pending = {#}, bg_finished = {#}, bg_refused = 0, bg_open = True\<rparr>"

definition bag_of :: "'s pool \<Rightarrow> bag" where
  "bag_of x = \<lparr>bg_pending = mset (ds_events (pl_disp x)) + in_flight (ds_workers (pl_disp x)),
     bg_finished = mset (pl_finished x), bg_refused = length (pl_rejected x), bg_open = (\<not> ds_closed (pl_disp x))\<rparr>"

lemma bag_of_sel [simp]:
  "bg_pending (bag_of x) = mset (ds_events (pl_disp x)) + in_flight (ds_workers (pl_disp x))"
  "bg_finished (bag_of x) = mset (pl_finished x)" "bg_refused (bag_of x) = length (pl_rejected x)"
  "bg_open (bag_of x) \<longleftrightarrow> \<not> ds_closed (pl_disp x)"
  by (simp_all add: bag_of_def)

lemma in_flight_waiting_less:
  assumes "i < length ws" "ws ! i = Waiting" shows "size (in_flight ws) < length ws"
proof -
  have "size (in_flight (ws[i := Inserting e])) = Suc (size (in_flight ws))" for e
    using in_flight_swap [OF assms, of "Inserting e"] by simp
  with size_in_flight show ?thesis by (metis Suc_le_eq length_list_update)
qed

lemma submitted_bag:
  assumes "Submit e (pl_disp x) = Some d" "pool_ok x"
  shows "bag_step (ds_bufferSize (pl_disp x)) (length (ds_workers (pl_disp x))) (bag_of x) (bag_of (submitted e d x))"
  using assms(1)
proof (cases rule: Submit_cases)
  case buffered
  then have "bag_of (submitted e d x) = bag_of x\<lparr>bg_pending := bg_pending (bag_of x) + {#e#}\<rparr>"
    by (simp add: bag_of_def submitted_def)
  moreover have "size (bg_pending (bag_of x)) < ds_bufferSize (pl_disp x) + length (ds_workers (pl_disp x))"
    using buffered size_in_flight [of "ds_workers (pl_disp x)"] by (simp add: buffers_def)
  ultimately show ?thesis using buffered by (metis bag_of_sel(4) bag_step.accept)
next
  case (handed i)
  then have "bag_of (submitted e d x) = bag_of x\<lparr>bg_pending := bg_pending (bag_of x) + {#e#}\<rparr>"
    by (simp add: bag_of_def submitted_def hands_over_def set_worker_def in_flight_swap)
  moreover have "size (bg_pending (bag_of x)) < ds_bufferSize (pl_disp x) + length (ds_workers (pl_disp x))"
    using assms(2) in_flight_waiting_less [OF handed(3,4)] by (simp add: pool_ok_def)
  ultimately show ?thesis using handed by (metis bag_of_sel(4) bag_step.accept)
next
  case dropped
  then have "bag_of (submitted e d x) = bag_of x\<lparr>bg_refused := bg_refused (bag_of x) + 1\<rparr>"
    by (simp add: bag_of_def submitted_def)
  moreover have "ds_bufferSize (pl_disp x) \<le> size (bg_pending (bag_of x))"
    using dropped by (simp add: buffers_def)
  ultimately show ?thesis using dropped by (metis bag_of_sel(4) bag_step.refuse)
qed

lemma worked_bag:
  assumes "worker_step i (pl_disp x, pl_state x) = Some y"
  shows "bag_of (worked i y x) = bag_of x \<or> bag_step b n (bag_of x) (bag_of (worked i y x))"
  using assms
proof (cases rule: worker_step_cases)
  case (update e)
  then have e: "e \<in># in_flight (ds_workers (pl_disp x))"
    using in_flight_member [of i "ds_workers (pl_disp x)"] by simp
  then have "bag_of (worked i y x) =
      bag_of x\<lparr>bg_pending := bg_pending (bag_of x) - {#e#}, bg_finished := bg_finished (bag_of x) + {#e#}\<rparr>"
    using update by (simp add: bag_of_def worked_def set_worker_def in_flight_swap)
  moreover have "e \<in># bg_pending (bag_of x)" using e by simp
  ultimately show ?thesis by (metis bag_step.finish)
next
  case (insert e)
  then show ?thesis
    using in_flight_member [of i "ds_workers (pl_disp x)"]
    by (simp add: bag_of_def worked_def set_worker_def in_flight_swap)
qed (simp_all add: bag_of_def worked_def set_worker_def in_flight_swap)

text \<open>Each step of the goroutines is a step of the bag, or none.\<close>

lemma pool_step_bag:
  assumes "pool_step others x y" "pool_ok x"
  shows "bag_run (ds_bufferSize (pl_disp x)) (length (ds_workers (pl_disp x))) (bag_of x) (bag_of y)"
  using assms
proof (induction rule: pool_step.induct)
  case (submit e x d)
  then show ?case using submitted_bag by blast
next
  case (work i x y)
  then show ?case using worked_bag [OF work.hyps] by (metis r_into_rtranclp rtranclp.rtrancl_refl)
next
  case (close x d)
  then have "bag_of (x\<lparr>pl_disp := d\<rparr>) = bag_of x\<lparr>bg_open := False\<rparr>" "bg_open (bag_of x)"
    by (auto simp: close_events_def bag_of_def split: if_splits)
  then show ?case by (metis bag_step.shut r_into_rtranclp)
next
  case (other x s)
  then show ?case by (simp add: bag_of_def)
qed

lemma pool_run_bag:
  assumes "pool_run others x y" "pool_ok x"
  shows "bag_run (ds_bufferSize (pl_disp x)) (length (ds_workers (pl_disp x))) (bag_of x) (bag_of y)"
  using assms(1)
proof (induction rule: pool_run.induct)
  case (step y z)
  have "same_config (pl_disp x) (pl_disp y)" by (rule pool_run_config [OF step.hyps(1)])
  then have "bag_run (ds_bufferSize (pl_disp x)) (length (ds_workers (pl_disp x))) (bag_of y) (bag_of z)"
    using pool_step_bag [OF step.hyps(2) pool_run_ok [OF step.hyps(1) assms(2)]] by (simp add: same_config_def)
  with step.IH show ?case by simp
qed simp

end
