(* ===== verification/Contracts.thy ===== *)
theory Contracts
  imports Services UTF8
begin

text \<open>
  What the services may rely on: the laws of the URL store, of the redirect cache and of the
  scanner as locales, over an abstract view of the state (the rows, and what the cache holds
  per hash). The laws hold under faults: a call that fails may or may not have had its
  effect. The services' lemmas are proved once, from the laws alone.
\<close>

section \<open>Views of the state\<close>

text \<open>The statuses a scanner gives; the rows' further status is \<open>pending\<close>.\<close>

definition is_verdict :: "scan_status \<Rightarrow> bool" where
  "is_verdict st \<longleftrightarrow> st \<in> {ScanClean, ScanMalicious, ScanUnverified}"

lemma verdict_utf8: "is_verdict st \<Longrightarrow> utf8_valid st"
  by (auto simp: is_verdict_def scan_status_defs utf8_valid_ascii)

record 's store_view =
  sv_ok :: "'s \<Rightarrow> bool"
  sv_rows :: "'s \<Rightarrow> url list"
  sv_entry :: "'s \<Rightarrow> string \<Rightarrow> (string \<times> string) option"
  sv_ident :: "'s \<Rightarrow> string \<Rightarrow> u64"

text \<open>What no operation but the hash update changes of a row.\<close>

definition row_key :: "url \<Rightarrow> u64 \<times> string \<times> string" where
  "row_key u = (u_ID u, u_Hash u, u_OriginalURL u)"

text \<open>A step that keeps the rows' keys and at most drops cache entries.\<close>

definition keeps :: "'s store_view \<Rightarrow> 's \<Rightarrow> 's \<Rightarrow> bool" where
  "keeps V s s' \<longleftrightarrow> (sv_ok V s \<longrightarrow> sv_ok V s') \<and>
     map row_key (sv_rows V s') = map row_key (sv_rows V s) \<and>
     (\<forall>h. sv_entry V s' h \<in> {sv_entry V s h, None} \<and> sv_ident V s' h \<in> {sv_ident V s h, 0})"

lemma keeps_refl [simp, intro]: "keeps V s s"
  by (simp add: keeps_def)

lemma keeps_trans [trans]: "keeps V s s' \<Longrightarrow> keeps V s' s'' \<Longrightarrow> keeps V s s''"
  unfolding keeps_def by (metis insertCI insertE singletonD)

text \<open>The cache answers with what the store holds: the entry of a hash is the URL of its row.\<close>

definition coherent :: "'s store_view \<Rightarrow> (string \<Rightarrow> string \<Rightarrow> bool) \<Rightarrow> 's \<Rightarrow> bool" where
  "coherent V same s \<longleftrightarrow>
     (\<forall>h orig st. sv_entry V s h = Some (orig, st) \<longrightarrow> \<not> same [] h \<and>
        (\<exists>u\<in>set (sv_rows V s). same (u_Hash u) h \<and> u_OriginalURL u = orig)) \<and>
     (\<forall>h. sv_ident V s h \<noteq> 0 \<longrightarrow> \<not> same [] h \<and>
        (\<exists>u\<in>set (sv_rows V s). same (u_Hash u) h \<and> u_ID u = sv_ident V s h))"

text \<open>Every row has passed validation, and its hash is the encoding of its id once it has one.\<close>

definition row_good :: "lib \<Rightarrow> string \<Rightarrow> url \<Rightarrow> bool" where
  "row_good lib baseURL u \<longleftrightarrow>
     ValidateURL (lib_uc lib) (lib_idna lib) (u_OriginalURL u) baseURL = Inr () \<and>
     u_Hash u \<in> {[], Encode (u_ID u)}"

definition rows_good :: "lib \<Rightarrow> string \<Rightarrow> url list \<Rightarrow> bool" where
  "rows_good lib baseURL us \<longleftrightarrow> (\<forall>u\<in>set us. row_good lib baseURL u)"

definition system_ok :: "'s store_view \<Rightarrow> (string \<Rightarrow> string \<Rightarrow> bool) \<Rightarrow> lib \<Rightarrow> string \<Rightarrow> 's \<Rightarrow> bool" where
  "system_ok V same lib baseURL s \<longleftrightarrow>
     sv_ok V s \<and> coherent V same s \<and> rows_good lib baseURL (sv_rows V s)"

lemma row_good_key: "row_key u = row_key u' \<Longrightarrow> row_good lib baseURL u = row_good lib baseURL u'"
  by (simp add: row_key_def row_good_def)

lemma same_keys_row:
  assumes "map row_key us' = map row_key us" "u \<in> set us"
  shows "\<exists>u'\<in>set us'. row_key u' = row_key u"
proof -
  have "row_key u \<in> set (map row_key us')" using assms by simp
  then show ?thesis by auto
qed

lemma rows_good_keys:
  assumes "map row_key us' = map row_key us" "rows_good lib baseURL us"
  shows "rows_good lib baseURL us'"
  unfolding rows_good_def
proof
  fix u' assume "u' \<in> set us'"
  then obtain u where "u \<in> set us" "row_key u = row_key u'" using same_keys_row [OF assms(1) [symmetric]] by blast
  then show "row_good lib baseURL u'" using assms(2) row_good_key [of u u'] by (auto simp: rows_good_def)
qed

text \<open>Coherence survives as long as rows keep their ids and URLs and never change a hash once set.\<close>

definition row_evolves :: "url \<Rightarrow> url \<Rightarrow> bool" where
  "row_evolves u u' \<longleftrightarrow> u_ID u' = u_ID u \<and> u_OriginalURL u' = u_OriginalURL u \<and> u_Hash u \<in> {[], u_Hash u'}"

lemma coherent_evolves:
  assumes "coherent V same s"
    and rows: "\<And>u. u \<in> set (sv_rows V s) \<Longrightarrow> \<exists>u'\<in>set (sv_rows V s'). row_evolves u u'"
    and entry: "\<And>h. sv_entry V s' h \<in> {sv_entry V s h, None}"
    and ident: "\<And>h. sv_ident V s' h \<in> {sv_ident V s h, 0}"
  shows "coherent V same s'"
proof -
  have keep: "\<exists>u'\<in>set (sv_rows V s'). same (u_Hash u') h \<and> u_OriginalURL u' = u_OriginalURL u \<and> u_ID u' = u_ID u"
    if "u \<in> set (sv_rows V s)" "same (u_Hash u) h" "\<not> same [] h" for u h
    using rows [OF that(1)] that(2,3) by (auto simp: row_evolves_def)
  show ?thesis
    unfolding coherent_def
  proof (intro conjI allI impI)
    fix h orig st assume "sv_entry V s' h = Some (orig, st)"
    then have "sv_entry V s h = Some (orig, st)" using entry [of h] by auto
    then show "\<not> same [] h" "\<exists>u\<in>set (sv_rows V s'). same (u_Hash u) h \<and> u_OriginalURL u = orig"
      using assms(1) keep unfolding coherent_def by blast+
  next
    fix h assume "sv_ident V s' h \<noteq> 0"
    then have "sv_ident V s' h = sv_ident V s h" "sv_ident V s h \<noteq> 0" using ident [of h] by auto
    then show "\<not> same [] h" "\<exists>u\<in>set (sv_rows V s'). same (u_Hash u) h \<and> u_ID u = sv_ident V s' h"
      using assms(1) keep unfolding coherent_def by (metis (full_types))+
  qed
qed

lemma keeps_evolves: "keeps V s s' \<Longrightarrow> u \<in> set (sv_rows V s) \<Longrightarrow> \<exists>u'\<in>set (sv_rows V s'). row_evolves u u'"
  using same_keys_row [of "sv_rows V s'" "sv_rows V s" u]
  by (auto simp: keeps_def row_key_def row_evolves_def)

lemma keeps_system_ok: "keeps V s s' \<Longrightarrow> system_ok V same lib baseURL s \<Longrightarrow> system_ok V same lib baseURL s'"
  unfolding system_ok_def
  using coherent_evolves [of V same s s'] keeps_evolves [of V s s'] rows_good_keys
  by (auto simp: keeps_def)

section \<open>Reading URLs\<close>

locale url_store =
  fixes V :: "'s store_view"
    and same :: "string \<Rightarrow> string \<Rightarrow> bool"
    and FindByHash :: "string \<Rightarrow> ('s, goerr + url) call"
  assumes find_keeps: "keeps V s (snd (FindByHash h s))"
    and find_row: "FindByHash h s = (Inr u, s') \<Longrightarrow> u \<in> set (sv_rows V s) \<and> same (u_Hash u) h"
    and same_refl: "same h h"
    and row_texts: "sv_ok V s \<Longrightarrow> u \<in> set (sv_rows V s) \<Longrightarrow> utf8_valid (u_OriginalURL u) \<and> utf8_valid (u_VTStatus u)"
begin

lemma find_row_after:
  assumes "FindByHash h s = (Inr u, s')"
  shows "\<exists>r\<in>set (sv_rows V s'). row_key r = row_key u \<and> same (u_Hash r) h"
proof -
  have "keeps V s s'" using find_keeps [of s h] assms by simp
  moreover have "u \<in> set (sv_rows V s)" "same (u_Hash u) h" using find_row [OF assms] by simp_all
  ultimately show ?thesis using same_keys_row [of "sv_rows V s'" "sv_rows V s" u]
    by (auto simp: keeps_def row_key_def)
qed

end

section \<open>The redirect cache\<close>

locale url_cache =
  fixes V :: "'s store_view"
    and Get :: "string \<Rightarrow> ('s, goerr + (string \<times> string \<times> u64)) call"
    and Set :: "string \<Rightarrow> string \<Rightarrow> string \<Rightarrow> u64 \<Rightarrow> duration \<Rightarrow> ('s, goerr + unit) call"
    and Delete :: "string \<Rightarrow> ('s, goerr + unit) call"
  assumes get_keeps: "keeps V s (snd (Get h s))"
    and get_hit: "Get h s = (Inr (orig, st, i), s') \<Longrightarrow> sv_entry V s h = Some (orig, st) \<and> sv_ident V s h = i"
    and set_rows: "sv_rows V (snd (Set h orig st i ttl s)) = sv_rows V s"
    and set_ok: "sv_ok V s \<Longrightarrow> sv_ok V (snd (Set h orig st i ttl s))"
    and set_other: "k \<noteq> h \<Longrightarrow> sv_entry V (snd (Set h orig st i ttl s)) k = sv_entry V s k \<and>
      sv_ident V (snd (Set h orig st i ttl s)) k = sv_ident V s k"
    and set_entry: "utf8_valid orig \<Longrightarrow> utf8_valid st \<Longrightarrow>
      sv_entry V (snd (Set h orig st i ttl s)) h \<in> {sv_entry V s h, Some (orig, st)}"
    and set_ident: "sv_ident V (snd (Set h orig st i ttl s)) h \<in> {sv_ident V s h, i}"
    and del_keeps: "keeps V s (snd (Delete h s))"
    and del_gone: "Delete h s = (Inr (), s') \<Longrightarrow> sv_entry V s' h = None"
begin

text \<open>Storing the URL of a row under a hash that selects the row keeps the cache coherent.\<close>

lemma set_coherent:
  assumes coh: "coherent V same s" and u: "u \<in> set (sv_rows V s)" "same (u_Hash u) h" "\<not> same [] h"
    and utf8: "utf8_valid (u_OriginalURL u)" "utf8_valid st"
  shows "coherent V same (snd (Set h (u_OriginalURL u) st (u_ID u) ttl s))"
  unfolding coherent_def set_rows
proof (intro conjI allI impI)
  let ?s = "snd (Set h (u_OriginalURL u) st (u_ID u) ttl s)"
  fix k orig st' assume k: "sv_entry V ?s k = Some (orig, st')"
  have "sv_entry V s k = Some (orig, st') \<or> (k = h \<and> orig = u_OriginalURL u)"
    using k set_other [of k h] set_entry [OF utf8, of h "u_ID u" ttl s] by (cases "k = h") auto
  then show "\<not> same [] k" "\<exists>u\<in>set (sv_rows V s). same (u_Hash u) k \<and> u_OriginalURL u = orig"
    using coh u unfolding coherent_def by blast+
next
  let ?s = "snd (Set h (u_OriginalURL u) st (u_ID u) ttl s)"
  fix k assume k: "sv_ident V ?s k \<noteq> 0"
  have "sv_ident V ?s k = sv_ident V s k \<or> (k = h \<and> sv_ident V ?s k = u_ID u)"
    using set_other [of k h] set_ident by (cases "k = h") auto
  then show "\<not> same [] k" "\<exists>u\<in>set (sv_rows V s). same (u_Hash u) k \<and> u_ID u = sv_ident V ?s k"
    using coh u k unfolding coherent_def by (metis (full_types))+
qed

lemma set_system_ok:
  assumes "system_ok V same lib baseURL s" "u \<in> set (sv_rows V s)" "same (u_Hash u) h" "\<not> same [] h"
    and "utf8_valid (u_OriginalURL u)" "utf8_valid st"
  shows "system_ok V same lib baseURL (snd (Set h (u_OriginalURL u) st (u_ID u) ttl s))"
  using assms set_coherent [of same s u h st ttl] by (simp add: system_ok_def set_ok set_rows)

end

section \<open>The redirector\<close>

locale redirector = url_store V same FindByHash + url_cache V Get Set Delete
  for V :: "'s store_view" and same :: "string \<Rightarrow> string \<Rightarrow> bool"
    and FindByHash :: "string \<Rightarrow> ('s, goerr + url) call"
    and Get :: "string \<Rightarrow> ('s, goerr + (string \<times> string \<times> u64)) call"
    and Set :: "string \<Rightarrow> string \<Rightarrow> string \<Rightarrow> u64 \<Rightarrow> duration \<Rightarrow> ('s, goerr + unit) call"
    and Delete :: "string \<Rightarrow> ('s, goerr + unit) call"
begin

text \<open>A redirector built with this store and this cache, or with no cache.\<close>

definition wired :: "'s redirectorService \<Rightarrow> bool" where
  "wired svc \<longleftrightarrow> ur_FindByHash (rs_repo svc) = FindByHash \<and>
     rs_cache svc \<in> {None, Some \<lparr>ch_Get = Get, ch_Set = Set, ch_Delete = Delete\<rparr>}"

lemma resolve_db_system_ok:
  assumes w: "wired svc" and ok: "system_ok V same lib baseURL s" and h: "\<not> same [] h"
  shows "system_ok V same lib baseURL (snd (resolve_db now svc h s))"
proof -
  obtain r s1 where f: "FindByHash h s = (r, s1)" by (cases "FindByHash h s")
  then have k: "keeps V s s1" using find_keeps [of s h] by simp
  have ok1: "system_ok V same lib baseURL s1" by (rule keeps_system_ok [OF k ok])
  have fur: "ur_FindByHash (rs_repo svc) = FindByHash" using w by (simp add: wired_def)
  show ?thesis
  proof (cases r)
    case Inl
    then show ?thesis using ok1 by (simp add: resolve_db_def fur f)
  next
    case (Inr u)
    obtain v where v: "v \<in> set (sv_rows V s1)" "row_key v = row_key u" "same (u_Hash v) h"
      using find_row_after f Inr by blast
    have "sv_ok V s" using ok by (simp add: system_ok_def)
    then have "utf8_valid (u_OriginalURL u) \<and> utf8_valid (u_VTStatus u)"
      using row_texts find_row f Inr by blast
    then have "system_ok V same lib baseURL (snd (Set h (u_OriginalURL u) (u_VTStatus u) (u_ID u) ttl s1))" for ttl
      using set_system_ok [OF ok1 v(1,3) h, of "u_VTStatus u"] v(2) by (simp add: row_key_def)
    moreover have "system_ok V same lib baseURL (snd (Delete h s1))"
      by (rule keeps_system_ok [OF del_keeps ok1])
    ultimately show ?thesis
      using ok1 w by (auto simp: resolve_db_def fur f Inr wired_def)
  qed
qed

lemma Resolve_system_ok:
  assumes w: "wired svc" and ok: "system_ok V same lib baseURL s" and h: "\<not> same [] h"
  shows "system_ok V same lib baseURL (snd (Resolve now svc h s))"
proof (cases "rs_cache svc")
  case None
  then show ?thesis using resolve_db_system_ok [OF assms] by (simp add: Resolve_def)
next
  case (Some c)
  then have c: "c = \<lparr>ch_Get = Get, ch_Set = Set, ch_Delete = Delete\<rparr>" using w by (simp add: wired_def)
  obtain r s1 where g: "Get h s = (r, s1)" by (cases "Get h s")
  then have ok1: "system_ok V same lib baseURL s1" using keeps_system_ok [OF get_keeps ok, of h] by simp
  have "system_ok V same lib baseURL (snd (Delete h s1))" by (rule keeps_system_ok [OF del_keeps ok1])
  with ok1 resolve_db_system_ok [OF w ok1 h] show ?thesis
    by (auto simp: Resolve_def Some c g split: sum.splits)
qed

text \<open>A successful answer names a row that the hash selects, and its URL.\<close>

definition answers :: "'s \<Rightarrow> string \<Rightarrow> url \<Rightarrow> bool" where
  "answers s h u \<longleftrightarrow> (\<exists>r\<in>set (sv_rows V s). same (u_Hash r) h \<and> u_OriginalURL r = u_OriginalURL u)"

lemma resolve_db_answers:
  assumes "wired svc" "resolve_db now svc h s = ((Some u, None), s')"
  shows "answers s h u"
proof -
  have "ur_FindByHash (rs_repo svc) = FindByHash" using assms(1) by (simp add: wired_def)
  then obtain s1 where f: "FindByHash h s = (Inr u, s1)"
    using assms(2) by (auto simp: resolve_db_def split: prod.splits sum.splits if_splits)
  show ?thesis using find_row [OF f] unfolding answers_def by blast
qed

lemma answers_back:
  assumes "keeps V s s1" "answers s1 h u" shows "answers s h u"
proof -
  obtain r where r: "r \<in> set (sv_rows V s1)" "same (u_Hash r) h" "u_OriginalURL r = u_OriginalURL u"
    using assms(2) by (auto simp: answers_def)
  have "map row_key (sv_rows V s) = map row_key (sv_rows V s1)" using assms(1) by (simp add: keeps_def)
  from same_keys_row [OF this r(1)] r(2,3) show ?thesis
    unfolding answers_def row_key_def by (metis prod.inject)
qed

lemma Resolve_answers:
  assumes w: "wired svc" and ok: "system_ok V same lib baseURL s"
    and r: "Resolve now svc h s = ((Some u, None), s')"
  shows "answers s h u"
proof (cases "rs_cache svc")
  case None
  then show ?thesis using resolve_db_answers [OF w] r by (simp add: Resolve_def)
next
  case (Some c)
  then have c: "c = \<lparr>ch_Get = Get, ch_Set = Set, ch_Delete = Delete\<rparr>" using w by (simp add: wired_def)
  obtain g s1 where g: "Get h s = (g, s1)" by (cases "Get h s")
  show ?thesis
  proof (cases g)
    case Inl
    then have "resolve_db now svc h s1 = ((Some u, None), s')" using r by (simp add: Resolve_def Some c g)
    then have "answers s1 h u" by (rule resolve_db_answers [OF w])
    moreover have "keeps V s s1" using get_keeps [of s h] g by simp
    ultimately show ?thesis by (rule answers_back [rotated])
  next
    case (Inr x)
    then obtain orig st i where x: "g = Inr (orig, st, i)" by (cases x) auto
    then have "u_OriginalURL u = orig"
      using r by (auto simp: Resolve_def Some c g zero_url_def split: if_splits)
    moreover have "sv_entry V s h = Some (orig, st)" using get_hit g x by blast
    ultimately show ?thesis using ok by (auto simp: system_ok_def coherent_def answers_def)
  qed
qed

lemma answers_good:
  assumes "answers s h u" "system_ok V same lib baseURL s"
  shows "\<exists>r\<in>set (sv_rows V s). same (u_Hash r) h \<and> u_OriginalURL r = u_OriginalURL u \<and> row_good lib baseURL r"
  using assms by (auto simp: answers_def system_ok_def rows_good_def)

end

section \<open>Abuse reports\<close>

text \<open>The operations of the report service change rows only in their scan status.\<close>

locale reporter =
  fixes V :: "'s store_view"
    and FindByHash :: "string \<Rightarrow> ('s, goerr + url) call"
    and UpdateVTStatus :: "u64 \<Rightarrow> string \<Rightarrow> ('s, goerr + unit) call"
    and Insert :: "report \<Rightarrow> ('s, goerr + report) call"
    and Count :: "u64 \<Rightarrow> ('s, goerr + int) call"
    and Delete :: "string \<Rightarrow> ('s, goerr + unit) call"
  assumes find_keeps: "keeps V s (snd (FindByHash h s))"
    and status_keeps: "keeps V s (snd (UpdateVTStatus i st s))"
    and insert_keeps: "keeps V s (snd (Insert r s))"
    and count_keeps: "keeps V s (snd (Count i s))"
    and del_keeps: "keeps V s (snd (Delete h s))"
begin

definition service :: "int \<Rightarrow> 's reportService" where
  "service threshold = \<lparr>rt_urlRepo = \<lparr>ru_FindByHash = FindByHash, ru_UpdateVTStatus = UpdateVTStatus\<rparr>,
     rt_reportRepo = \<lparr>rr_Insert = Insert, rr_CountDistinctIPsByURLID = Count\<rparr>,
     rt_cache = \<lparr>rc_Delete = Delete\<rparr>, rt_threshold = threshold\<rparr>"

lemma report_count_keeps: "keeps V s (report_count (service n) h i s)"
proof -
  obtain c s1 where c: "Count i s = (c, s1)" by (cases "Count i s")
  then have k: "keeps V s s1" using count_keeps [of s i] by simp
  have "keeps V s (snd (Delete h (snd (UpdateVTStatus i ''malicious'' s1))))"
    by (rule keeps_trans [OF k keeps_trans [OF status_keeps del_keeps]])
  with k c show ?thesis by (simp add: report_count_def service_def split: sum.split)
qed

lemma Report_keeps: "keeps V s (snd (Report (service n) h ip reason s))"
proof -
  obtain r s1 where f: "FindByHash h s = (r, s1)" by (cases "FindByHash h s")
  then have k1: "keeps V s s1" using find_keeps [of s h] by simp
  have "keeps V s1 (snd (Insert rep s1))" for rep by (rule insert_keeps)
  then have k2: "keeps V s (snd (Insert rep s1))" for rep using keeps_trans [OF k1] by blast
  have k3: "keeps V s (report_count (service n) h i (snd (Insert rep s1)))" for i rep
    by (rule keeps_trans [OF k2 report_count_keeps])
  have sel: "ru_FindByHash (rt_urlRepo (service n)) = FindByHash" "rr_Insert (rt_reportRepo (service n)) = Insert"
    by (simp_all add: service_def)
  show ?thesis
  proof (cases r)
    case Inl then show ?thesis using k1 by (simp add: Report_def sel f)
  next
    case (Inr u)
    let ?rep = "\<lparr>r_ID = 0, r_URLID = u_ID u, r_ReporterIP = AnonymizeIP (stripPort ip), r_Reason = reason, r_CreatedAt = zero_time\<rparr>"
    obtain q s2 where q: "Insert ?rep s1 = (q, s2)" by (cases "Insert ?rep s1")
    then have "keeps V s s2" "keeps V s (report_count (service n) h (u_ID u) s2)"
      using k2 [of ?rep] k3 [of "u_ID u" ?rep] by simp_all
    then show ?thesis using k1 q by (auto simp: Report_def sel f Inr split: sum.split)
  qed
qed

end

section \<open>Shortening\<close>

text \<open>
  The URL store as the shortener uses it. A row is appended with an empty hash; the hash
  update touches the row of its id only; both may fail with or without their effect.
\<close>

locale url_writer =
  fixes V :: "'s store_view"
    and Create :: "url \<Rightarrow> ('s, goerr + url) call"
    and UpdateHash :: "u64 \<Rightarrow> string \<Rightarrow> ('s, goerr + unit) call"
    and UpdateVTResult :: "u64 \<Rightarrow> scan_result \<Rightarrow> ('s, goerr + unit) call"
    and FindByOriginalURL :: "string \<Rightarrow> ('s, goerr + url) call"
  assumes create_ok: "sv_ok V s \<Longrightarrow> sv_ok V (snd (Create u s))"
    and create_cache: "sv_entry V (snd (Create u s)) = sv_entry V s" "sv_ident V (snd (Create u s)) = sv_ident V s"
    and create_rows: "sv_rows V (snd (Create u s)) = sv_rows V s \<or>
      (\<exists>r. sv_rows V (snd (Create u s)) = sv_rows V s @ [r] \<and>
         u_Hash r = u_Hash u \<and> u_OriginalURL r = u_OriginalURL u)"
    and create_done: "sv_ok V s \<Longrightarrow> Create u s = (Inr u', s') \<Longrightarrow> u' = u\<lparr>u_ID := u_ID u'\<rparr> \<and>
      (\<exists>r. sv_rows V s' = sv_rows V s @ [r] \<and> u_ID r = u_ID u' \<and> u_Hash r = u_Hash u \<and>
         u_OriginalURL r = u_OriginalURL u)"
    and hash_ok: "sv_ok V s \<Longrightarrow> sv_ok V (snd (UpdateHash i h s))"
    and hash_cache: "sv_entry V (snd (UpdateHash i h s)) = sv_entry V s" "sv_ident V (snd (UpdateHash i h s)) = sv_ident V s"
    and hash_rows: "sv_rows V (snd (UpdateHash i h s)) \<in>
      {sv_rows V s, map (\<lambda>u. if u_ID u = i then u\<lparr>u_Hash := h\<rparr> else u) (sv_rows V s)}"
    and hash_done: "UpdateHash i h s = (Inr (), s') \<Longrightarrow>
      sv_rows V s' = map (\<lambda>u. if u_ID u = i then u\<lparr>u_Hash := h\<rparr> else u) (sv_rows V s)"
    and result_keeps: "keeps V s (snd (UpdateVTResult i r s))"
    and original_keeps: "keeps V s (snd (FindByOriginalURL orig s))"
    and original_row: "FindByOriginalURL orig s = (Inr u, s') \<Longrightarrow> u \<in> set (sv_rows V s)"

locale shortener = url_writer V Create UpdateHash UpdateVTResult FindByOriginalURL + url_cache V Get Set Delete
  for V :: "'s store_view"
    and same :: "string \<Rightarrow> string \<Rightarrow> bool"
    and Create :: "url \<Rightarrow> ('s, goerr + url) call"
    and UpdateHash :: "u64 \<Rightarrow> string \<Rightarrow> ('s, goerr + unit) call"
    and UpdateVTResult :: "u64 \<Rightarrow> scan_result \<Rightarrow> ('s, goerr + unit) call"
    and FindByOriginalURL :: "string \<Rightarrow> ('s, goerr + url) call"
    and Get :: "string \<Rightarrow> ('s, goerr + (string \<times> string \<times> u64)) call"
    and Set :: "string \<Rightarrow> string \<Rightarrow> string \<Rightarrow> u64 \<Rightarrow> duration \<Rightarrow> ('s, goerr + unit) call"
    and Delete :: "string \<Rightarrow> ('s, goerr + unit) call" +
  fixes Scan :: "ctx \<Rightarrow> string \<Rightarrow> ('s, scan_result \<times> goerr option) call"
  assumes scan_keeps: "keeps V s (snd (Scan (Some dl) url s))"
    and scan_status: "sv_ok V s \<Longrightarrow> is_verdict (sr_Status (fst (fst (Scan (Some dl) url s))))"
    and same_hash: "same h h"
    and same_empty: "\<not> same [] (Encode i)"
    and same_original: "FindByOriginalURL orig s = (Inr u, s') \<Longrightarrow> same (u_OriginalURL u) orig"
    and row_utf8: "sv_ok V s \<Longrightarrow> u \<in> set (sv_rows V s) \<Longrightarrow> utf8_valid (u_OriginalURL u)"
begin

definition wired :: "'s shortenerService \<Rightarrow> bool" where
  "wired svc \<longleftrightarrow>
     sh_repo svc = \<lparr>rp_Create = Create, rp_UpdateHash = UpdateHash, rp_UpdateVTResult = UpdateVTResult,
       rp_FindByOriginalURL = FindByOriginalURL\<rparr> \<and>
     sh_cache svc \<in> {None, Some \<lparr>ch_Get = Get, ch_Set = Set, ch_Delete = Delete\<rparr>} \<and>
     sh_scan svc = \<lparr>sc_Scan = Scan\<rparr>"

lemma keep_system: "keeps V s s' \<Longrightarrow> system_ok V same lib b s \<Longrightarrow> system_ok V same lib b s'"
  by (rule keeps_system_ok)

text \<open>Appending a row with an empty hash and a valid URL.\<close>

lemma create_system_ok:
  assumes ok: "system_ok V same lib b s" and u: "u_Hash u = []"
    "ValidateURL (lib_uc lib) (lib_idna lib) (u_OriginalURL u) b = Inr ()"
  shows "system_ok V same lib b (snd (Create u s))"
proof -
  have "coherent V same (snd (Create u s))"
    by (rule coherent_evolves [of V same s])
      (use ok create_rows [of u s] in \<open>auto simp: system_ok_def create_cache row_evolves_def\<close>)
  moreover have "rows_good lib b (sv_rows V (snd (Create u s)))"
    using ok u create_rows [of u s] by (auto simp: system_ok_def rows_good_def row_good_def)
  ultimately show ?thesis using ok by (simp add: system_ok_def create_ok)
qed

text \<open>Giving the row of an id the hash of that id: the row has it already, or none.\<close>

lemma hash_evolves:
  assumes ok: "system_ok V same lib b s" and r: "r \<in> set (sv_rows V s)" and u: "u \<in> set (sv_rows V s)"
  shows "\<exists>u'\<in>set (sv_rows V (snd (UpdateHash (u_ID r) (Encode (u_ID r)) s))). row_evolves u u'"
proof -
  let ?s = "snd (UpdateHash (u_ID r) (Encode (u_ID r)) s)"
  let ?u = "if u_ID u = u_ID r then u\<lparr>u_Hash := Encode (u_ID r)\<rparr> else u"
  have "u_Hash u \<in> {[], Encode (u_ID u)}" using ok u by (simp add: system_ok_def rows_good_def row_good_def)
  then have "row_evolves u ?u" "row_evolves u u" by (auto simp: row_evolves_def)
  moreover have "?u \<in> set (sv_rows V ?s) \<or> u \<in> set (sv_rows V ?s)"
    using hash_rows [of "u_ID r" "Encode (u_ID r)" s] u by auto
  ultimately show ?thesis by blast
qed

lemma hash_system_ok:
  assumes ok: "system_ok V same lib b s" and r: "r \<in> set (sv_rows V s)"
  shows "system_ok V same lib b (snd (UpdateHash (u_ID r) (Encode (u_ID r)) s))"
proof -
  let ?s = "snd (UpdateHash (u_ID r) (Encode (u_ID r)) s)"
  have "coherent V same ?s"
    by (rule coherent_evolves [of V same s])
      (use ok hash_evolves [OF ok r] in \<open>auto simp: system_ok_def hash_cache\<close>)
  moreover have "rows_good lib b (sv_rows V ?s)"
    using ok hash_rows [of "u_ID r" "Encode (u_ID r)" s]
    by (auto simp: system_ok_def rows_good_def row_good_def split: if_splits)
  ultimately show ?thesis using ok by (simp add: system_ok_def hash_ok)
qed

definition stored :: "'s \<Rightarrow> url \<Rightarrow> bool" where
  "stored s u \<longleftrightarrow> (\<exists>r\<in>set (sv_rows V s). row_key r = row_key u)"

lemma stored_keeps: "keeps V s s' \<Longrightarrow> stored s u \<Longrightarrow> stored s' u"
  using same_keys_row [of "sv_rows V s'" "sv_rows V s"] by (fastforce simp: stored_def keeps_def)

lemma shorten_finish_ok:
  assumes w: "wired svc" and ok: "system_ok V same lib b s"
    and r: "r \<in> set (sv_rows V s)" "u_Hash r = []" "u_ID r = u_ID u" "u_OriginalURL r = normalized"
    and orig: "u_OriginalURL u = normalized" and st: "utf8_valid (sr_Status result)"
  shows "system_ok V same lib b (snd (shorten_finish svc normalized result u s)) \<and>
    (\<forall>u' rs s'. shorten_finish svc normalized result u s = ((Some u', rs, None), s') \<longrightarrow> stored s' u')"
proof -
  let ?h = "Encode (u_ID u)"
  obtain q s1 where q: "UpdateHash (u_ID u) ?h s = (q, s1)" by (cases "UpdateHash (u_ID u) ?h s")
  have ok1: "system_ok V same lib b s1" using hash_system_ok [OF ok r(1)] q by (simp add: r(3))
  have repo: "rp_UpdateHash (sh_repo svc) = UpdateHash" "rp_UpdateVTResult (sh_repo svc) = UpdateVTResult"
    using w by (simp_all add: wired_def)
  show ?thesis
  proof (cases q)
    case Inl then show ?thesis using ok1 by (simp add: shorten_finish_def repo q shorten_err_def)
  next
    case (Inr x)
    let ?r = "r\<lparr>u_Hash := ?h\<rparr>"
    have "?r \<in> set (sv_rows V s1)"
      using hash_done [of "u_ID u" ?h s s1] q Inr r(1,3) by auto
    then have row1: "stored s1 (u\<lparr>u_Hash := ?h, u_VTStatus := v\<rparr>)" for v
      unfolding stored_def by (rule bexI [rotated]) (simp add: row_key_def r orig)
    obtain p s2 where p: "UpdateVTResult (u_ID u) result s1 = (p, s2)" by (cases "UpdateVTResult (u_ID u) result s1")
    then have k: "keeps V s1 s2" using result_keeps [of s1 "u_ID u" result] by simp
    have ok2: "system_ok V same lib b s2" by (rule keep_system [OF k ok1])
    let ?u = "u\<lparr>u_Hash := ?h, u_VTStatus := sr_Status result\<rparr>"
    have "stored s2 ?u" by (rule stored_keeps [OF k row1])
    then obtain v where v: "v \<in> set (sv_rows V s2)" "u_ID v = u_ID u" "u_Hash v = ?h" "u_OriginalURL v = normalized"
      using orig by (auto simp: stored_def row_key_def)
    have "sv_ok V s2" using ok2 by (simp add: system_ok_def)
    then have "utf8_valid normalized" using row_utf8 v by blast
    then have ok3: "system_ok V same lib b (snd (Set ?h normalized (sr_Status result) (u_ID u) ttl s2))" for ttl
      using set_system_ok [OF ok2 v(1), of ?h "sr_Status result" ttl] v same_hash same_empty st by simp
    have "stored (snd (Set ?h normalized (sr_Status result) (u_ID u) ttl s2)) ?u" for ttl
      using \<open>stored s2 ?u\<close> by (simp add: stored_def set_rows)
    then show ?thesis using ok2 ok3 \<open>stored s2 ?u\<close> w
      by (auto simp: shorten_finish_def repo q Inr p Let_def wired_def)
  qed
qed

lemma shorten_new_ok:
  assumes w: "wired svc" and ok: "system_ok V same lib b s"
    and valid: "ValidateURL (lib_uc lib) (lib_idna lib) normalized b = Inr ()"
  shows "system_ok V same lib b (snd (shorten_new now svc ctx normalized s)) \<and>
    (\<forall>u rs s'. shorten_new now svc ctx normalized s = ((Some u, rs, None), s') \<longrightarrow> stored s' u)"
proof -
  obtain dl where dl: "WithTimeout ctx (now s) (sh_vtTimeout svc) = Some dl" by (simp add: WithTimeout_def)
  let ?c = "Some dl"
  obtain result e s1 where sc: "Scan ?c normalized s = ((result, e), s1)"
    by (cases "Scan ?c normalized s") auto
  have ok1: "system_ok V same lib b s1" using keep_system [OF scan_keeps ok, of dl normalized] sc by simp
  have "sv_ok V s" using ok by (simp add: system_ok_def)
  then have st: "utf8_valid (sr_Status result)" using scan_status [of s dl normalized] sc verdict_utf8 by simp
  let ?u = "zero_url\<lparr>u_OriginalURL := normalized,
    u_ExpiresAt := Some (AddDate_days (now s1) (sh_urlExpirationDays svc))\<rparr>"
  obtain q s2 where q: "Create ?u s1 = (q, s2)" by (cases "Create ?u s1")
  have ok2: "system_ok V same lib b s2"
    using create_system_ok [OF ok1, of ?u] valid q by (simp add: zero_url_def)
  have repo: "rp_Create (sh_repo svc) = Create" "sc_Scan (sh_scan svc) = Scan" using w by (simp_all add: wired_def)
  show ?thesis
  proof (cases "sr_Status result = ScanMalicious")
    case True then show ?thesis using ok1 by (simp add: shorten_new_def repo sc dl shorten_err_def)
  next
    case False
    show ?thesis
    proof (cases q)
      case Inl then show ?thesis using ok2 False by (simp add: shorten_new_def repo sc dl q shorten_err_def)
    next
      case (Inr u')
      have "sv_ok V s1" using ok1 by (simp add: system_ok_def)
      then obtain r where r: "u' = ?u\<lparr>u_ID := u_ID u'\<rparr>" "sv_rows V s2 = sv_rows V s1 @ [r]" "u_ID r = u_ID u'"
        "u_Hash r = u_Hash ?u" "u_OriginalURL r = normalized"
        using create_done [of s1 ?u u' s2] q Inr by auto
      have "u_OriginalURL u' = normalized" by (subst r(1)) simp
      then have "system_ok V same lib b (snd (shorten_finish svc normalized result u' s2)) \<and>
        (\<forall>u rs s'. shorten_finish svc normalized result u' s2 = ((Some u, rs, None), s') \<longrightarrow> stored s' u)"
        using shorten_finish_ok [OF w ok2, of r u' normalized result] r st by (simp add: zero_url_def)
      then show ?thesis using False by (simp add: shorten_new_def repo sc dl q Inr)
    qed
  qed
qed

text \<open>The service keeps the system's invariant, and what it returns is stored.\<close>

lemma Shorten_ok:
  assumes w: "wired svc" and ok: "system_ok V same lib (sh_baseURL svc) s"
  shows "system_ok V same lib (sh_baseURL svc) (snd (Shorten lib now svc ctx url s)) \<and>
    (\<forall>u rs s'. Shorten lib now svc ctx url s = ((Some u, rs, None), s') \<longrightarrow> stored s' u)"
proof -
  let ?b = "sh_baseURL svc"
  have repo: "rp_FindByOriginalURL (sh_repo svc) = FindByOriginalURL" using w by (simp add: wired_def)
  show ?thesis
  proof (cases "NormalizeURL (lib_uc lib) url")
    case Inl then show ?thesis using ok by (simp add: Shorten_def shorten_err_def)
  next
    case (Inr normalized)
    show ?thesis
    proof (cases "ValidateURL (lib_uc lib) (lib_idna lib) normalized ?b")
      case Inl then show ?thesis using ok Inr by (simp add: Shorten_def shorten_err_def)
    next
      case valid: (Inr x)
      obtain q s1 where q: "FindByOriginalURL normalized s = (q, s1)" by (cases "FindByOriginalURL normalized s")
      then have k: "keeps V s s1" using original_keeps [of s normalized] by simp
      have ok1: "system_ok V same lib ?b s1" by (rule keep_system [OF k ok])
      have new: "system_ok V same lib ?b (snd (shorten_new now svc ctx normalized s1)) \<and>
        (\<forall>u rs s'. shorten_new now svc ctx normalized s1 = ((Some u, rs, None), s') \<longrightarrow> stored s' u)"
        using shorten_new_ok [OF w ok1] valid by simp
      show ?thesis
      proof (cases q)
        case q': Inl
        then show ?thesis using ok1 new Inr valid
          by (simp add: Shorten_def repo q shorten_err_def)
      next
        case q': (Inr u)
        have "stored s u" using original_row [of normalized s u s1] q q' by (auto simp: stored_def)
        then have "stored s1 u" by (rule stored_keeps [OF k])
        then show ?thesis using ok1 Inr valid q' by (simp add: Shorten_def repo q)
      qed
    qed
  qed
qed

end

end
