(* ===== verification/GoTime.thy ===== *)
theory GoTime
  imports GoNetText
begin

text \<open>
  The part of Go's \<open>time\<close> package that the program prints and reads: the civil date of an
  instant in UTC, and the RFC 3339 text of an instant with nanoseconds as \<open>encoding/json\<close>
  writes a \<open>time.Time\<close> and reads it back. The local zone is UTC, as in the containers.
\<close>

section \<open>Civil dates\<close>

text \<open>
  Years are counted from March on, so that a leap day ends its year: eras of 400 years,
  centuries, leap cycles of four years, years.
\<close>

text \<open>The year of a day in its era, and the day in that year.\<close>

definition year_in_era :: "int \<Rightarrow> int \<times> int" where
  "year_in_era d0 =
     (let c = min 3 (d0 div 36524); d1 = d0 - c * 36524; q = d1 div 1461; d2 = d1 mod 1461;
          a = min 3 (d2 div 365)
      in (c * 100 + q * 4 + a, d2 - a * 365))"

definition days_before_year :: "int \<Rightarrow> int" where
  "days_before_year y = y div 100 * 36524 + y mod 100 div 4 * 1461 + y mod 4 * 365"

definition civil_of_days :: "int \<Rightarrow> int \<times> int \<times> int" where
  "civil_of_days day =
     (let z = day + 719468; (yoe, doy) = year_in_era (z mod 146097);
          mp = (5 * doy + 2) div 153;
          m = (if mp < 10 then mp + 3 else mp - 9)
      in (z div 146097 * 400 + yoe + (if m \<le> 2 then 1 else 0), m, doy - (153 * mp + 2) div 5 + 1))"

definition days_of_civil :: "int \<Rightarrow> int \<Rightarrow> int \<Rightarrow> int" where
  "days_of_civil y0 m d =
     (let y = (if m \<le> 2 then y0 - 1 else y0); mp = (if 2 < m then m - 3 else m + 9)
      in y div 400 * 146097 + days_before_year (y mod 400) + ((153 * mp + 2) div 5 + d - 1) - 719468)"

lemma yoe_parts:
  fixes c q a :: int
  assumes "0 \<le> c" "c \<le> 3" "0 \<le> q" "q \<le> 24" "0 \<le> a" "a \<le> 3"
  defines "y \<equiv> c * 100 + q * 4 + a"
  shows "0 \<le> y" "y < 400" "y div 100 = c" "y mod 100 div 4 = q" "y mod 4 = a"
proof -
  have r: "0 \<le> q * 4 + a" "q * 4 + a < 100" using assms by simp_all
  show "0 \<le> y" "y < 400" using assms by simp_all
  have y: "y = c * 100 + (q * 4 + a)" by (simp add: y_def)
  show "y div 100 = c" unfolding y using r by simp
  have "y mod 100 = q * 4 + a" unfolding y using r by simp
  then show "y mod 100 div 4 = q" using assms by simp
  have "y = (c * 25 + q) * 4 + a" by (simp add: y_def)
  then have "y mod 4 = a mod 4" by (simp only: mod_mult_self3)
  then show "y mod 4 = a" using assms(5,6) by simp
qed

lemma day_parts:
  fixes d0 :: int
  assumes "0 \<le> d0" "d0 < 146097"
  defines "c \<equiv> min 3 (d0 div 36524)"
  defines "d1 \<equiv> d0 - c * 36524"
  defines "q \<equiv> d1 div 1461" and "d2 \<equiv> d1 mod 1461"
  defines "a \<equiv> min 3 (d2 div 365)"
  defines "d3 \<equiv> d2 - a * 365"
  shows "0 \<le> c" "c \<le> 3" "0 \<le> q" "q \<le> 24" "0 \<le> a" "a \<le> 3" "0 \<le> d3" "d3 \<le> 365"
    "c * 36524 + q * 1461 + a * 365 + d3 = d0"
proof -
  have d0: "d0 div 36524 * 36524 \<le> d0" "d0 < d0 div 36524 * 36524 + 36524" by linarith+
  show c: "0 \<le> c" "c \<le> 3" using assms(1) by (simp_all add: c_def pos_imp_zdiv_nonneg_iff)
  have d1: "0 \<le> d1" "d1 \<le> 36524" using d0 assms(1,2) by (auto simp: d1_def c_def min_def)
  show "0 \<le> q" using d1 by (simp add: q_def pos_imp_zdiv_nonneg_iff)
  show "q \<le> 24" using d1(2) by (simp add: q_def)
  have d2: "0 \<le> d2" "d2 < 1461" by (simp_all add: d2_def)
  have d2': "d2 div 365 * 365 \<le> d2" "d2 < d2 div 365 * 365 + 365" by linarith+
  show "0 \<le> a" "a \<le> 3" using d2 by (simp_all add: a_def pos_imp_zdiv_nonneg_iff)
  show "0 \<le> d3" "d3 \<le> 365" using d2 d2' by (auto simp: d3_def a_def min_def)
  have "q * 1461 + d2 = d1" by (simp add: q_def d2_def)
  then show "c * 36524 + q * 1461 + a * 365 + d3 = d0" by (simp add: d3_def d1_def)
qed

lemma month_parts:
  fixes d3 :: int
  assumes "0 \<le> d3" "d3 \<le> 365"
  shows "0 \<le> (5 * d3 + 2) div 153" "(5 * d3 + 2) div 153 \<le> 11"
  using assms by linarith+

lemma year_in_era:
  assumes "0 \<le> d0" "d0 < 146097" "year_in_era d0 = (y, doy)"
  shows "0 \<le> y" "y < 400" "0 \<le> doy" "doy \<le> 365" "days_before_year y + doy = d0"
proof -
  note p = day_parts [OF assms(1,2)]
  note yp = yoe_parts [OF p(1-6)]
  have y: "y = min 3 (d0 div 36524) * 100 + (d0 - min 3 (d0 div 36524) * 36524) div 1461 * 4
    + min 3 ((d0 - min 3 (d0 div 36524) * 36524) mod 1461 div 365)"
    and doy: "doy = (d0 - min 3 (d0 div 36524) * 36524) mod 1461
      - min 3 ((d0 - min 3 (d0 div 36524) * 36524) mod 1461 div 365) * 365"
    using assms(3) by (simp_all only: year_in_era_def Let_def prod.inject)
  show "0 \<le> y" "y < 400" "0 \<le> doy" "doy \<le> 365" unfolding y doy by (rule yp p)+
  show "days_before_year y + doy = d0"
    unfolding days_before_year_def y yp(3,4,5) doy by (rule p(9))
qed

lemma days_of_civil_of_days:
  assumes "civil_of_days day = (y, m, d)" shows "days_of_civil y m d = day"
proof -
  let ?z = "day + 719468"
  obtain yoe doy where yd: "year_in_era (?z mod 146097) = (yoe, doy)" by (cases "year_in_era (?z mod 146097)")
  have "0 \<le> ?z mod 146097" "?z mod 146097 < 146097" by simp_all
  note p = year_in_era [OF this yd]
  let ?mp = "(5 * doy + 2) div 153"
  have mp: "0 \<le> ?mp" "?mp \<le> 11" using month_parts [OF p(3,4)] by simp_all
  note a = assms [unfolded civil_of_days_def Let_def yd prod.case prod.inject]
  from a have m: "m = (if ?mp < 10 then ?mp + 3 else ?mp - 9)" and d: "d = doy - (153 * ?mp + 2) div 5 + 1"
    by (blast intro: sym)+
  from a have y: "y = ?z div 146097 * 400 + yoe + (if m \<le> 2 then 1 else 0)"
    unfolding m by (blast intro: sym)
  have mpm: "(if 2 < m then m - 3 else m + 9) = ?mp" unfolding m using mp by simp
  have y': "(if m \<le> 2 then y - 1 else y) = ?z div 146097 * 400 + yoe" unfolding y by simp
  have e: "(?z div 146097 * 400 + yoe) div 400 = ?z div 146097" "(?z div 146097 * 400 + yoe) mod 400 = yoe"
    using p(1,2) by simp_all
  have "days_of_civil y m d = ?z div 146097 * 146097 + days_before_year yoe + ((153 * ?mp + 2) div 5 + d - 1) - 719468"
    unfolding days_of_civil_def Let_def mpm y' e ..
  also have "\<dots> = ?z div 146097 * 146097 + (days_before_year yoe + doy) - 719468" unfolding d by simp
  also have "\<dots> = day" unfolding p(5) by simp
  finally show ?thesis .
qed

section \<open>RFC 3339\<close>

text \<open>\<open>%0nd\<close> of a non-negative number: padded with zeros.\<close>

definition pad_int :: "nat \<Rightarrow> int \<Rightarrow> string" where
  "pad_int n i = (let s = dec_digits (nat i) in replicate (n - length s) (CHR ''0'') @ s)"

definition date_of :: "int \<Rightarrow> string" where
  "date_of day = (case civil_of_days day of (y, m, d) \<Rightarrow> pad_int 4 y @ ''-'' @ pad_int 2 m @ ''-'' @ pad_int 2 d)"

text \<open>Midnight UTC of a day, as \<open>database/sql\<close> renders a \<open>DATE\<close> column into a string.\<close>

definition date_text :: "int \<Rightarrow> string" where
  "date_text day = date_of day @ ''T00:00:00Z''"

definition day_ns :: int where "day_ns = 86400000000000"

text \<open>The fraction of a second, without trailing zeros.\<close>

definition frac_text :: "int \<Rightarrow> string" where
  "frac_text n = (if n = 0 then [] else CHR ''.'' # rev (dropWhile (\<lambda>c. c = CHR ''0'') (rev (pad_int 9 n))))"

definition clock_text :: "int \<Rightarrow> string" where
  "clock_text s = pad_int 2 (s div 3600) @ '':'' @ pad_int 2 (s div 60 mod 60) @ '':'' @ pad_int 2 (s mod 60)"

text \<open>The layout \<open>time.RFC3339Nano\<close> of an instant in UTC.\<close>

definition time_text :: "time \<Rightarrow> string" where
  "time_text t = date_of (t div day_ns) @ ''T'' @ clock_text (t mod day_ns div second) @
     frac_text (t mod second) @ ''Z''"

text \<open>\<open>MarshalJSON\<close> refuses a year that does not have four digits.\<close>

definition year_of :: "time \<Rightarrow> int" where
  "year_of t = fst (civil_of_days (t div day_ns))"

section \<open>Reading RFC 3339\<close>

text \<open>A field of \<open>k\<close> digits with a value in a range, and the rest of the text.\<close>

definition read_field :: "nat \<Rightarrow> int \<Rightarrow> int \<Rightarrow> string \<Rightarrow> (int \<times> string) option" where
  "read_field k lo hi s =
     (let f = take k s; v = int (dec_val f)
      in if length f = k \<and> (\<forall>c\<in>set f. is_digit c) \<and> lo \<le> v \<and> v \<le> hi then Some (v, drop k s) else None)"

definition read_char :: "char \<Rightarrow> string \<Rightarrow> string option" where
  "read_char c s = (if has_prefix s [c] then Some (drop 1 s) else None)"

definition is_leap :: "int \<Rightarrow> bool" where
  "is_leap y \<longleftrightarrow> y mod 4 = 0 \<and> (y mod 100 \<noteq> 0 \<or> y mod 400 = 0)"

definition days_in_month :: "int \<Rightarrow> int \<Rightarrow> int" where
  "days_in_month y m = (if m = 2 then (if is_leap y then 29 else 28) else if m \<in> {4, 6, 9, 11} then 30 else 31)"

text \<open>Nanoseconds from the digits after a point; from the tenth digit on they are cut off.\<close>

definition nanos :: "string \<Rightarrow> int" where
  "nanos ds = int (dec_val (take 9 (ds @ replicate 9 (CHR ''0''))))"

definition read_frac :: "string \<Rightarrow> int \<times> string" where
  "read_frac s = (if has_prefix s ''.'' \<and> takeWhile is_digit (drop 1 s) \<noteq> []
     then (nanos (takeWhile is_digit (drop 1 s)), dropWhile is_digit (drop 1 s)) else (0, s))"

definition read_date :: "string \<Rightarrow> (int \<times> string) option" where
  "read_date s0 =
     Option.bind (read_field 4 0 9999 s0) (\<lambda>(y, s1). Option.bind (read_char (CHR ''-'') s1) (\<lambda>s2.
     Option.bind (read_field 2 1 12 s2) (\<lambda>(m, s3). Option.bind (read_char (CHR ''-'') s3) (\<lambda>s4.
     Option.bind (read_field 2 1 (days_in_month y m) s4) (\<lambda>(d, s5). Some (days_of_civil y m d, s5))))))"

definition read_clock :: "string \<Rightarrow> (int \<times> string) option" where
  "read_clock s0 =
     Option.bind (read_field 2 0 23 s0) (\<lambda>(h, s1). Option.bind (read_char (CHR '':'') s1) (\<lambda>s2.
     Option.bind (read_field 2 0 59 s2) (\<lambda>(m, s3). Option.bind (read_char (CHR '':'') s3) (\<lambda>s4.
     Option.bind (read_field 2 0 59 s4) (\<lambda>(s, s5). Some (h * 3600 + m * 60 + s, s5))))))"

text \<open>The zone: \<open>Z\<close> or an offset \<open>+hh:mm\<close>, in seconds.\<close>

definition read_zone :: "string \<Rightarrow> int option" where
  "read_zone s = (if s = ''Z'' then Some 0
     else if length s = 6 \<and> (hd s = CHR ''-'' \<or> hd s = CHR ''+'') then
       Option.bind (read_field 2 0 23 (drop 1 s)) (\<lambda>(h, s1). Option.bind (read_char (CHR '':'') s1) (\<lambda>s2.
       Option.bind (read_field 2 0 59 s2) (\<lambda>(m, _).
       Some ((if hd s = CHR ''-'' then - 1 else 1) * (h * 60 + m) * 60))))
     else None)"

definition parse_time :: "string \<Rightarrow> time option" where
  "parse_time s0 =
     Option.bind (read_date s0) (\<lambda>(day, s1). Option.bind (read_char (CHR ''T'') s1) (\<lambda>s2.
     Option.bind (read_clock s2) (\<lambda>(secs, s3). case read_frac s3 of (ns, s4) \<Rightarrow>
     Option.bind (read_zone s4) (\<lambda>off. Some (day * day_ns + (secs - off) * second + ns)))))"

section \<open>Reading back what was written\<close>

lemma read_char_Cons [simp]: "read_char c (c # s) = Some s"
  by (simp add: read_char_def has_prefix_def)

lemma dec_val_zeros: "dec_val (replicate n (CHR ''0'') @ s) = dec_val s"
  by (induction n) (simp_all add: dec_val_def digit_val_def)

lemma length_dec_digits: "n < 10 ^ k \<Longrightarrow> 0 < k \<Longrightarrow> length (dec_digits n) \<le> k"
proof (induction n arbitrary: k rule: dec_digits.induct)
  case (1 n)
  show ?case
  proof (cases "n < 10")
    case True then show ?thesis using 1(3) by (simp add: dec_digits_lt)
  next
    case False
    obtain k' where k: "k = Suc k'" using 1(3) by (cases k) auto
    have "n div 10 < 10 ^ k'" using 1(2) k by (simp add: less_mult_imp_div_less mult.commute)
    moreover have "0 < k'" using 1(2) k False by (cases k') auto
    ultimately have "length (dec_digits (n div 10)) \<le> k'" using 1(1) False by simp
    then show ?thesis using False k by (simp add: dec_digits_ge)
  qed
qed

lemma dec_val_digits: "dec_val (dec_digits n) = n"
proof (induction n rule: dec_digits.induct)
  case (1 n)
  then show ?case by (cases "n < 10") (simp_all add: dec_digits_lt dec_digits_ge dec_val_def)
qed

lemma pad_int_props:
  assumes "0 \<le> i" "i < 10 ^ n" "0 < n"
  shows "length (pad_int n i) = n" "\<forall>c\<in>set (pad_int n i). is_digit c" "int (dec_val (pad_int n i)) = i"
proof -
  have "nat i < 10 ^ n" using assms by (simp add: nat_less_iff)
  then have "length (dec_digits (nat i)) \<le> n" using assms(3) by (rule length_dec_digits)
  then show "length (pad_int n i) = n" by (simp add: pad_int_def Let_def)
  have "is_digit (CHR ''0'')" by (simp add: is_digit_def)
  then show "\<forall>c\<in>set (pad_int n i). is_digit c" by (auto simp: pad_int_def Let_def dec_digits_digits)
  show "int (dec_val (pad_int n i)) = i" using assms(1) by (simp add: pad_int_def Let_def dec_val_zeros dec_val_digits)
qed

lemma read_field_pad:
  assumes "lo \<le> i" "i \<le> hi" "0 \<le> i" "i < 10 ^ n" "0 < n"
  shows "read_field n lo hi (pad_int n i @ s) = Some (i, s)"
  using pad_int_props [OF assms(3-5)] assms(1,2) by (simp add: read_field_def Let_def)

text \<open>The dates that are printed are dates: the day fits its month, 29 February its leap year.\<close>

lemma month_day:
  fixes doy :: int
  assumes "0 \<le> doy" "doy \<le> 365"
  defines "mp \<equiv> (5 * doy + 2) div 153"
  defines "m \<equiv> (if mp < 10 then mp + 3 else mp - 9)" and "d \<equiv> doy - (153 * mp + 2) div 5 + 1"
  shows "1 \<le> m" "m \<le> 12" "1 \<le> d"
    "d \<le> (if m = 2 then 29 else if m \<in> {4, 6, 9, 11} then 30 else 31)" "m = 2 \<Longrightarrow> d = 29 \<Longrightarrow> doy = 365"
proof -
  have b: "mp * 153 \<le> 5 * doy + 2" "5 * doy + 2 < mp * 153 + 153" unfolding mp_def by linarith+
  have "0 \<le> mp" "mp \<le> 11" using month_parts [OF assms(1,2)] by (simp_all add: mp_def)
  then have "mp = 0 \<or> mp = 1 \<or> mp = 2 \<or> mp = 3 \<or> mp = 4 \<or> mp = 5 \<or> mp = 6 \<or> mp = 7 \<or> mp = 8 \<or> mp = 9 \<or> mp = 10 \<or> mp = 11"
    by presburger
  then have "1 \<le> m \<and> m \<le> 12 \<and> 1 \<le> d \<and> d \<le> (if m = 2 then 29 else if m \<in> {4, 6, 9, 11} then 30 else 31) \<and>
      (m = 2 \<longrightarrow> d = 29 \<longrightarrow> doy = 365)"
    using b assms(2) unfolding m_def d_def by (elim disjE) simp_all
  then show "1 \<le> m" "m \<le> 12" "1 \<le> d"
    "d \<le> (if m = 2 then 29 else if m \<in> {4, 6, 9, 11} then 30 else 31)" "m = 2 \<Longrightarrow> d = 29 \<Longrightarrow> doy = 365"
    by blast+
qed

lemma leap_day:
  fixes d0 e :: int
  assumes "0 \<le> d0" "d0 < 146097" "year_in_era d0 = (y, 365)"
  shows "is_leap (e * 400 + y + 1)"
proof -
  define c where "c = min 3 (d0 div 36524)"
  define d1 where "d1 = d0 - c * 36524"
  define q where "q = d1 div 1461"
  define d2 where "d2 = d1 mod 1461"
  define a where "a = min 3 (d2 div 365)"
  have p: "0 \<le> c" "c \<le> 3" "0 \<le> q" "q \<le> 24" "0 \<le> a" "a \<le> 3"
    using day_parts [OF assms(1,2)] unfolding c_def d1_def q_def d2_def a_def by blast+
  have y: "y = c * 100 + q * 4 + a" "d2 - a * 365 = 365"
    using assms(3) by (simp_all add: year_in_era_def Let_def c_def d1_def q_def d2_def a_def)
  have d2: "d2 < 1461" "d2 = d1 - q * 1461" by (simp_all add: d2_def q_def minus_div_mult_eq_mod)
  have "a = 3" using y(2) p(6) d2(1) by (simp add: a_def min_def split: if_splits)
  then have "d1 = q * 1461 + 1460" using y(2) d2(2) by simp
  then have "q = 24 \<Longrightarrow> c = 3"
    using assms(2) by (auto simp: d1_def c_def min_def split: if_splits)
  then have q: "q < 24 \<or> c = 3" using p(4) by linarith
  have yy: "e * 400 + y + 1 = (e * 100 + c * 25 + q + 1) * 4" using y(1) \<open>a = 3\<close> by simp
  show ?thesis
  proof (cases "q = 24")
    case True
    then have "e * 400 + y + 1 = (e + 1) * 400" using y(1) \<open>a = 3\<close> q by simp
    then show ?thesis unfolding is_leap_def by simp
  next
    case False
    have "e * 400 + y + 1 = (e * 4 + c) * 100 + (q * 4 + 4)" using y(1) \<open>a = 3\<close> by simp
    moreover have "0 < q * 4 + 4" "q * 4 + 4 < 100" using False p(3,4) by simp_all
    ultimately have "(e * 400 + y + 1) mod 100 \<noteq> 0" by (simp only: mod_mult_self3) simp
    moreover have "(e * 400 + y + 1) mod 4 = 0" unfolding yy by simp
    ultimately show ?thesis by (simp add: is_leap_def)
  qed
qed

lemma civil_valid:
  assumes "civil_of_days day = (y, m, d)"
  shows "1 \<le> m" "m \<le> 12" "1 \<le> d" "d \<le> days_in_month y m" "d \<le> 31"
proof -
  let ?z = "day + 719468"
  obtain yoe doy where yd: "year_in_era (?z mod 146097) = (yoe, doy)" by (cases "year_in_era (?z mod 146097)")
  have r: "0 \<le> ?z mod 146097" "?z mod 146097 < 146097" by simp_all
  note p = year_in_era [OF r yd]
  note md = month_day [OF p(3,4)]
  note a = assms [unfolded civil_of_days_def Let_def yd prod.case prod.inject]
  from a have m: "m = (if (5 * doy + 2) div 153 < 10 then (5 * doy + 2) div 153 + 3 else (5 * doy + 2) div 153 - 9)"
    and d: "d = doy - (153 * ((5 * doy + 2) div 153) + 2) div 5 + 1" by (blast intro: sym)+
  from a have y: "y = ?z div 146097 * 400 + yoe + (if m \<le> 2 then 1 else 0)" unfolding m by (blast intro: sym)
  note md' = md [folded m d]
  show "1 \<le> m" "m \<le> 12" "1 \<le> d" by (rule md')+
  have "is_leap y" if "m = 2" "d = 29"
  proof -
    have "doy = 365" by (rule md'(5) [OF that])
    then have "is_leap (?z div 146097 * 400 + yoe + 1)" using leap_day [OF r] yd by simp
    then show ?thesis using y that by simp
  qed
  then have "d \<le> 28" if "m = 2" "\<not> is_leap y" using that md'(4) by (cases "d = 29") auto
  then show "d \<le> days_in_month y m" "d \<le> 31"
    using md'(4) by (auto simp: days_in_month_def split: if_splits)
qed

lemma read_date_text:
  assumes "0 \<le> year_of t" "year_of t \<le> 9999"
  shows "read_date (date_of (t div day_ns) @ s) = Some (t div day_ns, s)"
proof -
  obtain y m d where c: "civil_of_days (t div day_ns) = (y, m, d)" by (cases "civil_of_days (t div day_ns)")
  note v = civil_valid [OF c]
  have y: "0 \<le> y" "y \<le> 9999" using assms c by (simp_all add: year_of_def)
  have f: "read_field 4 0 9999 (pad_int 4 y @ r) = Some (y, r)"
    "read_field 2 1 12 (pad_int 2 m @ r) = Some (m, r)"
    "read_field 2 1 (days_in_month y m) (pad_int 2 d @ r) = Some (d, r)" for r
    using y v by (simp_all add: read_field_pad)
  show ?thesis using days_of_civil_of_days [OF c] by (simp add: read_date_def date_of_def c f)
qed

lemma read_clock_text:
  assumes "0 \<le> n" "n < 86400" shows "read_clock (clock_text n @ s) = Some (n, s)"
proof -
  have h: "0 \<le> n div 3600" "n div 3600 \<le> 23" using assms by linarith+
  have f: "read_field 2 0 23 (pad_int 2 (n div 3600) @ r) = Some (n div 3600, r)"
    "read_field 2 0 59 (pad_int 2 (n div 60 mod 60) @ r) = Some (n div 60 mod 60, r)"
    "read_field 2 0 59 (pad_int 2 (n mod 60) @ r) = Some (n mod 60, r)" for r
    using h by (simp_all add: read_field_pad pos_mod_bound [THEN order_less_le_trans])
  have "n div 3600 = n div 60 div 60" by (simp flip: zdiv_zmult2_eq)
  then have "n div 3600 * 3600 + n div 60 mod 60 * 60 + n mod 60 = n"
    using div_mult_mod_eq [of "n div 60" 60] div_mult_mod_eq [of n 60] by linarith
  then show ?thesis by (simp add: read_clock_def clock_text_def f)
qed

lemma strip_zeros:
  obtains k where "p = rev (dropWhile (\<lambda>c. c = z) (rev p)) @ replicate k z"
proof
  let ?t = "takeWhile (\<lambda>c. c = z) (rev p)"
  have "\<forall>c\<in>set ?t. c = z" by (auto dest: set_takeWhileD)
  then have t: "?t = replicate (length ?t) z" by (simp add: replicate_length_same)
  have "p = rev (?t @ dropWhile (\<lambda>c. c = z) (rev p))" by (simp only: takeWhile_dropWhile_id rev_rev_ident)
  also have "\<dots> = rev (dropWhile (\<lambda>c. c = z) (rev p)) @ rev ?t" by (rule rev_append)
  also have "rev ?t = replicate (length ?t) z" by (subst t) simp
  finally show "p = rev (dropWhile (\<lambda>c. c = z) (rev p)) @ replicate (length ?t) z" .
qed

lemma read_frac_text:
  assumes "0 \<le> n" "n < 1000000000" shows "read_frac (frac_text n @ ''Z'') = (n, ''Z'')"
proof (cases "n = 0")
  case True then show ?thesis by (simp add: frac_text_def read_frac_def has_prefix_def)
next
  case False
  let ?p = "pad_int 9 n"
  define t where "t = rev (dropWhile (\<lambda>c. c = CHR ''0'') (rev ?p))"
  have p: "length ?p = 9" "\<forall>c\<in>set ?p. is_digit c" "int (dec_val ?p) = n"
    using pad_int_props [of n 9] assms by simp_all
  obtain k where k: "?p = t @ replicate k (CHR ''0'')" unfolding t_def by (rule strip_zeros)
  have "t \<noteq> []"
  proof
    assume "t = []"
    then have "dec_val ?p = 0" using k dec_val_zeros [of k "[]"] by (simp add: dec_val_def)
    then show False using p(3) False by simp
  qed
  have len: "length t + k = 9" using p(1) k by (metis length_append length_replicate)
  have "take 9 (t @ replicate 9 (CHR ''0'')) = t @ replicate k (CHR ''0'')"
    using len by (simp add: take_replicate min_def)
  then have v: "nanos t = n" using p(3) k by (simp add: nanos_def)
  have dig: "\<forall>c\<in>set t. is_digit c" using p(2) k by (metis Un_iff set_append)
  have z: "\<not> is_digit (CHR ''Z'')" by (simp add: is_digit_def)
  have "takeWhile is_digit (t @ ''Z'') = t" "dropWhile is_digit (t @ ''Z'') = ''Z''"
    using dig z by (simp_all add: takeWhile_append dropWhile_append)
  then show ?thesis using False v \<open>t \<noteq> []\<close> by (simp add: frac_text_def read_frac_def has_prefix_def flip: t_def)
qed

lemma parse_time_text:
  assumes "0 \<le> year_of t" "year_of t \<le> 9999"
  shows "parse_time (time_text t) = Some t"
proof -
  have clk: "0 \<le> t mod day_ns div second" "t mod day_ns div second < 86400"
    by (simp_all add: day_ns_def second_def pos_imp_zdiv_nonneg_iff)
  have "t mod second = t mod day_ns mod second" by (simp add: day_ns_def second_def mod_mod_cancel)
  then have t: "t div day_ns * day_ns + t mod day_ns div second * second + t mod second = t"
    by (metis add.assoc div_mult_mod_eq)
  have "0 \<le> t mod second" "t mod second < 1000000000" by (simp_all add: second_def)
  then show ?thesis
    using read_date_text [OF assms, of "''T'' @ clock_text (t mod day_ns div second) @ frac_text (t mod second) @ ''Z''"]
      read_clock_text [OF clk, of "frac_text (t mod second) @ ''Z''"] t
    by (simp add: parse_time_def time_text_def read_frac_text read_zone_def algebra_simps)
qed

end
