(* ===== verification/Scanner.thy ===== *)
theory Scanner
  imports Services GoJSON GoTime Sha256
begin

text \<open>
  \<open>internal/scanner\<close> without VirusTotal: the scanner that accepts everything
  (\<open>noop.go\<close>), the scanner that remembers results (\<open>cache.go\<close>), and the background
  rescan of unverified URLs (\<open>rescan.go\<close>), over any cache, repository and timer.
\<close>

section \<open>\<open>noop.go\<close>\<close>

definition NoopScan :: "'s clock \<Rightarrow> ctx \<Rightarrow> string \<Rightarrow> ('s, scan_result \<times> goerr option) call" where
  "NoopScan now ctx url s = ((status_result ScanClean (now s), None), s)"

section \<open>\<open>cache.go\<close>\<close>

record 's RawCache =
  rw_GetRaw :: "string \<Rightarrow> ('s, goerr + string) call"
  rw_SetRaw :: "string \<Rightarrow> string \<Rightarrow> duration \<Rightarrow> ('s, goerr + unit) call"

record 's CachedScanner =
  cs_inner :: "'s RawCache"
  cs_scan :: "'s URLScanner"
  cs_ttl :: duration

definition NewCachedScanner :: "'s URLScanner \<Rightarrow> 's RawCache \<Rightarrow> duration \<Rightarrow> 's CachedScanner" where
  "NewCachedScanner inner cache ttl = \<lparr>cs_inner = cache, cs_scan = inner, cs_ttl = ttl\<rparr>"

definition cacheKey :: "string \<Rightarrow> string" where
  "cacheKey rawURL = ''snip:vt:'' @ EncodeToString (Sum256 rawURL)"

text \<open>The JSON of \<open>ScanResult\<close>, which has no field tags; a year of more than four digits does not marshal.\<close>

definition result_json :: "scan_result \<Rightarrow> json" where
  "result_json r = JObj
     [(''Status'', JStr (sr_Status r)), (''Positives'', JNum (format_int (sr_Positives r))),
      (''Total'', JNum (format_int (sr_Total r))), (''ScannedAt'', JStr (time_text (sr_ScannedAt r))),
      (''Permalink'', JStr (sr_Permalink r))]"

definition marshal_result :: "scan_result \<Rightarrow> string option" where
  "marshal_result r = (if 0 \<le> year_of (sr_ScannedAt r) \<and> year_of (sr_ScannedAt r) \<le> 9999
     then Some (json_text (result_json r)) else None)"

definition time_field :: "string \<Rightarrow> ((time \<Rightarrow> time) \<Rightarrow> 'a \<Rightarrow> 'a) \<Rightarrow> 'a field" where
  "time_field name upd = (name, \<lambda>j x. case j of
     JStr s \<Rightarrow> map_option (\<lambda>t. upd (\<lambda>_. t) x) (parse_time s) | _ \<Rightarrow> None)"

definition result_fields :: "scan_result field list" where
  "result_fields =
     [string_field ''Status'' sr_Status_update, int_field ''Positives'' sr_Positives_update,
      int_field ''Total'' sr_Total_update, time_field ''ScannedAt'' sr_ScannedAt_update,
      string_field ''Permalink'' sr_Permalink_update]"

definition unmarshal_result :: "unicode_tables \<Rightarrow> string \<Rightarrow> scan_result option" where
  "unmarshal_result uc data =
     (case parse_json data of None \<Rightarrow> None
      | Some j \<Rightarrow> (case decode_struct uc False result_fields j zero_scan_result of
           (r, ok) \<Rightarrow> if ok then Some r else None))"

text \<open>The scan and the write of its result, after the cache had no readable one.\<close>

definition scan_and_store ::
  "'s CachedScanner \<Rightarrow> ctx \<Rightarrow> string \<Rightarrow> ('s, scan_result \<times> goerr option) call" where
  "scan_and_store c ctx rawURL s =
     (case sc_Scan (cs_scan c) ctx rawURL s of
        ((result, err), s1) \<Rightarrow>
          (case marshal_result result of
             None \<Rightarrow> ((result, err), s1)
           | Some data \<Rightarrow> ((result, err), snd (rw_SetRaw (cs_inner c) (cacheKey rawURL) data (cs_ttl c) s1))))"

definition CachedScan ::
  "unicode_tables \<Rightarrow> 's CachedScanner \<Rightarrow> ctx \<Rightarrow> string \<Rightarrow> ('s, scan_result \<times> goerr option) call" where
  "CachedScan uc c ctx rawURL s =
     (case rw_GetRaw (cs_inner c) (cacheKey rawURL) s of
        (Inl _, s1) \<Rightarrow> scan_and_store c ctx rawURL s1
      | (Inr data, s1) \<Rightarrow>
          (case unmarshal_result uc data of
             Some result \<Rightarrow> ((result, None), s1)
           | None \<Rightarrow> scan_and_store c ctx rawURL s1))"

section \<open>\<open>rescan.go\<close>\<close>

record 's RescanURLRepository =
  rq_FindByVTStatus :: "string \<Rightarrow> ('s, goerr + url list) call"
  rq_UpdateVTResult :: "u64 \<Rightarrow> scan_result \<Rightarrow> ('s, goerr + unit) call"

record 's Rescanner =
  re_scanner :: "'s URLScanner"
  re_urlRepo :: "'s RescanURLRepository"
  re_cache_Delete :: "string \<Rightarrow> ('s, goerr + unit) call"
  re_interval :: duration

definition NewRescanner ::
  "'s URLScanner \<Rightarrow> 's RescanURLRepository \<Rightarrow> (string \<Rightarrow> ('s, goerr + unit) call) \<Rightarrow> duration \<Rightarrow> 's Rescanner" where
  "NewRescanner scanner urlRepo cache_Delete interval =
     \<lparr>re_scanner = scanner, re_urlRepo = urlRepo, re_cache_Delete = cache_Delete, re_interval = interval\<rparr>"

text \<open>
  Timers: \<open>select\<close> between \<open>time.After(d)\<close> and \<open>ctx.Done()\<close>, true when the timer fired, and
  \<open>ctx.Err() != nil\<close>.
\<close>

record 's timers =
  tm_wait :: "ctx \<Rightarrow> duration \<Rightarrow> ('s, bool) call"
  tm_cancelled :: "ctx \<Rightarrow> 's \<Rightarrow> bool"

definition processOne :: "'s timers \<Rightarrow> 's Rescanner \<Rightarrow> ctx \<Rightarrow> url \<Rightarrow> 's \<Rightarrow> 's" where
  "processOne tm r ctx u s =
     (case sc_Scan (re_scanner r) ctx (u_OriginalURL u) s of
        ((result, _), s1) \<Rightarrow>
          let s2 = snd (rq_UpdateVTResult (re_urlRepo r) (u_ID u) result s1);
              s3 = (if sr_Status result = ScanMalicious then snd (re_cache_Delete r (u_Hash u) s2) else s2)
          in snd (tm_wait tm ctx (20 * second) s3))"

fun rescan_loop :: "'s timers \<Rightarrow> 's Rescanner \<Rightarrow> ctx \<Rightarrow> url list \<Rightarrow> 's \<Rightarrow> 's" where
  "rescan_loop tm r ctx [] s = s"
| "rescan_loop tm r ctx (u # us) s =
     (let s1 = processOne tm r ctx u s
      in if tm_cancelled tm ctx s1 then s1 else rescan_loop tm r ctx us s1)"

definition RunCycle :: "'s timers \<Rightarrow> 's Rescanner \<Rightarrow> ctx \<Rightarrow> 's \<Rightarrow> 's" where
  "RunCycle tm r ctx s =
     (case rq_FindByVTStatus (re_urlRepo r) ScanUnverified s of
        (Inl _, s1) \<Rightarrow> s1
      | (Inr urls, s1) \<Rightarrow> if urls = [] then s1 else rescan_loop tm r ctx urls s1)"

text \<open>
  \<open>Run\<close>: what its \<open>select\<close> receives, ticks until the context is done. \<open>time.NewTicker\<close> panics
  for an interval that is not positive: \<open>None\<close>.
\<close>

datatype rescan_event = RescanTick | RescanDone

fun rescan_ticks :: "'s timers \<Rightarrow> 's Rescanner \<Rightarrow> ctx \<Rightarrow> rescan_event list \<Rightarrow> 's \<Rightarrow> 's" where
  "rescan_ticks tm r ctx [] s = s"
| "rescan_ticks tm r ctx (RescanTick # es) s = rescan_ticks tm r ctx es (RunCycle tm r ctx s)"
| "rescan_ticks tm r ctx (RescanDone # es) s = s"

definition rescanner_Run :: "'s timers \<Rightarrow> 's Rescanner \<Rightarrow> ctx \<Rightarrow> rescan_event list \<Rightarrow> 's \<Rightarrow> 's option" where
  "rescanner_Run tm r ctx es s = (if re_interval r \<le> 0 then None else Some (rescan_ticks tm r ctx es s))"

section \<open>Results round-trip\<close>

lemma format_int_hd: "0 \<le> i \<Longrightarrow> \<not> has_prefix (format_int i) ''-'' \<and> \<not> has_prefix (format_int i) ''+''"
proof -
  assume "0 \<le> i"
  then have f: "format_int i = dec_digits (nat i)" by (simp add: format_int_def)
  have "is_digit (hd (dec_digits (nat i)))" by (rule dec_digits_digits) (rule hd_in_set, simp)
  then have "hd (dec_digits (nat i)) \<noteq> CHR ''-''" "hd (dec_digits (nat i)) \<noteq> CHR ''+''" by (auto simp: is_digit_def)
  then show ?thesis unfolding f by (cases "dec_digits (nat i)") (auto simp: has_prefix_def)
qed

lemma atoi_format_int:
  assumes "- (2 ^ 63) \<le> i" "i < 2 ^ 63" shows "atoi (format_int i) = Some i"
proof (cases "i < 0")
  case True
  then have f: "format_int i = CHR ''-'' # dec_digits (nat (- i))" by (simp add: format_int_def)
  show ?thesis using True assms dec_digits_digits
    by (auto simp: atoi_def f Let_def has_prefix_def dec_val_digits)
next
  case False
  then have f: "format_int i = dec_digits (nat i)" by (simp add: format_int_def)
  show ?thesis using False assms format_int_hd [of i] dec_digits_digits
    by (auto simp: atoi_def f Let_def dec_val_digits)
qed

lemma result_fields_find:
  "find_field uc result_fields ''Status'' = Some (string_field ''Status'' sr_Status_update)"
  "find_field uc result_fields ''Positives'' = Some (int_field ''Positives'' sr_Positives_update)"
  "find_field uc result_fields ''Total'' = Some (int_field ''Total'' sr_Total_update)"
  "find_field uc result_fields ''ScannedAt'' = Some (time_field ''ScannedAt'' sr_ScannedAt_update)"
  "find_field uc result_fields ''Permalink'' = Some (string_field ''Permalink'' sr_Permalink_update)"
  by (simp_all add: find_field_def result_fields_def string_field_def int_field_def time_field_def)

text \<open>A result that can be told apart after a round trip: UTF-8 texts and counts of 64 bits.\<close>

definition result_ok :: "scan_result \<Rightarrow> bool" where
  "result_ok r \<longleftrightarrow> utf8_valid (sr_Status r) \<and> utf8_valid (sr_Permalink r) \<and>
     - (2 ^ 63) \<le> sr_Positives r \<and> sr_Positives r < 2 ^ 63 \<and>
     - (2 ^ 63) \<le> sr_Total r \<and> sr_Total r < 2 ^ 63"

lemma digits_ascii: "(\<And>c. c \<in> set s \<Longrightarrow> is_digit c) \<Longrightarrow> is_ascii s"
  by (auto simp: is_ascii_def is_digit_def) fastforce

lemma pad_int_ascii: "is_ascii (pad_int n i)"
proof (rule digits_ascii)
  fix c assume "c \<in> set (pad_int n i)"
  moreover have "is_digit (CHR ''0'')" by (simp add: is_digit_def)
  ultimately show "is_digit c" by (auto simp: pad_int_def Let_def dec_digits_digits)
qed

lemma frac_text_ascii: "is_ascii (frac_text n)"
proof -
  have "set (dropWhile P (rev s)) \<subseteq> set s" for P and s :: string by (auto dest: set_dropWhileD)
  then show ?thesis using pad_int_ascii [of 9 n] by (auto simp: frac_text_def is_ascii_def)
qed

lemma time_text_ascii: "is_ascii (time_text t)"
  by (simp add: time_text_def date_of_def clock_text_def pad_int_ascii frac_text_ascii split: prod.split)

lemma result_json_ok: "result_ok r \<Longrightarrow> json_ok (result_json r)"
proof -
  have "utf8_valid ''Status''" "utf8_valid ''Positives''" "utf8_valid ''Total''" "utf8_valid ''ScannedAt''"
    "utf8_valid ''Permalink''" by (simp_all add: utf8_valid_ascii)
  then show "result_ok r \<Longrightarrow> json_ok (result_json r)"
    by (simp add: result_json_def result_ok_def number_text_format_int utf8_valid_ascii time_text_ascii)
qed

lemma unmarshal_marshal_result:
  assumes "result_ok r" "marshal_result r = Some data"
  shows "unmarshal_result uc data = Some r"
proof -
  have y: "0 \<le> year_of (sr_ScannedAt r)" "year_of (sr_ScannedAt r) \<le> 9999" "data = json_text (result_json r)"
    using assms(2) by (auto simp: marshal_result_def split: if_splits)
  have i: "atoi (format_int (sr_Positives r)) = Some (sr_Positives r)" "atoi (format_int (sr_Total r)) = Some (sr_Total r)"
    using assms(1) by (simp_all add: result_ok_def atoi_format_int)
  show ?thesis
    using parse_json_text_id [OF result_json_ok [OF assms(1)]] parse_time_text [OF y(1,2)] i
    by (simp add: unmarshal_result_def decode_struct_def y(3) result_json_def result_fields_find
        string_field_def int_field_def time_field_def)
qed

end
