(* ===== verification/VirusTotal.thy ===== *)
theory VirusTotal
  imports Scanner
begin

text \<open>
  \<open>internal/scanner/virustotal.go\<close>: submit a URL, poll its analysis every two seconds until
  it is completed or the context is done, and classify it. The HTTP client is a parameter;
  a response carries the bytes read until its end or until an error.
\<close>

record http_request =
  hq_Method :: string
  hq_URL :: string
  hq_Header :: "(string \<times> string) list"
  hq_Body :: string

record http_response =
  rsp_StatusCode :: int
  rsp_Body :: string
  rsp_ReadError :: "goerr option"

record 's http_client =
  hc_Do :: "ctx \<Rightarrow> http_request \<Rightarrow> ('s, goerr + http_response) call"

record 's VirusTotalScanner =
  vt_apiKey :: string
  vt_client :: "'s http_client"
  vt_minPositives :: int
  vt_submitURL :: string
  vt_analysisURL :: string

definition vtSubmitURL :: string where "vtSubmitURL = ''https://www.virustotal.com/api/v3/urls''"
definition vtAnalysisURL :: string where "vtAnalysisURL = ''https://www.virustotal.com/api/v3/analyses/''"
definition vtGUIBase :: string where "vtGUIBase = ''https://www.virustotal.com/gui/url/''"
definition vtPollInterval :: duration where "vtPollInterval = 2 * second"

text \<open>The client stands for the \<open>http.Client\<close> built here, its timeout included.\<close>

definition newScanner :: "string \<Rightarrow> string \<Rightarrow> string \<Rightarrow> 's http_client \<Rightarrow> int \<Rightarrow> 's VirusTotalScanner" where
  "newScanner apiKey submitURL analysisURL client minPositives =
     \<lparr>vt_apiKey = apiKey, vt_client = client, vt_minPositives = minPositives,
      vt_submitURL = submitURL, vt_analysisURL = analysisURL\<rparr>"

definition NewVirusTotalScanner :: "string \<Rightarrow> 's http_client \<Rightarrow> int \<Rightarrow> 's VirusTotalScanner" where
  "NewVirusTotalScanner apiKey client minPositives = newScanner apiKey vtSubmitURL vtAnalysisURL client minPositives"

definition NewVirusTotalScannerWithBase :: "string \<Rightarrow> string \<Rightarrow> 's http_client \<Rightarrow> int \<Rightarrow> 's VirusTotalScanner" where
  "NewVirusTotalScannerWithBase baseURL apiKey client minPositives =
     newScanner apiKey (baseURL @ ''/api/v3/urls'') (baseURL @ ''/api/v3/analyses/'') client minPositives"

text \<open>\<open>http.NewRequestWithContext\<close> fails when the URL does not parse.\<close>

definition NewRequest :: "string \<Rightarrow> string \<Rightarrow> string \<Rightarrow> http_request option" where
  "NewRequest meth url body = (case parse_url url of None \<Rightarrow> None
     | Some _ \<Rightarrow> Some \<lparr>hq_Method = meth, hq_URL = url, hq_Header = [], hq_Body = body\<rparr>)"

definition set_header :: "string \<Rightarrow> string \<Rightarrow> http_request \<Rightarrow> http_request" where
  "set_header k v r = r\<lparr>hq_Header := hq_Header r @ [(k, v)]\<rparr>"

text \<open>\<open>url.Values{"url": {rawURL}}.Encode()\<close>.\<close>

definition form_body :: "string \<Rightarrow> string" where
  "form_body rawURL = ''url='' @ escape EncodeQueryComponent rawURL"

text \<open>\<open>base64.RawURLEncoding\<close>: six bits a character, no padding.\<close>

definition base64url :: string where
  "base64url = ''ABCDEFGHIJKLMNOPQRSTUVWXYZabcdefghijklmnopqrstuvwxyz0123456789-_''"

fun base64_groups :: "nat list \<Rightarrow> nat list" where
  "base64_groups (a # b # c # r) = [a div 4, a mod 4 * 16 + b div 16, b mod 16 * 4 + c div 64, c mod 64] @ base64_groups r"
| "base64_groups [a, b] = [a div 4, a mod 4 * 16 + b div 16, b mod 16 * 4]"
| "base64_groups [a] = [a div 4, a mod 4 * 16]"
| "base64_groups [] = []"

definition RawURLEncoding :: "string \<Rightarrow> string" where
  "RawURLEncoding s = map (\<lambda>i. base64url ! i) (base64_groups (map byte s))"

definition success_status :: "int \<Rightarrow> bool" where
  "success_status st \<longleftrightarrow> \<not> (st < 200 \<or> st \<ge> 300)"

text \<open>A struct field that is a struct: its own members, decoded in place.\<close>

definition nested_field ::
  "unicode_tables \<Rightarrow> string \<Rightarrow> 'b field list \<Rightarrow> ('a \<Rightarrow> 'b) \<Rightarrow> (('b \<Rightarrow> 'b) \<Rightarrow> 'a \<Rightarrow> 'a) \<Rightarrow> 'a field" where
  "nested_field uc name flds get upd = (name, \<lambda>j x. case decode_struct uc False flds j (get x) of
     (y, ok) \<Rightarrow> if ok then Some (upd (\<lambda>_. y) x) else None)"

section \<open>Submitting\<close>

text \<open>The anonymous struct \<open>{Data struct{ID string}}\<close>.\<close>

record submit_response =
  sb_ID :: string

definition submit_fields :: "unicode_tables \<Rightarrow> submit_response field list" where
  "submit_fields uc = [nested_field uc ''data'' [string_field ''id'' sb_ID_update] (\<lambda>x. x) (\<lambda>f. f)]"

definition decode_submit :: "unicode_tables \<Rightarrow> string \<Rightarrow> string option" where
  "decode_submit uc body =
     (case parse_first body of None \<Rightarrow> None
      | Some (j, _) \<Rightarrow> (case decode_struct uc False (submit_fields uc) j \<lparr>sb_ID = []\<rparr> of
           (r, ok) \<Rightarrow> if ok then Some (sb_ID r) else None))"

definition submit ::
  "unicode_tables \<Rightarrow> 's VirusTotalScanner \<Rightarrow> ctx \<Rightarrow> string \<Rightarrow> ('s, string option) call" where
  "submit uc v ctx rawURL s =
     (case NewRequest ''POST'' (vt_submitURL v) (form_body rawURL) of
        None \<Rightarrow> (None, s)
      | Some req0 \<Rightarrow>
          (let req = set_header ''Content-Type'' ''application/x-www-form-urlencoded''
                       (set_header ''x-apikey'' (vt_apiKey v) req0)
           in case hc_Do (vt_client v) ctx req s of
                (Inl _, s1) \<Rightarrow> (None, s1)
              | (Inr resp, s1) \<Rightarrow>
                  if \<not> success_status (rsp_StatusCode resp) then (None, s1)
                  else (case decode_submit uc (rsp_Body resp) of
                          None \<Rightarrow> (None, s1)
                        | Some i \<Rightarrow> if i = [] then (None, s1) else (Some i, s1))))"

section \<open>Polling\<close>

record analysis =
  an_Status :: string
  an_Harmless :: int
  an_Malicious :: int
  an_Suspicious :: int
  an_Undetected :: int
  an_Timeout :: int

definition zero_analysis :: analysis where
  "zero_analysis = \<lparr>an_Status = [], an_Harmless = 0, an_Malicious = 0, an_Suspicious = 0,
     an_Undetected = 0, an_Timeout = 0\<rparr>"

definition analysis_fields :: "unicode_tables \<Rightarrow> analysis field list" where
  "analysis_fields uc =
     [nested_field uc ''data''
       [nested_field uc ''attributes''
         [string_field ''status'' an_Status_update,
          nested_field uc ''stats''
            [int_field ''harmless'' an_Harmless_update, int_field ''malicious'' an_Malicious_update,
             int_field ''suspicious'' an_Suspicious_update, int_field ''undetected'' an_Undetected_update,
             int_field ''timeout'' an_Timeout_update] (\<lambda>x. x) (\<lambda>f. f)]
         (\<lambda>x. x) (\<lambda>f. f)]
       (\<lambda>x. x) (\<lambda>f. f)]"

definition decode_analysis :: "unicode_tables \<Rightarrow> string \<Rightarrow> analysis option" where
  "decode_analysis uc data =
     (case parse_json data of None \<Rightarrow> None
      | Some j \<Rightarrow> (case decode_struct uc False (analysis_fields uc) j zero_analysis of
           (a, ok) \<Rightarrow> if ok then Some a else None))"

text \<open>The result of a completed analysis.\<close>

definition classify :: "int \<Rightarrow> analysis \<Rightarrow> time \<Rightarrow> string \<Rightarrow> scan_result" where
  "classify minPositives a t permalink =
     \<lparr>sr_Status = (if minPositives \<le> an_Malicious a then ScanMalicious else ScanClean),
      sr_Positives = an_Malicious a,
      sr_Total = int64 (an_Harmless a + an_Malicious a + an_Suspicious a + an_Undetected a + an_Timeout a),
      sr_ScannedAt = t, sr_Permalink = permalink\<rparr>"

definition fetchAnalysis ::
  "unicode_tables \<Rightarrow> 's clock \<Rightarrow> 's VirusTotalScanner \<Rightarrow> ctx \<Rightarrow> string \<Rightarrow> string \<Rightarrow> ('s, scan_result \<times> bool) call" where
  "fetchAnalysis uc now v ctx i permalink s =
     (case NewRequest ''GET'' (vt_analysisURL v @ i) [] of
        None \<Rightarrow> ((status_result ScanUnverified (now s), True), s)
      | Some req0 \<Rightarrow>
          (case hc_Do (vt_client v) ctx (set_header ''x-apikey'' (vt_apiKey v) req0) s of
             (Inl _, s1) \<Rightarrow> ((status_result ScanUnverified (now s1), True), s1)
           | (Inr resp, s1) \<Rightarrow>
               if \<not> success_status (rsp_StatusCode resp) \<or> rsp_ReadError resp \<noteq> None
               then ((status_result ScanUnverified (now s1), True), s1)
               else (case decode_analysis uc (rsp_Body resp) of
                       None \<Rightarrow> ((status_result ScanUnverified (now s1), True), s1)
                     | Some a \<Rightarrow>
                         if an_Status a \<noteq> ''completed'' then ((zero_scan_result, False), s1)
                         else ((classify (vt_minPositives v) a (now s1) permalink, True), s1))))"

definition vt_permalink :: "string \<Rightarrow> string" where
  "vt_permalink rawURL = vtGUIBase @ RawURLEncoding rawURL @ ''/detection''"

text \<open>The loop of \<open>poll\<close>; \<open>None\<close> is a loop that never ends.\<close>

partial_function (option) poll_loop ::
  "unicode_tables \<Rightarrow> 's clock \<Rightarrow> 's timers \<Rightarrow> 's VirusTotalScanner \<Rightarrow> ctx \<Rightarrow> string \<Rightarrow> string \<Rightarrow> 's \<Rightarrow> (scan_result \<times> 's) option" where
  "poll_loop uc now tm v ctx i permalink s =
     (case tm_wait tm ctx vtPollInterval s of
        (fired, s1) \<Rightarrow>
          if \<not> fired then Some (status_result ScanUnverified (now s1), s1)
          else (case fetchAnalysis uc now v ctx i permalink s1 of
                  ((result, done_), s2) \<Rightarrow>
                    if done_ then Some (result, s2)
                    else poll_loop uc now tm v ctx i permalink s2))"

definition poll ::
  "unicode_tables \<Rightarrow> 's clock \<Rightarrow> 's timers \<Rightarrow> 's VirusTotalScanner \<Rightarrow> ctx \<Rightarrow> string \<Rightarrow> string \<Rightarrow> 's \<Rightarrow> (scan_result \<times> 's) option" where
  "poll uc now tm v ctx i rawURL s = poll_loop uc now tm v ctx i (vt_permalink rawURL) s"

definition VTScan ::
  "unicode_tables \<Rightarrow> 's clock \<Rightarrow> 's timers \<Rightarrow> 's VirusTotalScanner \<Rightarrow> ctx \<Rightarrow> string \<Rightarrow> 's \<Rightarrow> ((scan_result \<times> goerr option) \<times> 's) option" where
  "VTScan uc now tm v ctx rawURL s =
     (case submit uc v ctx rawURL s of
        (None, s1) \<Rightarrow> Some ((status_result ScanUnverified (now s1), None), s1)
      | (Some i, s1) \<Rightarrow>
          map_option (\<lambda>(result, s2). ((result, None), s2)) (poll uc now tm v ctx i rawURL s1))"

section \<open>The poll ends\<close>

text \<open>
  What the loop needs of its environment: a timer that fires has let its duration pass, one
  of a positive duration does not fire once the deadline is over, and an HTTP exchange does not turn the clock back.
\<close>

locale vt_environment =
  fixes now :: "'s \<Rightarrow> time" and tm :: "'s timers" and client :: "'s http_client"
  assumes wait_fired: "tm_wait tm ctx d s = (True, s') \<Longrightarrow> now s + d \<le> now s'"
    and wait_deadline: "0 < d \<Longrightarrow> tm_wait tm (Some dl) d s = (True, s') \<Longrightarrow> now s < dl"
    and http_clock: "now s \<le> now (snd (hc_Do client ctx req s))"
begin

lemma fetch_clock:
  assumes "vt_client v = client" shows "now s \<le> now (snd (fetchAnalysis uc now v ctx i p s))"
proof -
  have h: "now s \<le> now (snd (hc_Do (vt_client v) ctx req s))" for req using http_clock assms by simp
  show ?thesis
  proof (cases "NewRequest ''GET'' (vt_analysisURL v @ i) []")
    case (Some req)
    let ?req = "set_header ''x-apikey'' (vt_apiKey v) req"
    have "snd (fetchAnalysis uc now v ctx i p s) = snd (hc_Do (vt_client v) ctx ?req s)"
      by (auto simp: fetchAnalysis_def Some split: prod.splits sum.splits option.splits)
    then show ?thesis using h by simp
  qed (simp add: fetchAnalysis_def)
qed

text \<open>Under a deadline the loop ends: each round takes the poll interval from what is left.\<close>

lemma poll_loop_returns:
  assumes v: "vt_client v = client"
  shows "nat (dl - now s) \<le> n * nat vtPollInterval \<Longrightarrow>
    \<exists>r. poll_loop uc now tm v (Some dl) i p s = Some r"
proof (induction n arbitrary: s)
  case 0
  then have "\<not> now s < dl" by simp
  moreover have "0 < vtPollInterval" by (simp add: vtPollInterval_def second_def)
  ultimately have "\<not> fst (tm_wait tm (Some dl) vtPollInterval s)"
    using wait_deadline [of vtPollInterval dl s] by (cases "tm_wait tm (Some dl) vtPollInterval s") auto
  then show ?case by (subst poll_loop.simps) (auto split: prod.split)
next
  case (Suc n)
  obtain fired s1 where w: "tm_wait tm (Some dl) vtPollInterval s = (fired, s1)"
    by (cases "tm_wait tm (Some dl) vtPollInterval s")
  obtain result fin s2 where f: "fetchAnalysis uc now v (Some dl) i p s1 = ((result, fin), s2)"
    by (metis surj_pair)
  have "now s1 \<le> now s2" using fetch_clock [OF v, of s1 uc "Some dl" i p] f by simp
  moreover have "now s + vtPollInterval \<le> now s1" if fired
    using wait_fired [of "Some dl" vtPollInterval s s1] w that by simp
  moreover have "0 < vtPollInterval" by (simp add: vtPollInterval_def second_def)
  ultimately have "nat (dl - now s2) \<le> n * nat vtPollInterval" if fired
    using Suc.prems that by auto
  then have "\<exists>r. poll_loop uc now tm v (Some dl) i p s2 = Some r" if fired using Suc.IH that by blast
  then show ?case by (subst poll_loop.simps) (auto simp: w f)
qed

lemma VTScan_returns:
  assumes "vt_client v = client"
  shows "\<exists>r. VTScan uc now tm v (Some dl) rawURL s = Some r"
proof -
  have "\<exists>r. poll_loop uc now tm v (Some dl) i p s = Some r" for i p s
  proof (rule poll_loop_returns [OF assms])
    have "1 \<le> nat vtPollInterval" by (simp add: vtPollInterval_def second_def)
    then show "nat (dl - now s) \<le> nat (dl - now s) * nat vtPollInterval" using mult_le_mono2 by fastforce
  qed
  then show ?thesis by (auto simp: VTScan_def poll_def split: prod.split option.split)
qed

end

section \<open>What a result means\<close>

text \<open>
  Either nothing is known (unverified), or the body of a successful response was a completed
  analysis and the result is its classification.
\<close>

definition verdict :: "unicode_tables \<Rightarrow> int \<Rightarrow> string \<Rightarrow> scan_result \<Rightarrow> bool" where
  "verdict uc minPositives rawURL r \<longleftrightarrow>
     (\<exists>t. r = status_result ScanUnverified t) \<or>
     (\<exists>body a t. decode_analysis uc body = Some a \<and> an_Status a = ''completed'' \<and>
        r = classify minPositives a t (vt_permalink rawURL))"

lemma fetch_verdict:
  assumes "fetchAnalysis uc now v ctx i (vt_permalink rawURL) s = ((r, True), s')"
  shows "verdict uc (vt_minPositives v) rawURL r"
  using assms unfolding fetchAnalysis_def verdict_def
  by (auto split: option.splits prod.splits sum.splits if_splits)

lemma poll_verdict_raw:
  assumes "poll_loop uc now tm v ctx i p s = Some y"
  shows "p = vt_permalink rawURL \<longrightarrow> verdict uc (vt_minPositives v) rawURL (fst y)"
proof (rule poll_loop.raw_induct [of "\<lambda>uc now tm v ctx i p s y. p = vt_permalink rawURL \<longrightarrow>
    verdict uc (vt_minPositives v) rawURL (fst y)", OF _ assms], goal_cases)
  case (1 loop uc now tm v ctx i p s y)
  obtain r s' where y: "y = (r, s')" by (metis surj_pair)
  obtain fired s1 where w: "tm_wait tm ctx vtPollInterval s = (fired, s1)" by (metis surj_pair)
  obtain result fin s2 where f: "fetchAnalysis uc now v ctx i p s1 = ((result, fin), s2)" by (metis surj_pair)
  show ?case
  proof (cases "fired \<and> fin")
    case True
    then have "r = result" using 1(2) by (simp add: w f y)
    then show ?thesis using True f fetch_verdict [of uc now v ctx i rawURL s1 r s2] by (auto simp: y)
  next
    case False
    then have "(\<exists>t. r = status_result ScanUnverified t) \<or> loop uc now tm v ctx i p s2 = Some y"
      using 1(2) by (auto simp: w f y split: if_splits)
    then show ?thesis
    proof
      assume "\<exists>t. r = status_result ScanUnverified t"
      then show ?thesis by (simp add: verdict_def y)
    next
      assume "loop uc now tm v ctx i p s2 = Some y"
      then show ?thesis by (rule 1(1))
    qed
  qed
qed

lemmas poll_verdict = poll_verdict_raw [where y = "(r, s')" and p = "vt_permalink rawURL" and rawURL = rawURL
  for r s' rawURL, simplified]

lemma VTScan_verdict:
  assumes "VTScan uc now tm v ctx rawURL s = Some ((r, e), s')"
  shows "verdict uc (vt_minPositives v) rawURL r \<and> e = None"
proof -
  obtain q s1 where q: "submit uc v ctx rawURL s = (q, s1)" by (metis surj_pair)
  show ?thesis
  proof (cases q)
    case None
    then show ?thesis using assms by (auto simp: VTScan_def q verdict_def)
  next
    case (Some i)
    then have "poll_loop uc now tm v ctx i (vt_permalink rawURL) s1 = Some (r, s')" "e = None"
      using assms by (auto simp: VTScan_def q poll_def)
    then show ?thesis using poll_verdict [of uc now tm v ctx i rawURL s1 r s'] by simp
  qed
qed

text \<open>A verdict of malicious or clean needs a completed analysis; the threshold decides which.\<close>

lemma verdict_status:
  assumes "verdict uc n rawURL r"
  shows "sr_Status r \<in> {ScanClean, ScanMalicious, ScanUnverified}"
    and "sr_Status r \<noteq> ScanUnverified \<Longrightarrow> (sr_Status r = ScanMalicious \<longleftrightarrow> n \<le> sr_Positives r)"
  using assms by (auto simp: verdict_def classify_def split: if_splits)

end
