(* ===== verification/ScannerContracts.thy ===== *)
theory ScannerContracts
  imports Contracts VirusTotal
begin

text \<open>
  What a scanner promises to the shortener and to the rescanner, and the two scanners that
  keep the promise whatever they run on: the caching scanner on any scanner, and the rescan
  cycle on any scanner, repository and timer.
\<close>

section \<open>Results a scanner may give\<close>

text \<open>One of the three statuses, in a form that survives the cache.\<close>

definition scan_verdict :: "scan_result \<Rightarrow> bool" where
  "scan_verdict r \<longleftrightarrow> is_verdict (sr_Status r) \<and> result_ok r"

lemma status_verdict: "is_verdict st \<Longrightarrow> scan_verdict (status_result st t)"
  using verdict_utf8 [of st]
  by (simp add: scan_verdict_def result_ok_def status_result_def zero_scan_result_def)

text \<open>A struct keeps what every field's setter keeps.\<close>

definition keeps_field :: "('a \<Rightarrow> bool) \<Rightarrow> 'a field \<Rightarrow> bool" where
  "keeps_field P f \<longleftrightarrow> (\<forall>j x y. snd f j x = Some y \<longrightarrow> P x \<longrightarrow> P y)"

lemma decode_members_keeps:
  assumes "\<forall>f\<in>set flds. keeps_field P f" "P x"
  shows "P (fst (decode_members uc strict flds ms (x, ok)))"
  using assms(2)
proof (induction ms arbitrary: x ok)
  case (Cons m ms)
  obtain k j where m: "m = (k, j)" by (cases m)
  have step: "P y" if "find_field uc flds k = Some f" "snd f j x = Some y" for f y
  proof -
    have "f \<in> set flds" using that(1) by (auto simp: find_field_def dest: find_Some_in split: option.splits)
    then show ?thesis using assms(1) that(2) Cons.prems by (simp add: keeps_field_def)
  qed
  show ?case
    using Cons step by (auto simp: m split: option.split)
qed simp

lemma decode_struct_keeps:
  "\<forall>f\<in>set flds. keeps_field P f \<Longrightarrow> P x \<Longrightarrow> P (fst (decode_struct uc strict flds j x))"
  using decode_members_keeps [of flds P x] by (auto simp: decode_struct_def split: json.split)

lemma nested_keeps:
  assumes "\<forall>f\<in>set flds. keeps_field P f"
  shows "keeps_field P (nested_field uc name flds (\<lambda>x. x) (\<lambda>f. f))"
  unfolding keeps_field_def
proof (intro allI impI)
  fix j x y assume "snd (nested_field uc name flds (\<lambda>x. x) (\<lambda>f. f)) j x = Some y" and x: "P x"
  then have "y = fst (decode_struct uc False flds j x)"
    by (auto simp: nested_field_def split: prod.splits if_splits)
  then show "P y" using decode_struct_keeps [OF assms x] by simp
qed

text \<open>The counts of an analysis are 64-bit integers.\<close>

definition counts_ok :: "analysis \<Rightarrow> bool" where
  "counts_ok a \<longleftrightarrow> - (2 ^ 63) \<le> an_Malicious a \<and> an_Malicious a < 2 ^ 63"

lemma atoi_range: "atoi s = Some i \<Longrightarrow> - (2 ^ 63) \<le> i \<and> i < 2 ^ 63"
  by (auto simp: atoi_def Let_def split: if_splits option.splits)

lemma int_field_keeps:
  assumes "\<And>i x. - (2 ^ 63) \<le> i \<Longrightarrow> i < 2 ^ 63 \<Longrightarrow> P x \<Longrightarrow> P (upd (\<lambda>_. i) x)"
  shows "keeps_field P (int_field name upd)"
  using assms atoi_range by (fastforce simp: keeps_field_def int_field_def split: json.splits)

lemma string_field_keeps: "(\<And>s x. P x \<Longrightarrow> P (upd (\<lambda>_. s) x)) \<Longrightarrow> keeps_field P (string_field name upd)"
  by (auto simp: keeps_field_def string_field_def split: json.splits)

lemma analysis_fields_counts: "\<forall>f\<in>set (analysis_fields uc). keeps_field counts_ok f"
proof -
  have counts: "keeps_field counts_ok (int_field n an_Harmless_update)" "keeps_field counts_ok (int_field n an_Malicious_update)"
    "keeps_field counts_ok (int_field n an_Suspicious_update)" "keeps_field counts_ok (int_field n an_Undetected_update)"
    "keeps_field counts_ok (int_field n an_Timeout_update)" "keeps_field counts_ok (string_field n an_Status_update)" for n
    by (rule int_field_keeps string_field_keeps; simp add: counts_ok_def)+
  show ?thesis by (simp add: analysis_fields_def nested_keeps counts)
qed

lemma decode_analysis_counts:
  assumes "decode_analysis uc data = Some a" shows "counts_ok a"
proof -
  have zero: "counts_ok zero_analysis" by (simp add: counts_ok_def zero_analysis_def)
  obtain j where j: "parse_json data = Some j" using assms by (auto simp: decode_analysis_def split: option.splits)
  obtain b ok where d: "decode_struct uc False (analysis_fields uc) j zero_analysis = (b, ok)" by (metis surj_pair)
  have "a = b" using assms by (simp add: decode_analysis_def j d split: if_splits)
  then show ?thesis using decode_struct_keeps [OF analysis_fields_counts zero, of uc False uc j] by (simp add: d)
qed

lemma int64_range: "- (2 ^ 63) \<le> int64 i \<and> int64 i < 2 ^ 63"
  using signed_take_bit_int_greater_eq_minus_exp [of 63 i] signed_take_bit_int_less_exp [of 63 i]
  by (simp add: int64_def)

lemma group_bounds:
  fixes a b :: nat
  assumes "a < 256" "b < 256"
  shows "a div 4 < 64" "a mod 4 * 16 + b div 16 < 64" "a mod 16 * 4 + b div 64 < 64"
    "a mod 64 < 64" "a mod 4 * 16 < 64" "a mod 16 * 4 < 64"
proof -
  have d: "a div 4 < 64" "b div 16 < 16" "b div 64 < 4" using assms by (simp_all add: less_mult_imp_div_less)
  have m: "a mod 4 < 4" "a mod 16 < 16" by simp_all
  have r: "x < 4 \<Longrightarrow> y < 16 \<Longrightarrow> x * 16 + y < 64" "y < 16 \<Longrightarrow> x < 4 \<Longrightarrow> y * 4 + x < 64" for x y :: nat
    by linarith+
  show "a div 4 < 64" by (rule d(1))
  show "a mod 4 * 16 + b div 16 < 64" by (rule r(1) [OF m(1) d(2)])
  show "a mod 16 * 4 + b div 64 < 64" by (rule r(2) [OF m(2) d(3)])
  show "a mod 64 < 64" by simp
  show "a mod 4 * 16 < 64" using r(1) [OF m(1), of 0] by simp
  show "a mod 16 * 4 < 64" using r(2) [OF m(2), of 0] by simp
qed

lemma base64_groups_bound: "\<forall>b\<in>set bs. b < 256 \<Longrightarrow> \<forall>i\<in>set (base64_groups bs). i < 64"
proof (induction bs rule: base64_groups.induct)
  case (1 a b c r)
  then have "a < 256" "b < 256" "c < 256" by simp_all
  with 1 show ?case by (simp add: group_bounds)
next
  case (2 a b)
  then have "a < 256" "b < 256" by simp_all
  then show ?case by (simp add: group_bounds)
next
  case (3 a)
  then have "a < 256" by simp
  then show ?case by (simp add: group_bounds)
qed simp

lemma permalink_ascii: "is_ascii (vt_permalink rawURL)"
proof -
  have len: "length base64url = 64" and chars: "is_ascii base64url" by (simp_all add: base64url_def)
  have "set (RawURLEncoding rawURL) \<subseteq> set base64url"
    unfolding RawURLEncoding_def set_map
  proof (rule image_subsetI)
    fix i assume "i \<in> set (base64_groups (map byte rawURL))"
    then have "i < length base64url"
      using base64_groups_bound [of "map byte rawURL"] by (simp add: len)
    then show "base64url ! i \<in> set base64url" by (rule nth_mem)
  qed
  then have "is_ascii (RawURLEncoding rawURL)" using chars by (auto simp only: is_ascii_def)
  then show ?thesis by (simp add: vt_permalink_def vtGUIBase_def)
qed

lemma verdict_scan_verdict:
  assumes "verdict uc n rawURL r" shows "scan_verdict r"
  using assms
proof (unfold verdict_def, elim disjE exE conjE)
  fix t assume "r = status_result ScanUnverified t"
  then show ?thesis using status_verdict [of ScanUnverified t] by (simp add: is_verdict_def)
next
  fix body a t
  assume a: "decode_analysis uc body = Some a" "r = classify n a t (vt_permalink rawURL)"
  have "counts_ok a" by (rule decode_analysis_counts [OF a(1)])
  moreover have "utf8_valid (vt_permalink rawURL)" by (rule utf8_valid_ascii [OF permalink_ascii])
  ultimately show ?thesis
    using verdict_utf8 int64_range
    by (auto simp: a(2) scan_verdict_def result_ok_def classify_def counts_ok_def is_verdict_def)
qed

section \<open>Effects of VirusTotal scans\<close>

text \<open>What timers and HTTP calls preserve, a scan preserves.\<close>

locale vt_effects =
  fixes R :: "'s \<Rightarrow> 's \<Rightarrow> bool" and tm :: "'s timers" and client :: "'s http_client"
  assumes eff_refl: "R s s"
    and eff_trans: "R s s' \<Longrightarrow> R s' s'' \<Longrightarrow> R s s''"
    and eff_wait: "R s (snd (tm_wait tm ctx d s))"
    and eff_http: "R s (snd (hc_Do client ctx req s))"
begin

lemma eff_submit:
  assumes "vt_client v = client" shows "R s (snd (submit uc v ctx rawURL s))"
proof (cases "NewRequest ''POST'' (vt_submitURL v) (form_body rawURL)")
  case (Some req)
  let ?req = "set_header ''Content-Type'' ''application/x-www-form-urlencoded'' (set_header ''x-apikey'' (vt_apiKey v) req)"
  have "snd (submit uc v ctx rawURL s) = snd (hc_Do client ctx ?req s)"
    using assms by (auto simp: submit_def Some Let_def split: prod.split sum.split option.split)
  then show ?thesis by (simp add: eff_http)
qed (simp add: submit_def eff_refl)

lemma eff_fetch:
  assumes "vt_client v = client" shows "R s (snd (fetchAnalysis uc now v ctx i p s))"
proof (cases "NewRequest ''GET'' (vt_analysisURL v @ i) []")
  case (Some req)
  let ?req = "set_header ''x-apikey'' (vt_apiKey v) req"
  have "snd (fetchAnalysis uc now v ctx i p s) = snd (hc_Do client ctx ?req s)"
    using assms by (auto simp: fetchAnalysis_def Some split: prod.split sum.split option.split)
  then show ?thesis by (simp add: eff_http)
qed (simp add: fetchAnalysis_def eff_refl)

lemma eff_poll_loop:
  assumes "poll_loop uc now tm v ctx i p s = Some y" "vt_client v = client"
  shows "R s (snd y)"
proof -
  have "vt_client v = client \<and> t = tm \<longrightarrow> R s (snd y)" if "t = tm" "poll_loop uc now t v ctx i p s = Some y" for t
  proof (rule poll_loop.raw_induct [of "\<lambda>uc now t v ctx i p s y. vt_client v = client \<and> t = tm \<longrightarrow> R s (snd y)", OF _ that(2)], goal_cases)
    case (1 loop uc now t v ctx i p s y)
    obtain r s' where y: "y = (r, s')" by (metis surj_pair)
    obtain fired s1 where w: "tm_wait t ctx vtPollInterval s = (fired, s1)" by (metis surj_pair)
    obtain result fin s2 where f: "fetchAnalysis uc now v ctx i p s1 = ((result, fin), s2)" by (metis surj_pair)
    show ?case
    proof
      assume a: "vt_client v = client \<and> t = tm"
      have R1: "R s s1" using eff_wait [of s ctx vtPollInterval] w a by simp
      have R2: "R s s2" using eff_trans [OF R1] eff_fetch [of v s1 uc now ctx i p] f a by simp
      have R3: "R s2 (snd y)" if "loop uc now t v ctx i p s2 = Some y"
        using 1(1) [OF that] a by blast
      show "R s (snd y)" using 1(2) R1 R2 R3 eff_trans [OF R2] by (auto simp: w f y split: if_splits)
    qed
  qed
  then show ?thesis using assms by blast
qed

lemma eff_VTScan:
  assumes "vt_client v = client" "VTScan uc now tm v ctx rawURL s = Some y"
  shows "R s (snd y)"
proof -
  obtain q s1 where q: "submit uc v ctx rawURL s = (q, s1)" by (metis surj_pair)
  then have R1: "R s s1" using eff_submit [OF assms(1), of s uc ctx rawURL] by simp
  show ?thesis
  proof (cases q)
    case None then show ?thesis using assms(2) R1 by (auto simp: VTScan_def q)
  next
    case (Some i)
    then obtain z where z: "poll_loop uc now tm v ctx i (vt_permalink rawURL) s1 = Some z" "snd y = snd z"
      using assms(2) by (auto simp: VTScan_def q poll_def)
    then show ?thesis using eff_trans [OF R1] eff_poll_loop [OF z(1) assms(1)] by simp
  qed
qed

end

section \<open>Scanners\<close>

text \<open>The laws are about contexts with a deadline: without one a scan may not return.\<close>

locale url_scanner =
  fixes V :: "'s store_view"
    and Scan :: "ctx \<Rightarrow> string \<Rightarrow> ('s, scan_result \<times> goerr option) call"
  assumes inner_keeps: "keeps V s (snd (Scan (Some dl) url s))"
    and inner_verdict: "scan_verdict (fst (fst (Scan (Some dl) url s)))"

text \<open>A cache of raw values whose readable entries are verdicts, as long as only verdicts are written.\<close>

locale verdict_cache = url_scanner V Scan
  for V :: "'s store_view" and Scan :: "ctx \<Rightarrow> string \<Rightarrow> ('s, scan_result \<times> goerr option) call" +
  fixes uc :: unicode_tables
    and GetRaw :: "string \<Rightarrow> ('s, goerr + string) call"
    and SetRaw :: "string \<Rightarrow> string \<Rightarrow> duration \<Rightarrow> ('s, goerr + unit) call"
  assumes raw_get_keeps: "keeps V s (snd (GetRaw key s))"
    and raw_get_verdict: "sv_ok V s \<Longrightarrow> GetRaw (cacheKey url) s = (Inr data, s') \<Longrightarrow>
      unmarshal_result uc data = Some r \<Longrightarrow> is_verdict (sr_Status r)"
    and raw_set_keeps: "scan_verdict r \<Longrightarrow> marshal_result r = Some data \<Longrightarrow>
      keeps V s (snd (SetRaw (cacheKey url) data ttl s))"
begin

definition cached :: "duration \<Rightarrow> 's CachedScanner" where
  "cached ttl = \<lparr>cs_inner = \<lparr>rw_GetRaw = GetRaw, rw_SetRaw = SetRaw\<rparr>, cs_scan = \<lparr>sc_Scan = Scan\<rparr>, cs_ttl = ttl\<rparr>"

lemma scan_and_store_ok:
  "keeps V s (snd (scan_and_store (cached ttl) (Some dl) url s)) \<and>
   is_verdict (sr_Status (fst (fst (scan_and_store (cached ttl) (Some dl) url s))))"
proof -
  obtain r e s1 where sc: "Scan (Some dl) url s = ((r, e), s1)" by (metis surj_pair)
  have k: "keeps V s s1" and v: "scan_verdict r" using inner_keeps [of s dl url] inner_verdict [of dl url s] sc by simp_all
  have "keeps V s (snd (SetRaw (cacheKey url) data ttl s1))" if "marshal_result r = Some data" for data
    by (rule keeps_trans [OF k raw_set_keeps [OF v that]])
  then show ?thesis using k v by (auto simp: scan_and_store_def cached_def sc scan_verdict_def split: option.split)
qed

lemma CachedScan_keeps: "keeps V s (snd (CachedScan uc (cached ttl) (Some dl) url s))"
proof -
  obtain q s1 where g: "GetRaw (cacheKey url) s = (q, s1)" by (metis surj_pair)
  then have k: "keeps V s s1" using raw_get_keeps [of s "cacheKey url"] by simp
  have "keeps V s (snd (scan_and_store (cached ttl) (Some dl) url s1))"
    by (rule keeps_trans [OF k]) (simp add: scan_and_store_ok)
  moreover have "rw_GetRaw (cs_inner (cached ttl)) = GetRaw" by (simp add: cached_def)
  ultimately show ?thesis using k g by (auto simp: CachedScan_def split: sum.split option.split)
qed

lemma CachedScan_verdict:
  assumes "sv_ok V s" shows "is_verdict (sr_Status (fst (fst (CachedScan uc (cached ttl) (Some dl) url s))))"
proof -
  obtain q s1 where g: "GetRaw (cacheKey url) s = (q, s1)" by (metis surj_pair)
  have sel: "rw_GetRaw (cs_inner (cached ttl)) = GetRaw" by (simp add: cached_def)
  have store: "is_verdict (sr_Status (fst (fst (scan_and_store (cached ttl) (Some dl) url s1))))"
    by (simp add: scan_and_store_ok)
  show ?thesis
  proof (cases q)
    case Inl then show ?thesis using store g by (simp add: CachedScan_def sel)
  next
    case (Inr data)
    then have "is_verdict (sr_Status r)" if "unmarshal_result uc data = Some r" for r
      using raw_get_verdict [OF assms, of url data s1] g that by simp
    then show ?thesis using store g Inr by (auto simp: CachedScan_def sel split: option.split)
  qed
qed

end

section \<open>The rescan cycle\<close>

locale rescan_cycle = url_scanner V Scan
  for V :: "'s store_view" and Scan :: "ctx \<Rightarrow> string \<Rightarrow> ('s, scan_result \<times> goerr option) call" +
  fixes tm :: "'s timers"
    and FindByVTStatus :: "string \<Rightarrow> ('s, goerr + url list) call"
    and UpdateVTResult :: "u64 \<Rightarrow> scan_result \<Rightarrow> ('s, goerr + unit) call"
    and Delete :: "string \<Rightarrow> ('s, goerr + unit) call"
  assumes wait_keeps: "keeps V s (snd (tm_wait tm ctx d s))"
    and status_keeps: "keeps V s (snd (FindByVTStatus st s))"
    and result_keeps: "keeps V s (snd (UpdateVTResult i r s))"
    and del_keeps: "keeps V s (snd (Delete h s))"
begin

definition rescans :: "'s Rescanner \<Rightarrow> bool" where
  "rescans r \<longleftrightarrow> re_scanner r = \<lparr>sc_Scan = Scan\<rparr> \<and> re_cache_Delete r = Delete \<and>
     re_urlRepo r = \<lparr>rq_FindByVTStatus = FindByVTStatus, rq_UpdateVTResult = UpdateVTResult\<rparr>"

lemma processOne_keeps:
  assumes "rescans r" shows "keeps V s (processOne tm r (Some dl) u s)"
proof -
  obtain q e s1 where sc: "Scan (Some dl) (u_OriginalURL u) s = ((q, e), s1)" by (metis surj_pair)
  then have k1: "keeps V s s1" using inner_keeps [of s dl "u_OriginalURL u"] by simp
  let ?s2 = "snd (UpdateVTResult (u_ID u) q s1)"
  have k2: "keeps V s ?s2" by (rule keeps_trans [OF k1 result_keeps])
  have "keeps V s (snd (tm_wait tm (Some dl) (20 * second) ?s2))"
    "keeps V s (snd (tm_wait tm (Some dl) (20 * second) (snd (Delete (u_Hash u) ?s2))))"
    by (rule keeps_trans [OF k2 wait_keeps], rule keeps_trans [OF keeps_trans [OF k2 del_keeps] wait_keeps])
  then show ?thesis using assms sc by (auto simp: processOne_def rescans_def Let_def)
qed

lemma rescan_loop_keeps:
  assumes "rescans r" shows "keeps V s (rescan_loop tm r (Some dl) us s)"
proof (induction us arbitrary: s)
  case (Cons u us)
  have k: "keeps V s (processOne tm r (Some dl) u s)" by (rule processOne_keeps [OF assms])
  then show ?case using keeps_trans [OF k Cons.IH] by (simp add: Let_def)
qed simp

lemma RunCycle_keeps:
  assumes "rescans r" shows "keeps V s (RunCycle tm r (Some dl) s)"
proof -
  obtain q s1 where f: "FindByVTStatus ScanUnverified s = (q, s1)" by (metis surj_pair)
  then have k: "keeps V s s1" using status_keeps [of s ScanUnverified] by simp
  have "keeps V s (rescan_loop tm r (Some dl) us s1)" for us
    by (rule keeps_trans [OF k rescan_loop_keeps [OF assms]])
  then show ?thesis using k f assms by (auto simp: RunCycle_def rescans_def split: sum.split)
qed

end

end
