(* ===== verification/World.thy ===== *)
theory World
  imports Domain GoTime UTF8
begin

text \<open>
  The two services the program keeps its state in. Go code reaches MySQL through
  \<open>*sql.DB\<close> and Redis through \<open>*goredis.Client\<close>; both handles are parameters of the
  repositories, records of operations over any state. This theory then gives the SQL
  statements of \<open>internal/repository/mysql\<close> their meaning on the tables that
  \<open>migrations/\<close> declare (columns, defaults, unique and foreign keys, strict mode), and the
  Redis commands theirs on a map of keys with expiry times. What is not determined is in
  the environment: the collation, which calls fail and whether their effect happened, and
  which of several rows a \<open>LIMIT\<close> picks.
\<close>

section \<open>The handles\<close>

text \<open>One constructor per SQL statement of the source, with its bound arguments.\<close>

datatype stmt =
    InsertURL string string "time option"
  | SetHash string u64
  | SetLastAccessed u64
  | SetVTStatus string u64
  | SetVTResult string time int string u64
  | InsertClick u64 time string string
  | DeleteClicks int
  | InsertReport u64 string string

datatype url_query = ByHash string | ByID u64 | ByOriginalURL string | ByVTStatus string

datatype count_query = CountClicks u64 | CountReporters u64

text \<open>\<open>sql.Result\<close>: what \<open>LastInsertId\<close> and \<open>RowsAffected\<close> return.\<close>

record exec_result =
  res_LastInsertId :: "goerr + int"
  res_RowsAffected :: "goerr + int"

text \<open>
  \<open>*sql.Rows\<close>: the error of the query, or the rows that scan and what ends them: the end
  of the result, a row that does not scan, or an error while fetching.
\<close>

datatype rows_end = EndOfRows | ScanError goerr | RowsError goerr

datatype 'r rows = QueryError goerr | Rows "'r list" rows_end

text \<open>\<open>QueryRowContext(...).Scan(...)\<close>: the first row, an error, or \<open>sql.ErrNoRows\<close>.\<close>

datatype 'r row = NoRows | RowError goerr | Row 'r

fun first_row :: "'r rows \<Rightarrow> 'r row" where
  "first_row (QueryError e) = RowError e"
| "first_row (Rows (r # _) _) = Row r"
| "first_row (Rows [] EndOfRows) = NoRows"
| "first_row (Rows [] (ScanError e)) = RowError e"
| "first_row (Rows [] (RowsError e)) = RowError e"

record 's sql_db =
  db_exec :: "stmt \<Rightarrow> ('s, goerr + exec_result) call"
  db_urls :: "url_query \<Rightarrow> ('s, url rows) call"
  db_count :: "count_query \<Rightarrow> ('s, int rows) call"
  db_days :: "u64 \<Rightarrow> int \<Rightarrow> ('s, daily_count rows) call"
  db_agents :: "u64 \<Rightarrow> int \<Rightarrow> ('s, user_agent_count rows) call"

text \<open>The Redis commands the program issues; \<open>goredis.Nil\<close> is the reply for an absent key.\<close>

datatype 'a reply = RedisNil | RedisErr goerr | Reply 'a

record 's redis_client =
  rd_MGet :: "string list \<Rightarrow> ('s, goerr + string option list) call"
  rd_Pipeline :: "(string \<times> string \<times> duration) list \<Rightarrow> ('s, goerr + unit) call"
  rd_Del :: "string list \<Rightarrow> ('s, nat reply) call"
  rd_Get :: "string \<Rightarrow> ('s, string reply) call"

section \<open>The state of the services\<close>

record env =
  env_key :: "string \<Rightarrow> string"  \<comment> \<open>the sort key of the columns' collation\<close>
  env_fault :: "nat \<Rightarrow> (nat \<times> string) option"
    \<comment> \<open>the error of the n-th call, after its first k commands or rows took effect\<close>
  env_pick :: "nat \<Rightarrow> nat"       \<comment> \<open>where the n-th query starts to read a table\<close>

text \<open>Two texts are equal to MySQL when their keys are; the empty text equals only itself.\<close>

definition collate :: "env \<Rightarrow> string \<Rightarrow> string option" where
  "collate env s = (if s = [] then None else Some (env_key env s))"

lemma collate_Nil [simp]: "collate env [] = collate env s \<longleftrightarrow> s = []" "collate env s = collate env [] \<longleftrightarrow> s = []"
  by (simp_all add: collate_def)

record world =
  w_urls :: "url list"
  w_clicks :: "click list"
  w_reports :: "report list"
  w_next_url :: nat
  w_next_click :: nat
  w_next_report :: nat
  w_redis :: "string \<Rightarrow> (string \<times> time option) option"
  w_clock :: time
  w_calls :: nat

definition empty_world :: "time \<Rightarrow> world" where
  "empty_world t = \<lparr>w_urls = [], w_clicks = [], w_reports = [], w_next_url = 1, w_next_click = 1,
     w_next_report = 1, w_redis = (\<lambda>_. None), w_clock = t, w_calls = 0\<rparr>"

definition tick :: "world \<Rightarrow> world" where
  "tick w = w\<lparr>w_calls := Suc (w_calls w)\<rparr>"

lemma tick_sel [simp]:
  "w_urls (tick w) = w_urls w" "w_clicks (tick w) = w_clicks w" "w_reports (tick w) = w_reports w"
  "w_next_url (tick w) = w_next_url w" "w_next_click (tick w) = w_next_click w"
  "w_next_report (tick w) = w_next_report w" "w_redis (tick w) = w_redis w"
  "w_clock (tick w) = w_clock w" "w_calls (tick w) = Suc (w_calls w)"
  by (simp_all add: tick_def)

section \<open>Columns\<close>

text \<open>The characters of a \<open>utf8mb4\<close> text; \<open>None\<close> when its bytes are not UTF-8.\<close>

definition char_count :: "string \<Rightarrow> nat option" where
  "char_count s = (if utf8_valid s then Some (length (runes s)) else None)"

definition fits :: "nat \<Rightarrow> string \<Rightarrow> bool" where
  "fits n s \<longleftrightarrow> (case char_count s of None \<Rightarrow> False | Some k \<Rightarrow> k \<le> n)"

text \<open>\<open>TIMESTAMP\<close>: rounded to whole seconds, from 1970-01-01 00:00:01 to 2038-01-19 03:14:07.\<close>

definition timestamp :: "time \<Rightarrow> time option" where
  "timestamp t = (let s = (t + 500000000) div second
     in if 1 \<le> s \<and> s \<le> 2147483647 then Some (s * second) else None)"

definition nullable_timestamp :: "time option \<Rightarrow> time option option" where
  "nullable_timestamp t = (case t of None \<Rightarrow> Some None | Some t \<Rightarrow> map_option Some (timestamp t))"

text \<open>\<open>NOW()\<close> and \<open>CURRENT_TIMESTAMP\<close> have whole seconds.\<close>

definition now :: "world \<Rightarrow> time" where
  "now w = w_clock w div second * second"

text \<open>A text is stored as the \<open>ENUM\<close> member it compares equal to.\<close>

definition enum_member :: "env \<Rightarrow> string list \<Rightarrow> string \<Rightarrow> string option" where
  "enum_member env vs s = find (\<lambda>v. collate env v = collate env s) vs"

definition vt_status_enum :: "string list" where
  "vt_status_enum = [''pending'', ''clean'', ''malicious'', ''unverified'']"

definition reason_enum :: "string list" where
  "reason_enum = [''phishing'', ''malware'', ''spam'', ''illegal'', ''other'']"

definition data_error :: goerr where "data_error = Plain ''Error 1406 (22001): Data too long for column''"
definition fk_error :: goerr where
  "fk_error = Plain ''Error 1452 (23000): Cannot add or update a child row: a foreign key constraint fails''"
definition autoinc_error :: goerr where
  "autoinc_error = Plain ''Error 1467 (HY000): Failed to read auto-increment value from storage engine''"

text \<open>The message names the duplicate value and the key, as \<open>Duplicate entry 'v' for key 'k'\<close>.\<close>

definition duplicate_error :: "string \<Rightarrow> string \<Rightarrow> goerr" where
  "duplicate_error v k = Plain (''Error 1062 (23000): Duplicate entry '' @ [char_of (39 :: nat)] @ v @
     [char_of (39 :: nat)] @ '' for key '' @ [char_of (39 :: nat)] @ k @ [char_of (39 :: nat)])"

section \<open>Statements\<close>

definition affected :: "int \<Rightarrow> exec_result" where
  "affected n = \<lparr>res_LastInsertId = Inr 0, res_RowsAffected = Inr n\<rparr>"

definition inserted :: "nat \<Rightarrow> exec_result" where
  "inserted i = \<lparr>res_LastInsertId = Inr (int64 (int i)), res_RowsAffected = Inr 1\<rparr>"

text \<open>\<open>INSERT INTO urls (hash, original_url, expires_at, vt_status) VALUES (?, ?, ?, 'pending')\<close>.\<close>

definition insert_url :: "env \<Rightarrow> string \<Rightarrow> string \<Rightarrow> time option \<Rightarrow> world \<Rightarrow> (goerr + exec_result) \<times> world" where
  "insert_url env h orig expires w =
     (case nullable_timestamp expires of
        None \<Rightarrow> (Inl data_error, w)
      | Some e \<Rightarrow>
          if \<not> fits 10 h \<or> \<not> fits 65535 orig \<or> 65535 < length orig then (Inl data_error, w)
          else let i = w_next_url w; w1 = w\<lparr>w_next_url := Suc i\<rparr>
            in if 2 ^ 64 \<le> i then (Inl autoinc_error, w)
               else if \<exists>u\<in>set (w_urls w). collate env (u_Hash u) = collate env h
               then (Inl (duplicate_error h ''urls.hash''), w1)
               else (Inr (inserted i), w1\<lparr>w_urls := w_urls w @
                 [\<lparr>u_ID = of_nat i, u_Hash = h, u_OriginalURL = orig, u_CreatedAt = now w,
                   u_LastAccessedAt = None, u_ExpiresAt = e, u_VTStatus = ''pending'',
                   u_VTScannedAt = None, u_VTPositives = None, u_VTPermalink = None\<rparr>]\<rparr>))"

definition update_url :: "u64 \<Rightarrow> (url \<Rightarrow> url) \<Rightarrow> world \<Rightarrow> world" where
  "update_url i f w = w\<lparr>w_urls := map (\<lambda>u. if u_ID u = i then f u else u) (w_urls w)\<rparr>"

definition has_url :: "u64 \<Rightarrow> world \<Rightarrow> bool" where
  "has_url i w \<longleftrightarrow> (\<exists>u\<in>set (w_urls w). u_ID u = i)"

text \<open>\<open>UPDATE urls SET hash = ? WHERE id = ?\<close>.\<close>

definition set_hash :: "env \<Rightarrow> string \<Rightarrow> u64 \<Rightarrow> world \<Rightarrow> (goerr + exec_result) \<times> world" where
  "set_hash env h i w =
     (if \<not> has_url i w then (Inr (affected 0), w)
      else if \<not> fits 10 h then (Inl data_error, w)
      else if \<exists>u\<in>set (w_urls w). u_ID u \<noteq> i \<and> collate env (u_Hash u) = collate env h
      then (Inl (duplicate_error h ''urls.hash''), w)
      else (Inr (affected 1), update_url i (\<lambda>u. u\<lparr>u_Hash := h\<rparr>) w))"

text \<open>\<open>UPDATE urls SET last_accessed_at = NOW() WHERE id = ?\<close>.\<close>

definition set_last_accessed :: "u64 \<Rightarrow> world \<Rightarrow> (goerr + exec_result) \<times> world" where
  "set_last_accessed i w =
     (if \<not> has_url i w then (Inr (affected 0), w)
      else (Inr (affected 1), update_url i (\<lambda>u. u\<lparr>u_LastAccessedAt := Some (now w)\<rparr>) w))"

text \<open>\<open>UPDATE urls SET vt_status = ? WHERE id = ?\<close>.\<close>

definition set_vt_status :: "env \<Rightarrow> string \<Rightarrow> u64 \<Rightarrow> world \<Rightarrow> (goerr + exec_result) \<times> world" where
  "set_vt_status env st i w =
     (if \<not> has_url i w then (Inr (affected 0), w)
      else case enum_member env vt_status_enum st of
             None \<Rightarrow> (Inl data_error, w)
           | Some v \<Rightarrow> (Inr (affected 1), update_url i (\<lambda>u. u\<lparr>u_VTStatus := v\<rparr>) w))"

text \<open>\<open>UPDATE urls SET vt_status = ?, vt_scanned_at = ?, vt_positives = ?, vt_permalink = ? WHERE id = ?\<close>.\<close>

definition set_vt_result ::
  "env \<Rightarrow> string \<Rightarrow> time \<Rightarrow> int \<Rightarrow> string \<Rightarrow> u64 \<Rightarrow> world \<Rightarrow> (goerr + exec_result) \<times> world" where
  "set_vt_result env st t n p i w =
     (if \<not> has_url i w then (Inr (affected 0), w)
      else case (enum_member env vt_status_enum st, timestamp t) of
             (Some v, Some t') \<Rightarrow>
               if 0 \<le> n \<and> n \<le> 255 \<and> fits 512 p
               then (Inr (affected 1), update_url i (\<lambda>u. u\<lparr>u_VTStatus := v, u_VTScannedAt := Some t',
                       u_VTPositives := Some n, u_VTPermalink := Some p\<rparr>) w)
               else (Inl data_error, w)
           | _ \<Rightarrow> (Inl data_error, w))"

text \<open>\<open>INSERT INTO clicks (url_id, accessed_at, user_agent, ip) VALUES (?, ?, ?, ?)\<close>.\<close>

definition insert_click ::
  "u64 \<Rightarrow> time \<Rightarrow> string \<Rightarrow> string \<Rightarrow> world \<Rightarrow> (goerr + exec_result) \<times> world" where
  "insert_click uid t ua ip w =
     (case timestamp t of
        None \<Rightarrow> (Inl data_error, w)
      | Some t' \<Rightarrow>
          if \<not> fits 512 ua \<or> \<not> fits 45 ip then (Inl data_error, w)
          else let i = w_next_click w; w1 = w\<lparr>w_next_click := Suc i\<rparr>
            in if 2 ^ 64 \<le> i then (Inl autoinc_error, w)
               else if \<not> has_url uid w then (Inl fk_error, w1)
               else (Inr (inserted i), w1\<lparr>w_clicks := w_clicks w @
                 [\<lparr>c_ID = of_nat i, c_URLID = uid, c_AccessedAt = t', c_UserAgent = ua, c_IP = ip\<rparr>]\<rparr>))"

text \<open>\<open>DELETE FROM clicks WHERE accessed_at < NOW() - INTERVAL ? DAY LIMIT 10000\<close>.\<close>

fun remove_first :: "nat \<Rightarrow> ('a \<Rightarrow> bool) \<Rightarrow> 'a list \<Rightarrow> 'a list" where
  "remove_first n P [] = []"
| "remove_first n P (x # xs) =
     (if n = 0 then x # xs
      else if P x then remove_first (n - 1) P xs else x # remove_first n P xs)"

definition days_before :: "world \<Rightarrow> int \<Rightarrow> time" where
  "days_before w d = now w - d * 24 * hour"

definition delete_clicks :: "int \<Rightarrow> world \<Rightarrow> (goerr + exec_result) \<times> world" where
  "delete_clicks d w =
     (let cs = remove_first 10000 (\<lambda>c. c_AccessedAt c < days_before w d) (w_clicks w)
      in (Inr (affected (int (length (w_clicks w)) - int (length cs))), w\<lparr>w_clicks := cs\<rparr>))"

text \<open>\<open>INSERT INTO url_reports (url_id, reporter_ip, reason) VALUES (?, ?, ?)\<close>.\<close>

definition insert_report :: "env \<Rightarrow> u64 \<Rightarrow> string \<Rightarrow> string \<Rightarrow> world \<Rightarrow> (goerr + exec_result) \<times> world" where
  "insert_report env uid ip reason w =
     (case enum_member env reason_enum reason of
        None \<Rightarrow> (Inl data_error, w)
      | Some v \<Rightarrow>
          if \<not> fits 45 ip then (Inl data_error, w)
          else let i = w_next_report w; w1 = w\<lparr>w_next_report := Suc i\<rparr>
            in if 2 ^ 64 \<le> i then (Inl autoinc_error, w)
               else if \<exists>r\<in>set (w_reports w). r_URLID r = uid \<and> collate env (r_ReporterIP r) = collate env ip
               then (Inl (duplicate_error ip ''url_reports.uk_url_reporter''), w1)
               else if \<not> has_url uid w then (Inl fk_error, w1)
               else (Inr (inserted i), w1\<lparr>w_reports := w_reports w @
                 [\<lparr>r_ID = of_nat i, r_URLID = uid, r_ReporterIP = ip, r_Reason = v, r_CreatedAt = now w\<rparr>]\<rparr>))"

fun apply_stmt :: "env \<Rightarrow> stmt \<Rightarrow> world \<Rightarrow> (goerr + exec_result) \<times> world" where
  "apply_stmt env (InsertURL h orig e) w = insert_url env h orig e w"
| "apply_stmt env (SetHash h i) w = set_hash env h i w"
| "apply_stmt env (SetLastAccessed i) w = set_last_accessed i w"
| "apply_stmt env (SetVTStatus st i) w = set_vt_status env st i w"
| "apply_stmt env (SetVTResult st t n p i) w = set_vt_result env st t n p i w"
| "apply_stmt env (InsertClick uid t ua ip) w = insert_click uid t ua ip w"
| "apply_stmt env (DeleteClicks d) w = delete_clicks d w"
| "apply_stmt env (InsertReport uid ip reason) w = insert_report env uid ip reason w"

definition mysql_exec :: "env \<Rightarrow> stmt \<Rightarrow> (world, goerr + exec_result) call" where
  "mysql_exec env st w =
     (case env_fault env (w_calls w) of
        None \<Rightarrow> apply_stmt env st (tick w)
      | Some (0, e) \<Rightarrow> (Inl (Plain e), tick w)
      | Some (Suc _, e) \<Rightarrow> (Inl (Plain e), snd (apply_stmt env st (tick w))))"

section \<open>Queries\<close>

definition not_expired :: "world \<Rightarrow> url \<Rightarrow> bool" where
  "not_expired w u \<longleftrightarrow> (case u_ExpiresAt u of None \<Rightarrow> True | Some t \<Rightarrow> now w < t)"

text \<open>A query reads the table from some row on, as the optimizer's choice of an index has it.\<close>

definition scan_from :: "env \<Rightarrow> world \<Rightarrow> 'r list \<Rightarrow> 'r list" where
  "scan_from env w rs = rotate (env_pick env (w_calls w)) rs"

lemma set_scan_from [simp]: "set (scan_from env w rs) = set rs"
  by (simp add: scan_from_def)

lemma length_scan_from [simp]: "length (scan_from env w rs) = length rs"
  by (simp add: scan_from_def)

lemma scan_from_singleton [simp]: "scan_from env w [r] = [r]"
  by (simp add: scan_from_def rotate_conv_mod)

lemma scan_from_Nil [simp]: "scan_from env w [] = []"
  by (simp add: scan_from_def)

fun select_urls :: "env \<Rightarrow> url_query \<Rightarrow> world \<Rightarrow> url list" where
  "select_urls env (ByHash h) w =
     scan_from env w (filter (\<lambda>u. collate env (u_Hash u) = collate env h) (w_urls w))"
| "select_urls env (ByID i) w = scan_from env w (filter (\<lambda>u. u_ID u = i) (w_urls w))"
| "select_urls env (ByOriginalURL orig) w =
     take 1 (scan_from env w (filter (\<lambda>u. collate env (u_OriginalURL u) = collate env orig \<and> not_expired w u) (w_urls w)))"
| "select_urls env (ByVTStatus st) w =
     take 100 (sort_key u_CreatedAt
       (scan_from env w (filter (\<lambda>u. collate env (u_VTStatus u) = collate env st \<and> not_expired w u) (w_urls w))))"

fun select_count :: "env \<Rightarrow> count_query \<Rightarrow> world \<Rightarrow> int" where
  "select_count env (CountClicks uid) w = int (length (filter (\<lambda>c. c_URLID c = uid) (w_clicks w)))"
| "select_count env (CountReporters uid) w =
     int (card ((\<lambda>r. collate env (r_ReporterIP r)) ` {r \<in> set (w_reports w). r_URLID r = uid}))"

text \<open>The groups of a \<open>GROUP BY\<close>, by the key of their rows, each with its first row and its size.\<close>

definition group_by :: "('r \<Rightarrow> 'k) \<Rightarrow> 'r list \<Rightarrow> ('r \<times> int) list" where
  "group_by f rs = map (\<lambda>k. (hd (filter (\<lambda>r. f r = k) rs), int (length (filter (\<lambda>r. f r = k) rs))))
     (remdups (map f rs))"

definition day_of :: "time \<Rightarrow> int" where
  "day_of t = t div (24 * hour)"

text \<open>
  \<open>SELECT DATE(accessed_at), COUNT(*) ... GROUP BY DATE(accessed_at) ORDER BY date DESC\<close>; the
  driver scans the date into the string field as an RFC 3339 time.
\<close>

definition select_days :: "u64 \<Rightarrow> int \<Rightarrow> world \<Rightarrow> daily_count list" where
  "select_days uid d w =
     map (\<lambda>(c, n). \<lparr>dc_Date = date_text (day_of (c_AccessedAt c)), dc_Count = n\<rparr>)
       (sort_key (\<lambda>(c, n). - day_of (c_AccessedAt c))
         (group_by (\<lambda>c. day_of (c_AccessedAt c))
           (filter (\<lambda>c. c_URLID c = uid \<and> days_before w d \<le> c_AccessedAt c) (w_clicks w))))"

text \<open>\<open>SELECT COALESCE(user_agent, ''), COUNT(*) ... GROUP BY user_agent ORDER BY count DESC LIMIT ?\<close>.\<close>

definition select_agents :: "env \<Rightarrow> u64 \<Rightarrow> int \<Rightarrow> world \<Rightarrow> user_agent_count list" where
  "select_agents env uid k w =
     take (nat k) (map (\<lambda>(c, n). \<lparr>uac_UserAgent = c_UserAgent c, uac_Count = n\<rparr>)
       (sort_key (\<lambda>(c, n). - n)
         (scan_from env w (group_by (\<lambda>c. collate env (c_UserAgent c))
           (filter (\<lambda>c. c_URLID c = uid) (w_clicks w))))))"

text \<open>A query under the environment's faults: it fails, or its rows break off.\<close>

definition mysql_query :: "env \<Rightarrow> (world \<Rightarrow> 'r list) \<Rightarrow> (world, 'r rows) call" where
  "mysql_query env sel w =
     (case env_fault env (w_calls w) of
        None \<Rightarrow> (Rows (sel w) EndOfRows, tick w)
      | Some (0, e) \<Rightarrow> (QueryError (Plain e), tick w)
      | Some (Suc k, e) \<Rightarrow> (Rows (take k (sel w)) (RowsError (Plain e)), tick w))"

definition mysql :: "env \<Rightarrow> world sql_db" where
  "mysql env =
     \<lparr>db_exec = mysql_exec env,
      db_urls = (\<lambda>q. mysql_query env (select_urls env q)),
      db_count = (\<lambda>q. mysql_query env (\<lambda>w. [select_count env q w])),
      db_days = (\<lambda>uid d. mysql_query env (select_days uid d)),
      db_agents = (\<lambda>uid k. mysql_query env (select_agents env uid k))\<rparr>"

lemma mysql_sel [simp]:
  "db_exec (mysql env) = mysql_exec env"
  "db_urls (mysql env) q = mysql_query env (select_urls env q)"
  "db_count (mysql env) c = mysql_query env (\<lambda>w. [select_count env c w])"
  "db_days (mysql env) uid d = mysql_query env (select_days uid d)"
  "db_agents (mysql env) uid k = mysql_query env (select_agents env uid k)"
  by (simp_all add: mysql_def)

section \<open>Redis\<close>

text \<open>A key is live until its expiry time; an expired key reads as absent.\<close>

definition live :: "world \<Rightarrow> string \<Rightarrow> string option" where
  "live w k = (case w_redis w k of
     None \<Rightarrow> None
   | Some (v, None) \<Rightarrow> Some v
   | Some (v, Some t) \<Rightarrow> if w_clock w < t then Some v else None)"

text \<open>The client sends a positive expiration in milliseconds, at least one, and no other one.\<close>

definition redis_expiry :: "time \<Rightarrow> duration \<Rightarrow> time option" where
  "redis_expiry t ttl = (if 0 < ttl then Some (t + max 1 (ttl div 1000000) * 1000000) else None)"

definition redis_set :: "string \<times> string \<times> duration \<Rightarrow> world \<Rightarrow> world" where
  "redis_set c w = (case c of (k, v, ttl) \<Rightarrow>
     w\<lparr>w_redis := (w_redis w)(k \<mapsto> (v, redis_expiry (w_clock w) ttl))\<rparr>)"

definition redis_MGet :: "env \<Rightarrow> string list \<Rightarrow> (world, goerr + string option list) call" where
  "redis_MGet env ks w = (case env_fault env (w_calls w) of
     None \<Rightarrow> (Inr (map (live w) ks), tick w) | Some (_, e) \<Rightarrow> (Inl (Plain e), tick w))"

text \<open>A pipeline whose connection breaks has executed its first commands.\<close>

definition redis_Pipeline :: "env \<Rightarrow> (string \<times> string \<times> duration) list \<Rightarrow> (world, goerr + unit) call" where
  "redis_Pipeline env cs w = (case env_fault env (w_calls w) of
     None \<Rightarrow> (Inr (), fold redis_set cs (tick w))
   | Some (n, e) \<Rightarrow> (Inl (Plain e), fold redis_set (take n cs) (tick w)))"

definition redis_remove :: "string list \<Rightarrow> world \<Rightarrow> world" where
  "redis_remove ks w = w\<lparr>w_redis := (\<lambda>k. if k \<in> set ks then None else w_redis w k)\<rparr>"

definition redis_Del :: "env \<Rightarrow> string list \<Rightarrow> (world, nat reply) call" where
  "redis_Del env ks w = (case env_fault env (w_calls w) of
     None \<Rightarrow> (Reply (length (filter (\<lambda>k. live w k \<noteq> None) (remdups ks))), redis_remove ks (tick w))
   | Some (0, e) \<Rightarrow> (RedisErr (Plain e), tick w)
   | Some (Suc _, e) \<Rightarrow> (RedisErr (Plain e), redis_remove ks (tick w)))"

definition redis_Get :: "env \<Rightarrow> string \<Rightarrow> (world, string reply) call" where
  "redis_Get env k w = (case env_fault env (w_calls w) of
     None \<Rightarrow> (case live w k of None \<Rightarrow> RedisNil | Some v \<Rightarrow> Reply v, tick w)
   | Some (_, e) \<Rightarrow> (RedisErr (Plain e), tick w))"

definition redis :: "env \<Rightarrow> world redis_client" where
  "redis env = \<lparr>rd_MGet = redis_MGet env, rd_Pipeline = redis_Pipeline env,
     rd_Del = redis_Del env, rd_Get = redis_Get env\<rparr>"

lemma redis_sel [simp]:
  "rd_MGet (redis env) = redis_MGet env" "rd_Pipeline (redis env) = redis_Pipeline env"
  "rd_Del (redis env) = redis_Del env" "rd_Get (redis env) = redis_Get env"
  by (simp_all add: redis_def)

end
