(* ===== verification/Schema.thy ===== *)
theory Schema
  imports World
begin

text \<open>
  What the tables' constraints guarantee under every statement: keys stay unique, references
  resolve, ids stay below the auto-increment counter, whatever fails in between.
\<close>

section \<open>What the schema guarantees\<close>

text \<open>Keys are unique, references resolve, and ids stay below the auto-increment counter.\<close>

definition urls_ok :: "env \<Rightarrow> world \<Rightarrow> bool" where
  "urls_ok env w \<longleftrightarrow>
     distinct (map u_ID (w_urls w)) \<and>
     distinct (map (\<lambda>u. collate env (u_Hash u)) (w_urls w)) \<and>
     (\<forall>u\<in>set (w_urls w). 0 < u_ID u \<and> unat (u_ID u) < w_next_url w \<and>
        u_VTStatus u \<in> set vt_status_enum \<and> utf8_valid (u_OriginalURL u)) \<and>
     0 < w_next_url w \<and> w_next_url w \<le> 2 ^ 64"

definition clicks_ok :: "world \<Rightarrow> bool" where
  "clicks_ok w \<longleftrightarrow> (\<forall>c\<in>set (w_clicks w). has_url (c_URLID c) w)"

definition reports_ok :: "env \<Rightarrow> world \<Rightarrow> bool" where
  "reports_ok env w \<longleftrightarrow>
     distinct (map (\<lambda>r. (r_URLID r, collate env (r_ReporterIP r))) (w_reports w)) \<and>
     (\<forall>r\<in>set (w_reports w). has_url (r_URLID r) w \<and> r_Reason r \<in> set reason_enum)"

definition db_ok :: "env \<Rightarrow> world \<Rightarrow> bool" where
  "db_ok env w \<longleftrightarrow> urls_ok env w \<and> clicks_ok w \<and> reports_ok env w"

lemma urls_of_has_url: "map u_ID (w_urls w') = map u_ID (w_urls w) \<Longrightarrow> has_url i w' = has_url i w"
  by (metis (mono_tags, lifting) has_url_def image_iff set_map)

section \<open>Updates of one row\<close>

lemma update_url_sel [simp]:
  "w_clicks (update_url i f w) = w_clicks w" "w_reports (update_url i f w) = w_reports w"
  "w_next_url (update_url i f w) = w_next_url w" "w_redis (update_url i f w) = w_redis w"
  "w_clock (update_url i f w) = w_clock w" "w_calls (update_url i f w) = w_calls w"
  "w_next_click (update_url i f w) = w_next_click w" "w_next_report (update_url i f w) = w_next_report w"
  by (simp_all add: update_url_def)

lemma w_urls_update: "w_urls (update_url i f w) = map (\<lambda>u. if u_ID u = i then f u else u) (w_urls w)"
  by (simp add: update_url_def)

lemma update_url_ids: "(\<And>u. u_ID (f u) = u_ID u) \<Longrightarrow> map u_ID (w_urls (update_url i f w)) = map u_ID (w_urls w)"
  by (simp add: w_urls_update)

lemma update_url_has_url: "(\<And>u. u_ID (f u) = u_ID u) \<Longrightarrow> has_url j (update_url i f w) = has_url j w"
  by (rule urls_of_has_url) (rule update_url_ids)

lemma update_url_ok:
  assumes ok: "urls_ok env w" and ids: "\<And>u. u_ID (f u) = u_ID u"
    and hash: "\<And>u. u_Hash (f u) = u_Hash u" and orig: "\<And>u. u_OriginalURL (f u) = u_OriginalURL u"
    and st: "\<And>u. u \<in> set (w_urls w) \<Longrightarrow> u_VTStatus (f u) \<in> set vt_status_enum"
  shows "urls_ok env (update_url i f w)"
proof -
  have hash': "map (\<lambda>u. collate env (u_Hash u)) (w_urls (update_url i f w)) = map (\<lambda>u. collate env (u_Hash u)) (w_urls w)"
    by (simp add: w_urls_update hash)
  note ids' = update_url_ids [of f i w, OF ids]
  show ?thesis
    using ok st unfolding urls_ok_def hash' ids' by (auto simp: w_urls_update ids orig)
qed

lemma urls_ok_status: "urls_ok env w \<Longrightarrow> u \<in> set (w_urls w) \<Longrightarrow> u_VTStatus u \<in> set vt_status_enum"
  by (simp add: urls_ok_def)

lemma set_hash_ok:
  assumes ok: "urls_ok env w"
    and fresh: "\<not> (\<exists>u\<in>set (w_urls w). u_ID u \<noteq> i \<and> collate env (u_Hash u) = collate env h)"
  shows "urls_ok env (update_url i (\<lambda>u. u\<lparr>u_Hash := h\<rparr>) w)"
proof -
  let ?f = "\<lambda>u. if u_ID u = i then u\<lparr>u_Hash := h\<rparr> else u"
  have "distinct (map (\<lambda>u. collate env (u_Hash u)) (map ?f us))"
    if "distinct (map u_ID us)" "distinct (map (\<lambda>u. collate env (u_Hash u)) us)" "set us \<subseteq> set (w_urls w)" for us
    using that
  proof (induction us)
    case (Cons u us)
    then show ?case using fresh by (auto simp: image_iff)
  qed simp
  then have hash': "distinct (map (\<lambda>u. collate env (u_Hash u)) (w_urls (update_url i (\<lambda>u. u\<lparr>u_Hash := h\<rparr>) w)))"
    using ok by (simp only: w_urls_update) (simp add: urls_ok_def)
  have ids': "map u_ID (w_urls (update_url i (\<lambda>u. u\<lparr>u_Hash := h\<rparr>) w)) = map u_ID (w_urls w)"
    by (rule update_url_ids) simp
  show ?thesis
    using ok hash' unfolding urls_ok_def ids' by (auto simp: w_urls_update)
qed

section \<open>Every statement keeps the constraints\<close>

lemma enum_member_in: "enum_member env vs s = Some v \<Longrightarrow> v \<in> set vs"
  by (auto simp: enum_member_def dest: find_Some_in)

lemma fits_utf8: "fits n s \<Longrightarrow> utf8_valid s"
  by (auto simp: fits_def char_count_def split: if_splits)

lemma urls_ok_cong:
  "w_urls w' = w_urls w \<Longrightarrow> w_next_url w' = w_next_url w \<Longrightarrow> urls_ok env w' = urls_ok env w"
  by (simp add: urls_ok_def)

lemma has_url_cong: "w_urls w' = w_urls w \<Longrightarrow> has_url i w' = has_url i w"
  by (simp add: has_url_def)

lemma insert_url_ok:
  assumes "urls_ok env w" shows "urls_ok env (snd (insert_url env h orig e w))"
proof -
  let ?i = "w_next_url w"
  have new: "of_nat ?i \<notin> u_ID ` set (w_urls w)" if "\<not> 2 ^ 64 \<le> ?i"
  proof
    assume "of_nat ?i \<in> u_ID ` set (w_urls w)"
    then obtain u where "u \<in> set (w_urls w)" "unat (u_ID u) = unat (of_nat ?i :: u64)" by auto
    with assms that show False by (auto simp: urls_ok_def unat_of_nat)
  qed
  have id: "unat (of_nat ?i :: u64) = ?i" if "\<not> 2 ^ 64 \<le> ?i" using that by (simp add: unat_of_nat)
  then have pos: "0 < (of_nat ?i :: u64)" if "\<not> 2 ^ 64 \<le> ?i"
    using that assms by (simp add: word_less_nat_alt urls_ok_def)
  show ?thesis
    using assms new id pos
    by (auto simp: insert_url_def urls_ok_def Let_def vt_status_enum_def less_Suc_eq dest: fits_utf8
        split: option.splits)
qed

lemma apply_stmt_urls_ok:
  assumes "urls_ok env w" shows "urls_ok env (snd (apply_stmt env st w))"
proof (cases st)
  case (SetHash h i)
  with assms show ?thesis by (auto simp: set_hash_def set_hash_ok)
next
  case (SetLastAccessed i)
  with assms show ?thesis
    using urls_ok_status [of env w]
    by (auto simp: set_last_accessed_def intro!: update_url_ok)
next
  case (SetVTStatus v i)
  with assms show ?thesis
    by (auto simp: set_vt_status_def intro!: update_url_ok dest: enum_member_in split: option.splits)
next
  case (SetVTResult v t n p i)
  with assms show ?thesis
    by (auto simp: set_vt_result_def intro!: update_url_ok dest: enum_member_in split: option.splits)
next
  case (InsertURL h orig e)
  with assms show ?thesis by (simp add: insert_url_ok)
qed (use assms in \<open>auto simp: insert_click_def delete_clicks_def insert_report_def Let_def
     urls_ok_def split: option.splits\<close>)

text \<open>Rows of \<open>urls\<close> are never deleted and keep id and original URL.\<close>

lemma apply_stmt_has_url: "has_url i w \<Longrightarrow> has_url i (snd (apply_stmt env st w))"
proof (cases st)
  case (SetHash h j)
  assume "has_url i w" with SetHash show ?thesis by (auto simp: set_hash_def update_url_has_url)
next
  case (SetLastAccessed j)
  assume "has_url i w" with SetLastAccessed show ?thesis by (auto simp: set_last_accessed_def update_url_has_url)
next
  case (SetVTStatus v j)
  assume "has_url i w" with SetVTStatus show ?thesis
    by (auto simp: set_vt_status_def update_url_has_url split: option.splits)
next
  case (SetVTResult v t n p j)
  assume "has_url i w" with SetVTResult show ?thesis
    by (auto simp: set_vt_result_def update_url_has_url split: option.splits)
qed (auto simp: insert_url_def insert_click_def delete_clicks_def insert_report_def Let_def
     has_url_def split: option.splits)

lemma set_remove_first: "set (remove_first n P xs) \<subseteq> set xs"
  by (induction n P xs rule: remove_first.induct) auto

lemma apply_stmt_clicks:
  "set (w_clicks (snd (apply_stmt env st w))) \<subseteq> set (w_clicks w) \<union> {c. has_url (c_URLID c) w}"
proof (cases st)
  case (DeleteClicks d)
  then show ?thesis using set_remove_first by (fastforce simp: delete_clicks_def Let_def)
qed (auto simp: insert_url_def insert_click_def insert_report_def set_hash_def set_last_accessed_def
     set_vt_status_def set_vt_result_def Let_def split: option.splits)

lemma apply_stmt_reports:
  assumes "reports_ok env w" shows "reports_ok env (snd (apply_stmt env st w))"
proof -
  have has: "has_url i w \<Longrightarrow> has_url i (snd (apply_stmt env st w))" for i by (rule apply_stmt_has_url)
  show ?thesis
  proof (cases st)
    case (InsertReport uid ip reason)
    with assms show ?thesis
      by (auto simp: insert_report_def reports_ok_def Let_def has_url_def dest!: enum_member_in split: option.splits)
  next
    case (InsertURL h orig e)
    then have "w_reports (snd (apply_stmt env st w)) = w_reports w"
      by (auto simp: insert_url_def Let_def split: option.splits)
    with assms has show ?thesis by (auto simp: reports_ok_def)
  next
    case (SetHash h i)
    then have "w_reports (snd (apply_stmt env st w)) = w_reports w" by (auto simp: set_hash_def)
    with assms has show ?thesis by (auto simp: reports_ok_def)
  next
    case (SetLastAccessed i)
    then have "w_reports (snd (apply_stmt env st w)) = w_reports w" by (auto simp: set_last_accessed_def)
    with assms has show ?thesis by (auto simp: reports_ok_def)
  next
    case (SetVTStatus v i)
    then have "w_reports (snd (apply_stmt env st w)) = w_reports w"
      by (auto simp: set_vt_status_def split: option.splits)
    with assms has show ?thesis by (auto simp: reports_ok_def)
  next
    case (SetVTResult v t n p i)
    then have "w_reports (snd (apply_stmt env st w)) = w_reports w"
      by (auto simp: set_vt_result_def split: option.splits)
    with assms has show ?thesis by (auto simp: reports_ok_def)
  next
    case (InsertClick uid t ua ip)
    then have "w_reports (snd (apply_stmt env st w)) = w_reports w"
      by (auto simp: insert_click_def Let_def split: option.splits)
    with assms has show ?thesis by (auto simp: reports_ok_def)
  next
    case (DeleteClicks d)
    with assms show ?thesis by (auto simp: reports_ok_def delete_clicks_def Let_def has_url_def)
  qed
qed

lemma apply_stmt_ok: "db_ok env w \<Longrightarrow> db_ok env (snd (apply_stmt env st w))"
  using apply_stmt_clicks [of env st w] apply_stmt_has_url
  by (auto simp: db_ok_def apply_stmt_urls_ok apply_stmt_reports clicks_ok_def)

lemma tick_ok [simp]: "db_ok env (tick w) = db_ok env w"
  by (simp add: db_ok_def urls_ok_def clicks_ok_def reports_ok_def has_url_def)

lemma mysql_exec_ok: "db_ok env w \<Longrightarrow> db_ok env (snd (mysql_exec env st w))"
  by (auto simp: mysql_exec_def apply_stmt_ok split: option.split nat.split)

end
