(* ===== verification/Repositories.thy ===== *)
theory Repositories
  imports Schema
begin

text \<open>
  \<open>internal/repository/mysql\<close>: the repositories of URLs, clicks and reports, over any
  \<open>*sql.DB\<close>. A method that fills a field of its argument through the pointer
  (\<open>u.ID\<close>, \<open>c.ID\<close>, \<open>rep.ID\<close>) returns the argument updated.
\<close>

section \<open>\<open>url_repository.go\<close>\<close>

definition Create :: "'s sql_db \<Rightarrow> url \<Rightarrow> ('s, goerr + url) call" where
  "Create db u s =
     (case db_exec db (InsertURL (u_Hash u) (u_OriginalURL u) (u_ExpiresAt u)) s of
        (Inl e, s') \<Rightarrow> (Inl (Wrapf ''url_repository: create: %w'' [] e), s')
      | (Inr res, s') \<Rightarrow>
          (case res_LastInsertId res of
             Inl e \<Rightarrow> (Inl (Wrapf ''url_repository: last insert id: %w'' [] e), s')
           | Inr i \<Rightarrow> (Inr (u\<lparr>u_ID := of_int i\<rparr>), s')))"

text \<open>A single-row lookup: \<open>sql.ErrNoRows\<close> becomes the domain's error, others are wrapped.\<close>

definition find_one :: "string \<Rightarrow> url rows \<Rightarrow> goerr + url" where
  "find_one msg rs =
     (case first_row rs of
        NoRows \<Rightarrow> Inl (Sentinel ErrURLNotFound)
      | RowError e \<Rightarrow> Inl (Wrapf msg [] e)
      | Row u \<Rightarrow> Inr u)"

definition FindByHash :: "'s sql_db \<Rightarrow> string \<Rightarrow> ('s, goerr + url) call" where
  "FindByHash db h s =
     (case db_urls db (ByHash h) s of (rs, s') \<Rightarrow> (find_one ''url_repository: find by hash: %w'' rs, s'))"

definition FindByID :: "'s sql_db \<Rightarrow> u64 \<Rightarrow> ('s, goerr + url) call" where
  "FindByID db i s =
     (case db_urls db (ByID i) s of (rs, s') \<Rightarrow> (find_one ''url_repository: find by id: %w'' rs, s'))"

definition FindByOriginalURL :: "'s sql_db \<Rightarrow> string \<Rightarrow> ('s, goerr + url) call" where
  "FindByOriginalURL db orig s =
     (case db_urls db (ByOriginalURL orig) s of
        (rs, s') \<Rightarrow> (find_one ''url_repository: find by original url: %w'' rs, s'))"

text \<open>The loop \<open>for rows.Next() { rows.Scan(...) }\<close> and the test of \<open>rows.Err()\<close> after it.\<close>

fun scan_rows :: "string \<Rightarrow> string \<Rightarrow> 'r list \<Rightarrow> rows_end \<Rightarrow> 'r list \<Rightarrow> goerr + 'r list" where
  "scan_rows scan_msg rows_msg (r # rs) fin acc = scan_rows scan_msg rows_msg rs fin (acc @ [r])"
| "scan_rows scan_msg rows_msg [] EndOfRows acc = Inr acc"
| "scan_rows scan_msg rows_msg [] (ScanError e) acc = Inl (Wrapf scan_msg [] e)"
| "scan_rows scan_msg rows_msg [] (RowsError e) acc = Inl (Wrapf rows_msg [] e)"

fun find_many :: "string \<Rightarrow> string \<Rightarrow> string \<Rightarrow> 'r rows \<Rightarrow> goerr + 'r list" where
  "find_many query_msg scan_msg rows_msg (QueryError e) = Inl (Wrapf query_msg [] e)"
| "find_many query_msg scan_msg rows_msg (Rows rs fin) = scan_rows scan_msg rows_msg rs fin []"

definition FindByVTStatus :: "'s sql_db \<Rightarrow> string \<Rightarrow> ('s, goerr + url list) call" where
  "FindByVTStatus db st s =
     (case db_urls db (ByVTStatus st) s of (rs, s') \<Rightarrow>
        (find_many ''url_repository: find by vt status: %w'' ''url_repository: find by vt status scan: %w''
           ''url_repository: find by vt status rows: %w'' rs, s'))"

text \<open>An \<open>ExecContext\<close> whose result is not looked at.\<close>

definition exec_only :: "'s sql_db \<Rightarrow> string \<Rightarrow> stmt \<Rightarrow> ('s, goerr + unit) call" where
  "exec_only db msg st s =
     (case db_exec db st s of
        (Inl e, s') \<Rightarrow> (Inl (Wrapf msg [] e), s')
      | (Inr _, s') \<Rightarrow> (Inr (), s'))"

definition UpdateHash :: "'s sql_db \<Rightarrow> u64 \<Rightarrow> string \<Rightarrow> ('s, goerr + unit) call" where
  "UpdateHash db i h = exec_only db ''url_repository: update hash: %w'' (SetHash h i)"

definition UpdateLastAccessed :: "'s sql_db \<Rightarrow> u64 \<Rightarrow> ('s, goerr + unit) call" where
  "UpdateLastAccessed db i = exec_only db ''url_repository: update last accessed: %w'' (SetLastAccessed i)"

definition UpdateVTStatus :: "'s sql_db \<Rightarrow> u64 \<Rightarrow> string \<Rightarrow> ('s, goerr + unit) call" where
  "UpdateVTStatus db i st = exec_only db ''url_repository: update vt status: %w'' (SetVTStatus st i)"

definition UpdateVTResult :: "'s sql_db \<Rightarrow> u64 \<Rightarrow> scan_result \<Rightarrow> ('s, goerr + unit) call" where
  "UpdateVTResult db i r = exec_only db ''url_repository: update vt result: %w''
     (SetVTResult (sr_Status r) (sr_ScannedAt r) (sr_Positives r) (sr_Permalink r) i)"

section \<open>\<open>click_repository.go\<close>\<close>

definition Insert_click :: "'s sql_db \<Rightarrow> click \<Rightarrow> ('s, goerr + click) call" where
  "Insert_click db c s =
     (case db_exec db (InsertClick (c_URLID c) (c_AccessedAt c) (c_UserAgent c) (c_IP c)) s of
        (Inl e, s') \<Rightarrow> (Inl (Wrapf ''click_repository: insert: %w'' [] e), s')
      | (Inr res, s') \<Rightarrow>
          (case res_LastInsertId res of
             Inl e \<Rightarrow> (Inl (Wrapf ''click_repository: last insert id: %w'' [] e), s')
           | Inr i \<Rightarrow> (Inr (c\<lparr>c_ID := of_int i\<rparr>), s')))"

definition scan_count :: "string \<Rightarrow> int rows \<Rightarrow> goerr + int" where
  "scan_count msg rs =
     (case first_row rs of
        NoRows \<Rightarrow> Inl (Wrapf msg [] (Plain ''sql: no rows in result set''))
      | RowError e \<Rightarrow> Inl (Wrapf msg [] e)
      | Row n \<Rightarrow> Inr n)"

definition CountByURLID :: "'s sql_db \<Rightarrow> u64 \<Rightarrow> ('s, goerr + int) call" where
  "CountByURLID db uid s =
     (case db_count db (CountClicks uid) s of
        (rs, s') \<Rightarrow> (scan_count ''click_repository: count by url id: %w'' rs, s'))"

definition GroupByDay :: "'s sql_db \<Rightarrow> u64 \<Rightarrow> int \<Rightarrow> ('s, goerr + daily_count list) call" where
  "GroupByDay db uid days s =
     (case db_days db uid days s of (rs, s') \<Rightarrow>
        (find_many ''click_repository: group by day: %w'' ''click_repository: group by day scan: %w''
           ''click_repository: group by day rows: %w'' rs, s'))"

definition TopUserAgents :: "'s sql_db \<Rightarrow> u64 \<Rightarrow> int \<Rightarrow> ('s, goerr + user_agent_count list) call" where
  "TopUserAgents db uid limit s =
     (case db_agents db uid limit s of (rs, s') \<Rightarrow>
        (find_many ''click_repository: top user agents: %w'' ''click_repository: top user agents scan: %w''
           ''click_repository: top user agents rows: %w'' rs, s'))"

definition DeleteOlderThan :: "'s sql_db \<Rightarrow> int \<Rightarrow> ('s, goerr + int) call" where
  "DeleteOlderThan db days s =
     (case db_exec db (DeleteClicks days) s of
        (Inl e, s') \<Rightarrow> (Inl (Wrapf ''click_repository: delete older than: %w'' [] e), s')
      | (Inr res, s') \<Rightarrow>
          (case res_RowsAffected res of
             Inl e \<Rightarrow> (Inl (Wrapf ''click_repository: delete older than rows affected: %w'' [] e), s')
           | Inr n \<Rightarrow> (Inr n, s')))"

section \<open>\<open>report_repository.go\<close>\<close>

definition isDuplicateEntry :: "goerr \<Rightarrow> bool" where
  "isDuplicateEntry err \<longleftrightarrow>
     str_contains (lib_err_text err) ''Duplicate entry'' \<or> str_contains (lib_err_text err) ''duplicate entry''"

definition Insert_report :: "'s sql_db \<Rightarrow> report \<Rightarrow> ('s, goerr + report) call" where
  "Insert_report db rep s =
     (case db_exec db (InsertReport (r_URLID rep) (r_ReporterIP rep) (r_Reason rep)) s of
        (Inl e, s') \<Rightarrow>
          (if isDuplicateEntry e then (Inl (Sentinel ErrDuplicateReport), s')
           else (Inl (Wrapf ''report_repository: insert: %w'' [] e), s'))
      | (Inr res, s') \<Rightarrow>
          (case res_LastInsertId res of
             Inl e \<Rightarrow> (Inl (Wrapf ''report_repository: last insert id: %w'' [] e), s')
           | Inr i \<Rightarrow> (Inr (rep\<lparr>r_ID := of_int i\<rparr>), s')))"

definition CountDistinctIPsByURLID :: "'s sql_db \<Rightarrow> u64 \<Rightarrow> ('s, goerr + int) call" where
  "CountDistinctIPsByURLID db uid s =
     (case db_count db (CountReporters uid) s of
        (rs, s') \<Rightarrow> (scan_count ''report_repository: count distinct ips: %w'' rs, s'))"

section \<open>Scanning rows\<close>

lemma scan_rows_eq:
  "scan_rows scan_msg rows_msg rs fin acc = (case fin of EndOfRows \<Rightarrow> Inr (acc @ rs)
     | ScanError e \<Rightarrow> Inl (Wrapf scan_msg [] e) | RowsError e \<Rightarrow> Inl (Wrapf rows_msg [] e))"
  by (induction rs arbitrary: acc) (auto split: rows_end.splits)

lemma find_many_ok: "find_many q sc rm rows = Inr rs \<longleftrightarrow> rows = Rows rs EndOfRows"
  by (cases rows) (auto simp: scan_rows_eq split: rows_end.splits)

lemma find_one_ok: "find_one msg rows = Inr u \<longleftrightarrow> (\<exists>rs fin. rows = Rows (u # rs) fin)"
  by (rule first_row.cases [where x = rows]) (auto simp: find_one_def)

lemma find_one_not_found:
  "find_one msg rows = Inl (Sentinel ErrURLNotFound) \<longleftrightarrow> rows = Rows [] EndOfRows"
  by (rule first_row.cases [where x = rows]) (auto simp: find_one_def)

end
