(* ===== verification/RedisCache.thy ===== *)
theory RedisCache
  imports World GoJSON
begin

text \<open>
  \<open>internal/repository/redis/cache.go\<close>: the cache of redirects, an entry per hash under two
  keys (the URL with its scan status as JSON, and the row id), and the raw entries of the
  scanner, over any Redis client.
\<close>

definition urlKeyPrefix :: string where "urlKeyPrefix = ''snip:url:''"
definition metaKeyPrefix :: string where "metaKeyPrefix = ''snip:meta:''"

record urlCacheEntry =
  e_OriginalURL :: string
  e_VTStatus :: string

text \<open>The JSON of the struct, by its field tags.\<close>

definition entry_json :: "urlCacheEntry \<Rightarrow> json" where
  "entry_json e = JObj [(''original_url'', JStr (e_OriginalURL e)), (''vt_status'', JStr (e_VTStatus e))]"

definition entry_fields :: "urlCacheEntry field list" where
  "entry_fields = [string_field ''original_url'' e_OriginalURL_update, string_field ''vt_status'' e_VTStatus_update]"

text \<open>\<open>json.Unmarshal(data, &entry)\<close>; \<open>None\<close> is its error.\<close>

definition unmarshal_entry :: "unicode_tables \<Rightarrow> string \<Rightarrow> urlCacheEntry option" where
  "unmarshal_entry uc data =
     (case parse_json data of None \<Rightarrow> None
      | Some j \<Rightarrow> (case decode_struct uc False entry_fields j \<lparr>e_OriginalURL = [], e_VTStatus = []\<rparr> of
           (e, ok) \<Rightarrow> if ok then Some e else None))"

text \<open>What an entry's value reads as; one that is not JSON of the struct is a bare URL.\<close>

definition read_entry :: "unicode_tables \<Rightarrow> string \<Rightarrow> string \<times> string" where
  "read_entry uc urlVal = (case unmarshal_entry uc urlVal of
     Some e \<Rightarrow> (e_OriginalURL e, e_VTStatus e) | None \<Rightarrow> (urlVal, []))"

definition read_id :: "string option \<Rightarrow> u64" where
  "read_id v = (case v of None \<Rightarrow> 0
     | Some idStr \<Rightarrow> if idStr \<noteq> [] then (case parse_uint64 idStr of Some i \<Rightarrow> i | None \<Rightarrow> 0) else 0)"

definition cache_Get ::
  "unicode_tables \<Rightarrow> 's redis_client \<Rightarrow> string \<Rightarrow> ('s, goerr + (string \<times> string \<times> u64)) call" where
  "cache_Get uc c h s =
     (case rd_MGet c [urlKeyPrefix @ h, metaKeyPrefix @ h] s of
        (Inl e, s') \<Rightarrow> (Inl (Wrapf ''cache: get %q: %w'' [ArgStr h] e), s')
      | (Inr results, s') \<Rightarrow>
          (case results ! 0 of
             None \<Rightarrow> (Inl (Sentinel ErrURLNotFound), s')
           | Some urlVal \<Rightarrow>
               if urlVal = [] then (Inl (Sentinel ErrURLNotFound), s')
               else (case read_entry uc urlVal of
                 (orig, st) \<Rightarrow> (Inr (orig, st, read_id (results ! 1)), s'))))"

text \<open>\<open>json.Marshal\<close> of the struct never fails: it replaces bytes that are not UTF-8.\<close>

definition cache_Set ::
  "'s redis_client \<Rightarrow> string \<Rightarrow> string \<Rightarrow> string \<Rightarrow> u64 \<Rightarrow> duration \<Rightarrow> ('s, goerr + unit) call" where
  "cache_Set c h orig st uid ttl s =
     (let data = json_text (entry_json \<lparr>e_OriginalURL = orig, e_VTStatus = st\<rparr>)
      in case rd_Pipeline c [(urlKeyPrefix @ h, data, ttl),
                             (metaKeyPrefix @ h, dec_digits (unat uid), ttl)] s of
           (Inl e, s') \<Rightarrow> (Inl (Wrapf ''cache: set %q: %w'' [ArgStr h] e), s')
         | (Inr _, s') \<Rightarrow> (Inr (), s'))"

definition cache_Delete :: "'s redis_client \<Rightarrow> string \<Rightarrow> ('s, goerr + unit) call" where
  "cache_Delete c h s =
     (case rd_Del c [urlKeyPrefix @ h, metaKeyPrefix @ h] s of
        (RedisNil, s') \<Rightarrow> (Inr (), s')
      | (RedisErr e, s') \<Rightarrow> (Inl (Wrapf ''cache: delete %q: %w'' [ArgStr h] e), s')
      | (Reply _, s') \<Rightarrow> (Inr (), s'))"

text \<open>The error of an absent key wraps nothing.\<close>

definition GetRaw :: "'s redis_client \<Rightarrow> string \<Rightarrow> ('s, goerr + string) call" where
  "GetRaw c key s =
     (case rd_Get c key s of
        (RedisNil, s') \<Rightarrow> (Inl (Wrapf ''cache: raw get %q: not found'' [ArgStr key] (Plain [])), s')
      | (RedisErr e, s') \<Rightarrow> (Inl (Wrapf ''cache: raw get %q: %w'' [ArgStr key] e), s')
      | (Reply data, s') \<Rightarrow> (Inr data, s'))"

text \<open>A single \<open>SET\<close>.\<close>

definition SetRaw :: "'s redis_client \<Rightarrow> string \<Rightarrow> string \<Rightarrow> duration \<Rightarrow> ('s, goerr + unit) call" where
  "SetRaw c key value ttl s =
     (case rd_Pipeline c [(key, value, ttl)] s of
        (Inl e, s') \<Rightarrow> (Inl (Wrapf ''cache: raw set %q: %w'' [ArgStr key] e), s')
      | (Inr _, s') \<Rightarrow> (Inr (), s'))"

section \<open>Entries round-trip\<close>

lemma entry_json_ok:
  "utf8_valid (e_OriginalURL e) \<Longrightarrow> utf8_valid (e_VTStatus e) \<Longrightarrow> json_ok (entry_json e)"
proof -
  have "is_ascii ''original_url''" "is_ascii ''vt_status''" by simp_all
  then show "utf8_valid (e_OriginalURL e) \<Longrightarrow> utf8_valid (e_VTStatus e) \<Longrightarrow> json_ok (entry_json e)"
    by (simp add: entry_json_def utf8_valid_ascii del: is_ascii_simps)
qed

lemma find_entry_field:
  "find_field uc entry_fields ''original_url'' = Some (string_field ''original_url'' e_OriginalURL_update)"
  "find_field uc entry_fields ''vt_status'' = Some (string_field ''vt_status'' e_VTStatus_update)"
  by (simp_all add: find_field_def entry_fields_def string_field_def)

lemma unmarshal_marshal:
  assumes "utf8_valid (e_OriginalURL e)" "utf8_valid (e_VTStatus e)"
  shows "unmarshal_entry uc (json_text (entry_json e)) = Some e"
  using parse_json_text_id [OF entry_json_ok [OF assms]]
  by (simp add: unmarshal_entry_def decode_struct_def entry_json_def find_entry_field string_field_def)

lemma read_entry_marshal:
  "utf8_valid orig \<Longrightarrow> utf8_valid st \<Longrightarrow>
   read_entry uc (json_text (entry_json \<lparr>e_OriginalURL = orig, e_VTStatus = st\<rparr>)) = (orig, st)"
  using unmarshal_marshal [of "\<lparr>e_OriginalURL = orig, e_VTStatus = st\<rparr>" uc] by (simp add: read_entry_def)

lemma read_id_format: "read_id (Some (dec_digits (unat i))) = i"
  using dec_digits_digits [of _ "unat i"] u64_bound [of i]
  by (auto simp: read_id_def parse_uint64_def dec_val_digits)

end
