(* ===== verification/Config.thy ===== *)
theory Config
  imports Domain
begin

text \<open>
  \<open>internal/config/config.go\<close>: the configuration from the environment, a function
  \<open>getenv\<close> that is empty where a variable is not set (after \<open>godotenv.Load\<close>).
\<close>

record config =
  cfg_AppPort :: string
  cfg_AppEnv :: string
  cfg_BaseURL :: string
  cfg_MySQLHost :: string
  cfg_MySQLPort :: string
  cfg_MySQLUser :: string
  cfg_MySQLPassword :: string
  cfg_MySQLDatabase :: string
  cfg_MySQLMaxOpenConns :: int
  cfg_MySQLMaxIdleConns :: int
  cfg_RedisHost :: string
  cfg_RedisPort :: string
  cfg_RedisPassword :: string
  cfg_RedisDB :: int
  cfg_RedisTTLDays :: int
  cfg_AnalyticsWorkers :: int
  cfg_AnalyticsBuffer :: int
  cfg_URLExpirationDays :: int
  cfg_BackgroundUpdateTimeoutSecs :: int
  cfg_AllowedOrigins :: string
  cfg_TrustedProxies :: string
  cfg_RateLimitShorten :: int
  cfg_RateLimitRedirect :: int
  cfg_RateLimitAnalytics :: int
  cfg_RateLimitReport :: int
  cfg_AnalyticsRetentionDays :: int
  cfg_HealthSecretKey :: string
  cfg_ReportAutoBlockThreshold :: int
  cfg_VTEnabled :: bool
  cfg_VTAPIKey :: string
  cfg_VTTimeout :: duration
  cfg_VTMinPositives :: int
  cfg_VTCacheTTLHours :: int
  cfg_VTRescanIntervalHours :: int

type_synonym getenv = "string \<Rightarrow> string"

text \<open>The errors: missing variables, variables with their unparsable values, pool sizes out of order.\<close>

datatype config_error =
    MissingEnv "string list"
  | InvalidEnv "(string \<times> string) list"
  | IdleExceedsOpen int int

definition envOrDefault :: "getenv \<Rightarrow> string \<Rightarrow> string \<Rightarrow> string" where
  "envOrDefault getenv key def = (if getenv key \<noteq> [] then getenv key else def)"

text \<open>The value, and the key to append to \<open>missing\<close> when it is empty.\<close>

definition requireEnv :: "getenv \<Rightarrow> string \<Rightarrow> string \<times> string list" where
  "requireEnv getenv key = (getenv key, if getenv key = [] then [key] else [])"

text \<open>The value or the default, and the error to append to \<open>parseErrs\<close>.\<close>

definition parseIntEnv :: "getenv \<Rightarrow> string \<Rightarrow> int \<Rightarrow> int \<times> (string \<times> string) list" where
  "parseIntEnv getenv key def =
     (let v = getenv key
      in if v = [] then (def, [])
         else case atoi v of None \<Rightarrow> (def, [(key, v)]) | Some n \<Rightarrow> (n, []))"

text \<open>The variables read as integers with their defaults, in the order they are read.\<close>

definition int_vars :: "(string \<times> int) list" where
  "int_vars =
     [(''MYSQL_MAX_OPEN_CONNS'', 25), (''MYSQL_MAX_IDLE_CONNS'', 10), (''REDIS_DB'', 0),
      (''REDIS_TTL_DAYS'', 30), (''ANALYTICS_WORKERS'', 4), (''ANALYTICS_BUFFER'', 1000),
      (''URL_EXPIRATION_DAYS'', 30), (''BACKGROUND_UPDATE_TIMEOUT_SECS'', 2),
      (''RATE_LIMIT_SHORTEN'', 5), (''RATE_LIMIT_REDIRECT'', 60), (''RATE_LIMIT_ANALYTICS'', 30),
      (''RATE_LIMIT_REPORT'', 3), (''ANALYTICS_RETENTION_DAYS'', 90), (''REPORT_AUTO_BLOCK_THRESHOLD'', 5),
      (''VT_TIMEOUT_SECONDS'', 10), (''VT_MIN_POSITIVES'', 2), (''VT_CACHE_TTL_HOURS'', 24),
      (''VT_RESCAN_INTERVAL_HOURS'', 6)]"

definition required_vars :: "string list" where
  "required_vars = [''MYSQL_HOST'', ''MYSQL_USER'', ''MYSQL_PASSWORD'', ''MYSQL_DATABASE'', ''REDIS_HOST'']"

definition missing_vars :: "getenv \<Rightarrow> string list" where
  "missing_vars getenv = concat (map (\<lambda>k. snd (requireEnv getenv k)) required_vars)"

definition parse_errors :: "getenv \<Rightarrow> (string \<times> string) list" where
  "parse_errors getenv = concat (map (\<lambda>(k, d). snd (parseIntEnv getenv k d)) int_vars)"

definition int_env :: "getenv \<Rightarrow> string \<Rightarrow> int" where
  "int_env getenv key = (case find (\<lambda>(k, d). k = key) int_vars of
     Some (k, d) \<Rightarrow> fst (parseIntEnv getenv k d) | None \<Rightarrow> 0)"

text \<open>The struct as it is filled before the checks.\<close>

definition read_config :: "getenv \<Rightarrow> config" where
  "read_config getenv =
     \<lparr>cfg_AppPort = envOrDefault getenv ''APP_PORT'' ''8080'',
      cfg_AppEnv = envOrDefault getenv ''APP_ENV'' ''development'',
      cfg_BaseURL = envOrDefault getenv ''BASE_URL'' ''http://localhost:8080'',
      cfg_MySQLHost = fst (requireEnv getenv ''MYSQL_HOST''),
      cfg_MySQLPort = envOrDefault getenv ''MYSQL_PORT'' ''3306'',
      cfg_MySQLUser = fst (requireEnv getenv ''MYSQL_USER''),
      cfg_MySQLPassword = fst (requireEnv getenv ''MYSQL_PASSWORD''),
      cfg_MySQLDatabase = fst (requireEnv getenv ''MYSQL_DATABASE''),
      cfg_MySQLMaxOpenConns = int_env getenv ''MYSQL_MAX_OPEN_CONNS'',
      cfg_MySQLMaxIdleConns = int_env getenv ''MYSQL_MAX_IDLE_CONNS'',
      cfg_RedisHost = fst (requireEnv getenv ''REDIS_HOST''),
      cfg_RedisPort = envOrDefault getenv ''REDIS_PORT'' ''6379'',
      cfg_RedisPassword = getenv ''REDIS_PASSWORD'',
      cfg_RedisDB = int_env getenv ''REDIS_DB'',
      cfg_RedisTTLDays = int_env getenv ''REDIS_TTL_DAYS'',
      cfg_AnalyticsWorkers = int_env getenv ''ANALYTICS_WORKERS'',
      cfg_AnalyticsBuffer = int_env getenv ''ANALYTICS_BUFFER'',
      cfg_URLExpirationDays = int_env getenv ''URL_EXPIRATION_DAYS'',
      cfg_BackgroundUpdateTimeoutSecs = int_env getenv ''BACKGROUND_UPDATE_TIMEOUT_SECS'',
      cfg_AllowedOrigins = envOrDefault getenv ''ALLOWED_ORIGINS'' ''*'',
      cfg_TrustedProxies = getenv ''TRUSTED_PROXIES'',
      cfg_RateLimitShorten = int_env getenv ''RATE_LIMIT_SHORTEN'',
      cfg_RateLimitRedirect = int_env getenv ''RATE_LIMIT_REDIRECT'',
      cfg_RateLimitAnalytics = int_env getenv ''RATE_LIMIT_ANALYTICS'',
      cfg_RateLimitReport = int_env getenv ''RATE_LIMIT_REPORT'',
      cfg_AnalyticsRetentionDays = int_env getenv ''ANALYTICS_RETENTION_DAYS'',
      cfg_HealthSecretKey = getenv ''HEALTH_SECRET_KEY'',
      cfg_ReportAutoBlockThreshold = int_env getenv ''REPORT_AUTO_BLOCK_THRESHOLD'',
      cfg_VTEnabled = (envOrDefault getenv ''VT_ENABLED'' ''true'' \<noteq> ''false''),
      cfg_VTAPIKey = getenv ''VIRUSTOTAL_API_KEY'',
      cfg_VTTimeout = int64 (int_env getenv ''VT_TIMEOUT_SECONDS'' * second),
      cfg_VTMinPositives = int_env getenv ''VT_MIN_POSITIVES'',
      cfg_VTCacheTTLHours = int_env getenv ''VT_CACHE_TTL_HOURS'',
      cfg_VTRescanIntervalHours = int_env getenv ''VT_RESCAN_INTERVAL_HOURS''\<rparr>"

definition LoadConfig :: "getenv \<Rightarrow> config_error + config" where
  "LoadConfig getenv =
     (let cfg = read_config getenv in
      if missing_vars getenv \<noteq> [] then Inl (MissingEnv (missing_vars getenv))
      else if parse_errors getenv \<noteq> [] then Inl (InvalidEnv (parse_errors getenv))
      else if cfg_MySQLMaxOpenConns cfg < cfg_MySQLMaxIdleConns cfg
      then Inl (IdleExceedsOpen (cfg_MySQLMaxIdleConns cfg) (cfg_MySQLMaxOpenConns cfg))
      else Inr cfg)"

definition DSN :: "config \<Rightarrow> string" where
  "DSN c = cfg_MySQLUser c @ '':'' @ cfg_MySQLPassword c @ ''@tcp('' @ cfg_MySQLHost c @ '':'' @ cfg_MySQLPort c @
     '')/'' @ cfg_MySQLDatabase c @ ''?parseTime=true''"

definition MigrationDSN :: "config \<Rightarrow> string" where
  "MigrationDSN c = cfg_MySQLUser c @ '':'' @ cfg_MySQLPassword c @ ''@tcp('' @ cfg_MySQLHost c @ '':'' @ cfg_MySQLPort c @
     '')/'' @ cfg_MySQLDatabase c @ ''?parseTime=true&multiStatements=true''"

section \<open>What loading reports\<close>

lemma missing_vars_filter: "missing_vars getenv = filter (\<lambda>k. getenv k = []) required_vars"
proof -
  have "concat (map (\<lambda>k. snd (requireEnv getenv k)) ks) = filter (\<lambda>k. getenv k = []) ks" for ks
    by (induction ks) (simp_all add: requireEnv_def)
  then show ?thesis by (simp add: missing_vars_def)
qed

text \<open>A set variable that is no 64-bit decimal integer.\<close>

definition unparsable :: "getenv \<Rightarrow> string \<Rightarrow> bool" where
  "unparsable getenv k \<longleftrightarrow> getenv k \<noteq> [] \<and> atoi (getenv k) = None"

lemma parse_errors_filter:
  "parse_errors getenv = map (\<lambda>k. (k, getenv k)) (filter (unparsable getenv) (map fst int_vars))"
proof -
  have "concat (map (\<lambda>(k, d). snd (parseIntEnv getenv k d)) vs) =
    map (\<lambda>k. (k, getenv k)) (filter (unparsable getenv) (map fst vs))" for vs
    by (induction vs) (auto simp: parseIntEnv_def unparsable_def Let_def split: option.split)
  then show ?thesis by (simp add: parse_errors_def)
qed

lemma distinct_int_vars: "distinct (map fst int_vars)"
  by code_simp

lemma int_env_var:
  assumes "(k, d) \<in> set int_vars" "\<not> unparsable getenv k"
  shows "int_env getenv k = (if getenv k = [] then d else the (atoi (getenv k)))"
proof -
  have "find (\<lambda>(k', d). k' = k) vs = Some (k, d)" if "distinct (map fst vs)" "(k, d) \<in> set vs" for vs :: "(string \<times> int) list"
    using that by (induction vs) force+
  from this [OF distinct_int_vars assms(1)] show ?thesis using assms(2)
    by (auto simp: int_env_def parseIntEnv_def unparsable_def Let_def)
qed

section \<open>Properties\<close>


end
