(* ===== verification/Wiring.thy ===== *)
theory Wiring
  imports Services Repositories RedisCache VirusTotal Config
begin

text \<open>
  The components as \<open>cmd/api/main.go\<close> wires them: MySQL repositories, the Redis cache, the
  scanners and the four services, on the state of MySQL and Redis.
\<close>

text \<open>What the process runs on: the services' environment, the text tables, and what HTTP calls return.\<close>

record platform =
  pf_env :: env
  pf_lib :: lib
  pf_http :: "nat \<Rightarrow> http_request \<Rightarrow> goerr + http_response"
  pf_latency :: "nat \<Rightarrow> nat"

abbreviation pf_uc :: "platform \<Rightarrow> unicode_tables" where
  "pf_uc p \<equiv> lib_uc (pf_lib p)"

section \<open>The clock, timers and HTTP\<close>

definition world_wait :: "ctx \<Rightarrow> duration \<Rightarrow> (world, bool) call" where
  "world_wait ctx d w = (case ctx of
     Some dl \<Rightarrow> if dl < w_clock w + d then (False, w\<lparr>w_clock := max (w_clock w) dl\<rparr>)
                else (True, w\<lparr>w_clock := w_clock w + max 0 d\<rparr>)
   | None \<Rightarrow> (True, w\<lparr>w_clock := w_clock w + max 0 d\<rparr>))"

definition world_timers :: "world timers" where
  "world_timers = \<lparr>tm_wait = world_wait,
     tm_cancelled = (\<lambda>ctx w. case ctx of None \<Rightarrow> False | Some dl \<Rightarrow> dl \<le> w_clock w)\<rparr>"

definition world_http :: "platform \<Rightarrow> world http_client" where
  "world_http p = \<lparr>hc_Do = (\<lambda>ctx req w. (pf_http p (w_calls w) req,
     (tick w)\<lparr>w_clock := w_clock w + int (pf_latency p (w_calls w))\<rparr>))\<rparr>"

section \<open>The objects of \<open>run\<close>\<close>

definition urlCache :: "platform \<Rightarrow> world URLCache" where
  "urlCache p = \<lparr>ch_Get = cache_Get (pf_uc p) (redis (pf_env p)), ch_Set = cache_Set (redis (pf_env p)),
     ch_Delete = cache_Delete (redis (pf_env p))\<rparr>"

definition rawCache :: "platform \<Rightarrow> world RawCache" where
  "rawCache p = \<lparr>rw_GetRaw = GetRaw (redis (pf_env p)), rw_SetRaw = SetRaw (redis (pf_env p))\<rparr>"

definition urlRepository :: "platform \<Rightarrow> world URLRepository" where
  "urlRepository p = (let db = mysql (pf_env p) in
     \<lparr>rp_Create = Create db, rp_UpdateHash = UpdateHash db, rp_UpdateVTResult = UpdateVTResult db,
      rp_FindByOriginalURL = FindByOriginalURL db\<rparr>)"

definition urlReader :: "platform \<Rightarrow> world URLReader" where
  "urlReader p = \<lparr>ur_FindByHash = FindByHash (mysql (pf_env p)),
     ur_UpdateLastAccessed = UpdateLastAccessed (mysql (pf_env p))\<rparr>"

text \<open>VirusTotal or the no-op scanner. The scans of the program have a deadline, under which they end.\<close>

definition total_scan :: "('s \<Rightarrow> ((scan_result \<times> goerr option) \<times> 's) option) \<Rightarrow> ('s, scan_result \<times> goerr option) call" where
  "total_scan f s = (case f s of Some r \<Rightarrow> r | None \<Rightarrow> ((zero_scan_result, None), s))"

definition vtScannerDirect :: "platform \<Rightarrow> config \<Rightarrow> world URLScanner" where
  "vtScannerDirect p cfg =
     (if cfg_VTEnabled cfg
      then (let v = NewVirusTotalScanner (cfg_VTAPIKey cfg) (world_http p) (cfg_VTMinPositives cfg)
            in \<lparr>sc_Scan = (\<lambda>ctx url. total_scan (VTScan (pf_uc p) w_clock world_timers v ctx url))\<rparr>)
      else \<lparr>sc_Scan = NoopScan w_clock\<rparr>)"

definition vtCacheTTL :: "config \<Rightarrow> duration" where
  "vtCacheTTL cfg = int64 (cfg_VTCacheTTLHours cfg * hour)"

definition cachedScanner :: "platform \<Rightarrow> config \<Rightarrow> world URLScanner" where
  "cachedScanner p cfg =
     \<lparr>sc_Scan = CachedScan (pf_uc p) (NewCachedScanner (vtScannerDirect p cfg) (rawCache p) (vtCacheTTL cfg))\<rparr>"

definition rescanInterval :: "config \<Rightarrow> duration" where
  "rescanInterval cfg = int64 (cfg_VTRescanIntervalHours cfg * hour)"

definition rescanner :: "platform \<Rightarrow> config \<Rightarrow> world Rescanner" where
  "rescanner p cfg = NewRescanner (vtScannerDirect p cfg)
     \<lparr>rq_FindByVTStatus = FindByVTStatus (mysql (pf_env p)), rq_UpdateVTResult = UpdateVTResult (mysql (pf_env p))\<rparr>
     (cache_Delete (redis (pf_env p))) (rescanInterval cfg)"

definition shortenerSvc :: "platform \<Rightarrow> config \<Rightarrow> world shortenerService" where
  "shortenerSvc p cfg = NewShortenerService (urlRepository p) (Some (urlCache p)) (cachedScanner p cfg)
     (cfg_BaseURL cfg) (cfg_URLExpirationDays cfg) (cfg_VTTimeout cfg)"

definition redirectorSvc :: "platform \<Rightarrow> config \<Rightarrow> world redirectorService" where
  "redirectorSvc p cfg = NewRedirectorService (urlReader p) (Some (urlCache p)) (cfg_RedisTTLDays cfg)"

definition analyticsSvc :: "platform \<Rightarrow> world analyticsService" where
  "analyticsSvc p = (let db = mysql (pf_env p) in NewAnalyticsService \<lparr>uf_FindByHash = FindByHash db\<rparr>
     \<lparr>cr_CountByURLID = CountByURLID db, cr_GroupByDay = GroupByDay db, cr_TopUserAgents = TopUserAgents db\<rparr>)"

definition reportSvc :: "platform \<Rightarrow> config \<Rightarrow> world reportService" where
  "reportSvc p cfg = (let db = mysql (pf_env p) in NewReportService
     \<lparr>ru_FindByHash = FindByHash db, ru_UpdateVTStatus = UpdateVTStatus db\<rparr>
     \<lparr>rr_Insert = Insert_report db, rr_CountDistinctIPsByURLID = CountDistinctIPsByURLID db\<rparr>
     \<lparr>rc_Delete = cache_Delete (redis (pf_env p))\<rparr> (cfg_ReportAutoBlockThreshold cfg))"

end
