(* ===== verification/WorldView.thy ===== *)
theory WorldView
  imports ScannerContracts Schema Wiring
begin

text \<open>
  The view that the contracts take of MySQL and Redis, and the steps that preserve it: which
  statements keep the rows' keys, and which Redis keys a command touches.
\<close>

section \<open>The view of the services' state\<close>

definition cached_entry :: "unicode_tables \<Rightarrow> world \<Rightarrow> string \<Rightarrow> (string \<times> string) option" where
  "cached_entry uc w h = (case live w (urlKeyPrefix @ h) of None \<Rightarrow> None
     | Some v \<Rightarrow> if v = [] then None else Some (read_entry uc v))"

definition cached_ident :: "world \<Rightarrow> string \<Rightarrow> u64" where
  "cached_ident w h = read_id (live w (metaKeyPrefix @ h))"

text \<open>Every readable result of the scanner's cache is a verdict.\<close>

definition vtKeyPrefix :: string where "vtKeyPrefix = ''snip:vt:''"

definition scan_cache_ok :: "unicode_tables \<Rightarrow> world \<Rightarrow> bool" where
  "scan_cache_ok uc w \<longleftrightarrow> (\<forall>k data r. live w (vtKeyPrefix @ k) = Some data \<longrightarrow>
     unmarshal_result uc data = Some r \<longrightarrow> is_verdict (sr_Status r))"

definition world_ok :: "platform \<Rightarrow> world \<Rightarrow> bool" where
  "world_ok p w \<longleftrightarrow> db_ok (pf_env p) w \<and> scan_cache_ok (pf_uc p) w"

definition world_view :: "platform \<Rightarrow> world store_view" where
  "world_view p = \<lparr>sv_ok = world_ok p, sv_rows = w_urls, sv_entry = cached_entry (pf_uc p),
     sv_ident = cached_ident\<rparr>"

lemma world_view_sel [simp]:
  "sv_ok (world_view p) = world_ok p" "sv_rows (world_view p) = w_urls"
  "sv_entry (world_view p) = cached_entry (pf_uc p)" "sv_ident (world_view p) = cached_ident"
  by (simp_all add: world_view_def)

text \<open>A hash selects the rows whose hash the collation takes for equal.\<close>

definition same_text :: "env \<Rightarrow> string \<Rightarrow> string \<Rightarrow> bool" where
  "same_text env a b \<longleftrightarrow> collate env a = collate env b"

lemma live_cong: "w_redis w' = w_redis w \<Longrightarrow> w_clock w' = w_clock w \<Longrightarrow> live w' = live w"
  by (rule ext) (auto simp: live_def split: option.splits)

lemma live_tick [simp]: "live (tick w) = live w"
  by (rule live_cong) simp_all

lemma read_id_None [simp]: "read_id None = 0"
  by (simp add: read_id_def)

text \<open>Steps that leave Redis alone, or only drop keys, or write other keys.\<close>

lemma keeps_world:
  assumes "world_ok p w \<Longrightarrow> world_ok p w'" "map row_key (w_urls w') = map row_key (w_urls w)"
    and "\<And>h. live w' (urlKeyPrefix @ h) \<in> {live w (urlKeyPrefix @ h), None}"
    and "\<And>h. live w' (metaKeyPrefix @ h) \<in> {live w (metaKeyPrefix @ h), None}"
  shows "keeps (world_view p) w w'"
  unfolding keeps_def
proof (intro conjI allI impI)
  fix h
  show "sv_entry (world_view p) w' h \<in> {sv_entry (world_view p) w h, None}"
    using assms(3) [of h] by (auto simp: cached_entry_def)
  show "sv_ident (world_view p) w' h \<in> {sv_ident (world_view p) w h, 0}"
    using assms(4) [of h] by (auto simp: cached_ident_def)
qed (use assms in simp_all)

lemma scan_cache_shrinks:
  "(\<And>k. live w' (vtKeyPrefix @ k) \<in> {live w (vtKeyPrefix @ k), None}) \<Longrightarrow> scan_cache_ok uc w \<Longrightarrow> scan_cache_ok uc w'"
  unfolding scan_cache_ok_def by (metis insertE option.distinct(1) singletonD)

lemma keeps_shrinks:
  assumes "db_ok (pf_env p) w \<Longrightarrow> db_ok (pf_env p) w'" "map row_key (w_urls w') = map row_key (w_urls w)"
    and l: "\<And>k. live w' k \<in> {live w k, None}"
  shows "keeps (world_view p) w w'"
proof (rule keeps_world)
  show "world_ok p w \<Longrightarrow> world_ok p w'"
    using assms(1) scan_cache_shrinks [OF l] by (simp add: world_ok_def)
qed (use assms in blast)+

lemma live_later:
  "w_redis w' = w_redis w \<Longrightarrow> w_clock w \<le> w_clock w' \<Longrightarrow> live w' k \<in> {live w k, None}"
  by (auto simp: live_def split: option.splits)

lemma db_ok_cong:
  "w_urls w' = w_urls w \<Longrightarrow> w_clicks w' = w_clicks w \<Longrightarrow> w_reports w' = w_reports w \<Longrightarrow>
   w_next_url w' = w_next_url w \<Longrightarrow> db_ok env w' = db_ok env w"
  by (simp add: db_ok_def urls_ok_def clicks_ok_def reports_ok_def has_url_def)

lemma keeps_frame:
  assumes "w_urls w' = w_urls w" "w_clicks w' = w_clicks w" "w_reports w' = w_reports w"
    "w_next_url w' = w_next_url w" "w_redis w' = w_redis w" "w_clock w \<le> w_clock w'"
  shows "keeps (world_view p) w w'"
proof (rule keeps_shrinks)
  show "db_ok (pf_env p) w \<Longrightarrow> db_ok (pf_env p) w'" using db_ok_cong [of w' w] assms by simp
  show "live w' k \<in> {live w k, None}" for k by (rule live_later [OF assms(5,6)])
qed (simp add: assms(1))

lemma keeps_tick: "keeps (world_view p) w (tick w)"
  by (rule keeps_frame) simp_all

lemma keeps_query: "keeps (world_view p) w (snd (mysql_query env sel w))"
  by (auto simp: mysql_query_def keeps_tick split: option.split nat.split)

text \<open>A statement that keeps the rows' keys; Redis and the clock are out of MySQL's reach.\<close>

lemma apply_stmt_redis [simp]:
  "w_redis (snd (apply_stmt env st w)) = w_redis w \<and> w_clock (snd (apply_stmt env st w)) = w_clock w"
  by (cases st) (auto simp: insert_url_def set_hash_def set_last_accessed_def set_vt_status_def set_vt_result_def
      insert_click_def delete_clicks_def insert_report_def Let_def split: option.splits)

lemma mysql_exec_redis:
  "w_redis (snd (mysql_exec env st w)) = w_redis w" "w_clock (snd (mysql_exec env st w)) = w_clock w"
  by (auto simp: mysql_exec_def split: option.split nat.split)

fun keeps_keys :: "stmt \<Rightarrow> bool" where
  "keeps_keys (InsertURL h orig e) = False"
| "keeps_keys (SetHash h i) = False"
| "keeps_keys st = True"

lemma update_url_keys: "(\<And>u. row_key (f u) = row_key u) \<Longrightarrow> map row_key (w_urls (update_url i f w)) = map row_key (w_urls w)"
  by (simp add: w_urls_update)

lemma apply_stmt_keys:
  "keeps_keys st \<Longrightarrow> map row_key (w_urls (snd (apply_stmt env st w))) = map row_key (w_urls w)"
  by (cases st) (auto simp: set_last_accessed_def set_vt_status_def set_vt_result_def
      insert_click_def delete_clicks_def insert_report_def Let_def row_key_def
      intro!: update_url_keys split: option.splits)

lemma live_exec: "live (snd (mysql_exec env st w)) = live w"
  by (rule live_cong) (rule mysql_exec_redis)+

lemma keeps_exec: "keeps_keys st \<Longrightarrow> keeps (world_view p) w (snd (mysql_exec (pf_env p) st w))"
proof (rule keeps_shrinks)
  assume k: "keeps_keys st"
  show "live (snd (mysql_exec (pf_env p) st w)) x \<in> {live w x, None}" for x by (simp add: live_exec)
  show "map row_key (w_urls (snd (mysql_exec (pf_env p) st w))) = map row_key (w_urls w)"
    using apply_stmt_keys [OF k, of "pf_env p" "tick w"]
    by (auto simp: mysql_exec_def split: option.split nat.split)
qed (rule mysql_exec_ok)

lemma keeps_exec_only:
  "keeps_keys st \<Longrightarrow> keeps (world_view p) w (snd (exec_only (mysql (pf_env p)) msg st w))"
  using keeps_exec [of st p w] by (auto simp: exec_only_def split: prod.splits sum.splits)

section \<open>Redis keys\<close>

lemma prefix_distinct [simp]:
  "urlKeyPrefix @ h \<noteq> metaKeyPrefix @ k" "metaKeyPrefix @ k \<noteq> urlKeyPrefix @ h"
  "urlKeyPrefix @ h \<noteq> vtKeyPrefix @ k" "metaKeyPrefix @ h \<noteq> vtKeyPrefix @ k"
  "vtKeyPrefix @ k \<noteq> urlKeyPrefix @ h" "vtKeyPrefix @ k \<noteq> metaKeyPrefix @ h"
  by (simp_all add: urlKeyPrefix_def metaKeyPrefix_def vtKeyPrefix_def)

lemma live_redis_set:
  "live (redis_set (k, v, ttl) w) x = (if x = k then Some v else live w x)"
  by (auto simp: live_def redis_set_def redis_expiry_def split: option.splits)

lemma live_redis_remove: "live (redis_remove ks w) x = (if x \<in> set ks then None else live w x)"
  by (auto simp: live_def redis_remove_def split: option.splits)

lemma redis_set_db [simp]:
  "w_urls (redis_set c w) = w_urls w" "w_clicks (redis_set c w) = w_clicks w"
  "w_reports (redis_set c w) = w_reports w" "w_next_url (redis_set c w) = w_next_url w"
  "w_clock (redis_set c w) = w_clock w" "w_calls (redis_set c w) = w_calls w"
  by (cases c; simp add: redis_set_def)+

lemma redis_remove_db [simp]:
  "w_urls (redis_remove ks w) = w_urls w" "w_clicks (redis_remove ks w) = w_clicks w"
  "w_reports (redis_remove ks w) = w_reports w" "w_next_url (redis_remove ks w) = w_next_url w"
  "w_clock (redis_remove ks w) = w_clock w" "w_calls (redis_remove ks w) = w_calls w"
  by (simp_all add: redis_remove_def)

lemma keeps_MGet: "keeps (world_view p) w (snd (redis_MGet env ks w))"
  by (auto simp: redis_MGet_def keeps_tick split: option.split)

lemma keeps_Get: "keeps (world_view p) w (snd (redis_Get env k w))"
  by (auto simp: redis_Get_def keeps_tick split: option.split)

lemma keeps_Del: "keeps (world_view p) w (snd (redis_Del env ks w))"
proof -
  have "keeps (world_view p) w (redis_remove ks (tick w))"
  proof (rule keeps_shrinks)
    show "db_ok (pf_env p) w \<Longrightarrow> db_ok (pf_env p) (redis_remove ks (tick w))"
      using db_ok_cong [of "redis_remove ks (tick w)" w "pf_env p"] by simp
  qed (simp_all add: live_redis_remove)
  then show ?thesis by (auto simp: redis_Del_def keeps_tick split: option.split nat.split)
qed

text \<open>Writing a verdict under a key of the scanner's cache.\<close>

lemma keeps_set_raw:
  assumes "\<And>r. unmarshal_result (pf_uc p) v = Some r \<Longrightarrow> is_verdict (sr_Status r)"
  shows "keeps (world_view p) w (snd (redis_Pipeline env [(vtKeyPrefix @ k, v, ttl)] w))"
proof -
  let ?w = "redis_set (vtKeyPrefix @ k, v, ttl) (tick w)"
  have "keeps (world_view p) w ?w"
  proof (rule keeps_world)
    show "live ?w (urlKeyPrefix @ h) \<in> {live w (urlKeyPrefix @ h), None}" for h
      using prefix_distinct(3) [of h k] by (simp only: live_redis_set if_False live_tick) simp
    show "live ?w (metaKeyPrefix @ h) \<in> {live w (metaKeyPrefix @ h), None}" for h
      using prefix_distinct(4) [of h k] by (simp only: live_redis_set if_False live_tick) simp
    have "db_ok (pf_env p) ?w = db_ok (pf_env p) w" by (rule db_ok_cong) (simp_all only: redis_set_db tick_sel)
    moreover have "scan_cache_ok (pf_uc p) w \<Longrightarrow> scan_cache_ok (pf_uc p) ?w"
      using assms by (auto simp: scan_cache_ok_def live_redis_set)
    ultimately show "world_ok p w \<Longrightarrow> world_ok p ?w" by (simp add: world_ok_def)
  qed simp
  then show ?thesis by (auto simp: redis_Pipeline_def keeps_tick take_Cons' split: option.split)
qed

end
