(* ===== verification/StoreLaws.thy ===== *)
theory StoreLaws
  imports WorldView
begin

text \<open>
  The repositories and the cache of the program fulfil the contracts: the interpretations of
  the contracts' locales on the objects that \<open>cmd/api/main.go\<close> wires together.
\<close>

section \<open>The repositories and the cache fulfil the contracts\<close>

lemma find_keeps_world: "keeps (world_view p) w (snd (FindByHash (mysql (pf_env p)) h w))"
proof -
  have "snd (FindByHash (mysql (pf_env p)) h w) = snd (mysql_query (pf_env p) (select_urls (pf_env p) (ByHash h)) w)"
    by (simp add: FindByHash_def split: prod.split)
  then show ?thesis by (simp add: keeps_query)
qed

lemma query_row:
  assumes "mysql_query env sel w = (Rows (r # rs) fin, w')" shows "r \<in> set (sel w)"
proof (cases "env_fault env (w_calls w)")
  case None
  with assms show ?thesis by (simp add: mysql_query_def)
next
  case (Some ne)
  obtain n e where ne: "ne = (n, e)" by (cases ne)
  show ?thesis
  proof (cases n)
    case 0 with assms Some ne show ?thesis by (simp add: mysql_query_def)
  next
    case (Suc k)
    with assms Some ne have "take k (sel w) = r # rs" by (simp add: mysql_query_def)
    then have "r \<in> set (take k (sel w))" by simp
    then show ?thesis by (rule in_set_takeD)
  qed
qed

lemma find_row_world:
  assumes "FindByHash (mysql env) h w = (Inr u, w')"
  shows "u \<in> set (w_urls w) \<and> same_text env (u_Hash u) h"
proof -
  obtain rs fin where "mysql_query env (select_urls env (ByHash h)) w = (Rows (u # rs) fin, w')"
    using assms by (auto simp: FindByHash_def find_one_ok split: prod.splits)
  from query_row [OF this] show ?thesis by (simp add: same_text_def)
qed

lemma row_texts_world:
  assumes "db_ok env w" "u \<in> set (w_urls w)"
  shows "utf8_valid (u_OriginalURL u) \<and> utf8_valid (u_VTStatus u)"
proof -
  have "u_VTStatus u \<in> set vt_status_enum" "utf8_valid (u_OriginalURL u)"
    using assms by (auto simp: db_ok_def urls_ok_def)
  moreover have "\<forall>s\<in>set vt_status_enum. is_ascii s" by (simp add: vt_status_enum_def)
  ultimately show ?thesis using utf8_valid_ascii by blast
qed

interpretation store: url_store "world_view p" "same_text (pf_env p)" "FindByHash (mysql (pf_env p))" for p
proof
  show "keeps (world_view p) w (snd (FindByHash (mysql (pf_env p)) h w))" for w h by (rule find_keeps_world)
  show "u \<in> set (sv_rows (world_view p) w) \<and> same_text (pf_env p) (u_Hash u) h"
    if "FindByHash (mysql (pf_env p)) h w = (Inr u, w')" for h w u w'
    using find_row_world [OF that] by simp
  show "same_text (pf_env p) h h" for h by (simp add: same_text_def)
  show "utf8_valid (u_OriginalURL u) \<and> utf8_valid (u_VTStatus u)"
    if "sv_ok (world_view p) w" "u \<in> set (sv_rows (world_view p) w)" for w u
    using row_texts_world [of "pf_env p" w u] that by (simp add: world_ok_def)
qed

text \<open>The cache on Redis.\<close>

lemma cache_Get_state: "snd (cache_Get uc c h s) = snd (rd_MGet c [urlKeyPrefix @ h, metaKeyPrefix @ h] s)"
  by (auto simp: cache_Get_def split: prod.splits sum.splits option.splits)

lemma cache_Get_hit:
  assumes "cache_Get uc (redis env) h w = (Inr (orig, st, i), w')"
  shows "cached_entry uc w h = Some (orig, st) \<and> cached_ident w h = i"
  using assms
  by (auto simp: cache_Get_def redis_MGet_def cached_entry_def cached_ident_def
      split: option.splits prod.splits if_splits)

definition entry_data :: "string \<Rightarrow> string \<Rightarrow> string" where
  "entry_data orig st = json_text (entry_json \<lparr>e_OriginalURL = orig, e_VTStatus = st\<rparr>)"

lemma entry_data_nonempty: "entry_data orig st \<noteq> []"
  by (simp add: entry_data_def entry_json_def)

text \<open>The pipeline has executed none, the first, or both of its commands.\<close>

lemma cache_Set_state:
  "\<exists>n\<le>2. snd (cache_Set (redis env) h orig st i ttl w) =
    fold redis_set (take n [(urlKeyPrefix @ h, entry_data orig st, ttl), (metaKeyPrefix @ h, dec_digits (unat i), ttl)]) (tick w)"
proof -
  have "snd (cache_Set (redis env) h orig st i ttl w) = snd (redis_Pipeline env
      [(urlKeyPrefix @ h, entry_data orig st, ttl), (metaKeyPrefix @ h, dec_digits (unat i), ttl)] w)"
    by (auto simp: cache_Set_def entry_data_def Let_def split: prod.splits sum.splits)
  also have "\<exists>n\<le>2. \<dots> = fold redis_set (take n [(urlKeyPrefix @ h, entry_data orig st, ttl), (metaKeyPrefix @ h, dec_digits (unat i), ttl)]) (tick w)"
  proof (cases "env_fault env (w_calls w)")
    case None
    then show ?thesis by (intro exI [of _ 2]) (simp add: redis_Pipeline_def)
  next
    case (Some ne)
    then show ?thesis by (intro exI [of _ "min 2 (fst ne)"]) (auto simp: redis_Pipeline_def min_def split: prod.splits)
  qed
  finally show ?thesis .
qed

lemma cache_Set_live:
  obtains "live (snd (cache_Set (redis env) h orig st i ttl w)) = live w"
  | "live (snd (cache_Set (redis env) h orig st i ttl w)) = (live w)(urlKeyPrefix @ h \<mapsto> entry_data orig st)"
  | "live (snd (cache_Set (redis env) h orig st i ttl w)) =
      (live w)(urlKeyPrefix @ h \<mapsto> entry_data orig st, metaKeyPrefix @ h \<mapsto> dec_digits (unat i))"
proof -
  obtain n where n: "n \<le> 2" "snd (cache_Set (redis env) h orig st i ttl w) =
    fold redis_set (take n [(urlKeyPrefix @ h, entry_data orig st, ttl), (metaKeyPrefix @ h, dec_digits (unat i), ttl)]) (tick w)"
    using cache_Set_state by blast
  have l: "live (redis_set (k, v, ttl) x) = (live x)(k \<mapsto> v)" for k v x
    by (rule ext) (simp add: live_redis_set)
  consider "n = 0" | "n = 1" | "n = 2" using n(1) by linarith
  then show thesis
  proof cases
    case 1 then show thesis using that(1) n(2) by simp
  next
    case 2 then show thesis using that(2) n(2) by (simp add: l)
  next
    case 3 then show thesis using that(3) n(2) by (simp add: l)
  qed
qed

lemma cache_Set_db [simp]:
  "w_urls (snd (cache_Set (redis env) h orig st i ttl w)) = w_urls w"
  "w_clicks (snd (cache_Set (redis env) h orig st i ttl w)) = w_clicks w"
  "w_reports (snd (cache_Set (redis env) h orig st i ttl w)) = w_reports w"
  "w_next_url (snd (cache_Set (redis env) h orig st i ttl w)) = w_next_url w"
  "w_clock (snd (cache_Set (redis env) h orig st i ttl w)) = w_clock w"
proof -
  have fold: "w_urls (fold redis_set cs x) = w_urls x \<and> w_clicks (fold redis_set cs x) = w_clicks x \<and>
    w_reports (fold redis_set cs x) = w_reports x \<and> w_next_url (fold redis_set cs x) = w_next_url x \<and>
    w_clock (fold redis_set cs x) = w_clock x" for cs x
    by (induction cs arbitrary: x) simp_all
  obtain n where n: "snd (cache_Set (redis env) h orig st i ttl w) =
    fold redis_set (take n [(urlKeyPrefix @ h, entry_data orig st, ttl), (metaKeyPrefix @ h, dec_digits (unat i), ttl)]) (tick w)"
    using cache_Set_state by blast
  show "w_urls (snd (cache_Set (redis env) h orig st i ttl w)) = w_urls w"
    "w_clicks (snd (cache_Set (redis env) h orig st i ttl w)) = w_clicks w"
    "w_reports (snd (cache_Set (redis env) h orig st i ttl w)) = w_reports w"
    "w_next_url (snd (cache_Set (redis env) h orig st i ttl w)) = w_next_url w"
    "w_clock (snd (cache_Set (redis env) h orig st i ttl w)) = w_clock w"
    unfolding n using fold by simp_all
qed

lemma cache_Set_ok:
  assumes "world_ok p w" shows "world_ok p (snd (cache_Set (redis env) h orig st i ttl w))"
proof -
  let ?w = "snd (cache_Set (redis env) h orig st i ttl w)"
  have "db_ok (pf_env p) ?w = db_ok (pf_env p) w" by (rule db_ok_cong) simp_all
  moreover have "live ?w (vtKeyPrefix @ k) = live w (vtKeyPrefix @ k)" for k
    by (rule cache_Set_live [of env h orig st i ttl w])
      (use prefix_distinct(5) [of k h] prefix_distinct(6) [of k h] in simp_all)
  ultimately show ?thesis using assms by (simp add: world_ok_def scan_cache_ok_def)
qed

lemma prefix_inject [simp]:
  "urlKeyPrefix @ h = urlKeyPrefix @ k \<longleftrightarrow> h = k" "metaKeyPrefix @ h = metaKeyPrefix @ k \<longleftrightarrow> h = k"
  by simp_all

lemma cache_Set_entry:
  assumes "utf8_valid orig" "utf8_valid st"
  shows "cached_entry uc (snd (cache_Set (redis env) h orig st i ttl w)) h \<in> {cached_entry uc w h, Some (orig, st)}"
  by (rule cache_Set_live [of env h orig st i ttl w])
    (use read_entry_marshal [OF assms, of uc] prefix_distinct(1) [of h h] entry_data_nonempty [of orig st] in
     \<open>auto simp: cached_entry_def entry_data_def\<close>)

lemma cache_Set_ident:
  "cached_ident (snd (cache_Set (redis env) h orig st i ttl w)) h \<in> {cached_ident w h, i}"
  by (rule cache_Set_live [of env h orig st i ttl w])
    (use prefix_distinct(2) [of h h] in \<open>auto simp: cached_ident_def read_id_format\<close>)

lemma cache_Set_other:
  assumes "k \<noteq> h"
  shows "cached_entry uc (snd (cache_Set (redis env) h orig st i ttl w)) k = cached_entry uc w k \<and>
    cached_ident (snd (cache_Set (redis env) h orig st i ttl w)) k = cached_ident w k"
  by (rule cache_Set_live [of env h orig st i ttl w])
    (use prefix_distinct(1) [of k h] prefix_distinct(2) [of k h] assms in
     \<open>auto simp: cached_entry_def cached_ident_def\<close>)

lemma cache_Delete_state: "snd (cache_Delete c h s) = snd (rd_Del c [urlKeyPrefix @ h, metaKeyPrefix @ h] s)"
  by (auto simp: cache_Delete_def split: prod.splits reply.splits)

lemma cache_Delete_gone:
  assumes "cache_Delete (redis env) h w = (Inr (), w')"
  shows "live w' (urlKeyPrefix @ h) = None \<and> live w' (metaKeyPrefix @ h) = None"
  using assms
  by (auto simp: cache_Delete_def redis_Del_def live_redis_remove split: option.splits prod.splits reply.splits nat.splits)

interpretation cache: url_cache "world_view p" "cache_Get (pf_uc p) (redis (pf_env p))"
  "cache_Set (redis (pf_env p))" "cache_Delete (redis (pf_env p))" for p
proof
  fix h k orig st i ttl w w'
  let ?w = "snd (cache_Set (redis (pf_env p)) h orig st i ttl w)"
  show "keeps (world_view p) w (snd (cache_Get (pf_uc p) (redis (pf_env p)) h w))"
    by (simp only: cache_Get_state redis_sel keeps_MGet)
  show "sv_entry (world_view p) w h = Some (orig, st) \<and> sv_ident (world_view p) w h = i"
    if "cache_Get (pf_uc p) (redis (pf_env p)) h w = (Inr (orig, st, i), w')"
    using cache_Get_hit [OF that] by simp
  show "sv_rows (world_view p) ?w = sv_rows (world_view p) w" by simp
  show "sv_ok (world_view p) ?w" if "sv_ok (world_view p) w"
    using that cache_Set_ok by simp
  show "sv_entry (world_view p) ?w k = sv_entry (world_view p) w k \<and>
    sv_ident (world_view p) ?w k = sv_ident (world_view p) w k" if "k \<noteq> h"
    using cache_Set_other [OF that] by simp
  show "sv_entry (world_view p) ?w h \<in> {sv_entry (world_view p) w h, Some (orig, st)}"
    if "utf8_valid orig" "utf8_valid st"
    using cache_Set_entry [OF that] by simp
  show "sv_ident (world_view p) ?w h \<in> {sv_ident (world_view p) w h, i}"
    using cache_Set_ident by simp
  show "keeps (world_view p) w (snd (cache_Delete (redis (pf_env p)) h w))"
    by (simp only: cache_Delete_state redis_sel keeps_Del)
  show "sv_entry (world_view p) w' h = None" if "cache_Delete (redis (pf_env p)) h w = (Inr (), w')"
    using cache_Delete_gone [OF that] by (simp add: cached_entry_def)
qed

interpretation resolver: redirector "world_view p" "same_text (pf_env p)" "FindByHash (mysql (pf_env p))"
  "cache_Get (pf_uc p) (redis (pf_env p))" "cache_Set (redis (pf_env p))" "cache_Delete (redis (pf_env p))" for p
  by unfold_locales

section \<open>Reports\<close>

lemma Insert_report_state:
  "snd (Insert_report (mysql env) r w) = snd (mysql_exec env (InsertReport (r_URLID r) (r_ReporterIP r) (r_Reason r)) w)"
  by (auto simp: Insert_report_def split: prod.split sum.split)

lemma CountDistinct_state: "\<exists>sel. snd (CountDistinctIPsByURLID (mysql env) i w) = snd (mysql_query env sel w :: int rows \<times> world)"
  by (rule exI [of _ "\<lambda>w. [select_count env (CountReporters i) w]"]) (simp add: CountDistinctIPsByURLID_def split: prod.split)

interpretation reports: reporter "world_view p" "FindByHash (mysql (pf_env p))" "UpdateVTStatus (mysql (pf_env p))"
  "Insert_report (mysql (pf_env p))" "CountDistinctIPsByURLID (mysql (pf_env p))" "cache_Delete (redis (pf_env p))" for p
proof
  fix h st i r w
  show "keeps (world_view p) w (snd (FindByHash (mysql (pf_env p)) h w))" by (rule find_keeps_world)
  show "keeps (world_view p) w (snd (UpdateVTStatus (mysql (pf_env p)) i st w))"
    by (simp add: UpdateVTStatus_def keeps_exec_only)
  show "keeps (world_view p) w (snd (Insert_report (mysql (pf_env p)) r w))"
    by (simp add: Insert_report_state keeps_exec)
  show "keeps (world_view p) w (snd (CountDistinctIPsByURLID (mysql (pf_env p)) i w))"
    using CountDistinct_state [of "pf_env p" i w] by (auto simp: keeps_query)
  show "keeps (world_view p) w (snd (cache_Delete (redis (pf_env p)) h w))"
    by (simp only: cache_Delete_state redis_sel keeps_Del)
qed

lemma reportSvc_service:
  "reportSvc p cfg = reports.service p (cfg_ReportAutoBlockThreshold cfg)"
  by (simp add: reportSvc_def NewReportService_def reports.service_def Let_def)

section \<open>Writing URLs\<close>

lemma exec_world_ok: "world_ok p w \<Longrightarrow> world_ok p (snd (mysql_exec (pf_env p) st w))"
  by (simp add: world_ok_def mysql_exec_ok scan_cache_ok_def live_exec)

lemma Create_state:
  "snd (Create (mysql env) u w) = snd (mysql_exec env (InsertURL (u_Hash u) (u_OriginalURL u) (u_ExpiresAt u)) w)"
  by (auto simp: Create_def split: prod.split sum.split)

text \<open>An insert leaves the table alone or appends one row; when it succeeds it has appended the row of the new id.\<close>

definition appended :: "world \<Rightarrow> string \<Rightarrow> string \<Rightarrow> world \<Rightarrow> url \<Rightarrow> bool" where
  "appended w h orig w' r \<longleftrightarrow> w_urls w' = w_urls w @ [r] \<and> u_Hash r = h \<and> u_OriginalURL r = orig"

lemma insert_url_cases:
  "w_urls (snd (insert_url env h orig e w)) = w_urls w \<and> isl (fst (insert_url env h orig e w)) \<or>
   fst (insert_url env h orig e w) = Inr (inserted (w_next_url w)) \<and>
   (\<exists>r. appended w h orig (snd (insert_url env h orig e w)) r \<and> u_ID r = of_nat (w_next_url w))"
  by (auto simp: insert_url_def appended_def Let_def split: option.split)

lemma exec_insert_rows:
  "w_urls (snd (mysql_exec env (InsertURL h orig e) w)) = w_urls w \<or>
   (\<exists>r. appended w h orig (snd (mysql_exec env (InsertURL h orig e) w)) r)"
proof -
  have "w_urls (snd (insert_url env h orig e (tick w))) = w_urls w \<or>
      (\<exists>r. appended w h orig (snd (insert_url env h orig e (tick w))) r)"
    using insert_url_cases [of env h orig e "tick w"] by (auto simp: appended_def)
  then show ?thesis
    by (auto simp: mysql_exec_def appended_def split: option.split nat.split)
qed

lemma exec_insert_done:
  assumes "mysql_exec env (InsertURL h orig e) w = (Inr res, w')"
  shows "\<exists>r. appended w h orig w' r \<and> res_LastInsertId res = Inr (int64 (int (w_next_url w))) \<and>
    u_ID r = of_nat (w_next_url w)"
proof -
  have "insert_url env h orig e (tick w) = (Inr res, w')"
    using assms by (auto simp: mysql_exec_def split: option.splits nat.splits)
  then show ?thesis
    using insert_url_cases [of env h orig e "tick w"] by (auto simp: appended_def inserted_def)
qed

lemma of_int_int64: "(of_int (int64 (int n)) :: u64) = of_nat n"
proof -
  have "(of_int (int64 (int n)) :: u64) = of_int (int n)"
    unfolding int64_def by (rule word_of_int_eq_iff [THEN iffD2]) (simp add: take_bit_signed_take_bit)
  then show ?thesis by simp
qed

lemma Create_done:
  assumes "Create (mysql env) u w = (Inr u', w')"
  shows "u' = u\<lparr>u_ID := u_ID u'\<rparr> \<and> (\<exists>r. appended w (u_Hash u) (u_OriginalURL u) w' r \<and> u_ID r = u_ID u')"
proof -
  obtain res i where res: "mysql_exec env (InsertURL (u_Hash u) (u_OriginalURL u) (u_ExpiresAt u)) w = (Inr res, w')"
    "res_LastInsertId res = Inr i" "u' = u\<lparr>u_ID := of_int i\<rparr>"
    using assms by (auto simp: Create_def split: prod.splits sum.splits)
  from exec_insert_done [OF res(1)] res(2) have "i = int64 (int (w_next_url w))"
    "\<exists>r. appended w (u_Hash u) (u_OriginalURL u) w' r \<and> u_ID r = of_nat (w_next_url w)" by auto
  then show ?thesis using res(3) by (auto simp: of_int_int64)
qed

text \<open>The hash update reaches the row of its id only.\<close>

lemma no_row_update:
  assumes "\<not> has_url i w" shows "map (\<lambda>u. if u_ID u = i then f u else u) (w_urls w) = w_urls w"
  by (rule map_idI) (use assms in \<open>auto simp: has_url_def\<close>)

lemma UpdateHash_rows:
  "w_urls (snd (UpdateHash (mysql env) i h w)) \<in>
    {w_urls w, map (\<lambda>u. if u_ID u = i then u\<lparr>u_Hash := h\<rparr> else u) (w_urls w)}"
proof -
  have "w_urls (snd (set_hash env h i (tick w))) \<in>
      {w_urls w, map (\<lambda>u. if u_ID u = i then u\<lparr>u_Hash := h\<rparr> else u) (w_urls w)}"
    by (auto simp: set_hash_def w_urls_update)
  moreover have "snd (UpdateHash (mysql env) i h w) = snd (mysql_exec env (SetHash h i) w)"
    by (auto simp: UpdateHash_def exec_only_def split: prod.split sum.split)
  ultimately show ?thesis by (auto simp: mysql_exec_def split: option.split nat.split)
qed

lemma UpdateHash_done:
  assumes "UpdateHash (mysql env) i h w = (Inr (), w')"
  shows "w_urls w' = map (\<lambda>u. if u_ID u = i then u\<lparr>u_Hash := h\<rparr> else u) (w_urls w)"
proof -
  obtain res where "mysql_exec env (SetHash h i) w = (Inr res, w')"
    using assms by (auto simp: UpdateHash_def exec_only_def split: prod.splits sum.splits)
  then have "set_hash env h i (tick w) = (Inr res, w')"
    by (auto simp: mysql_exec_def split: option.splits nat.splits)
  then show ?thesis
    using no_row_update [of i w] by (auto simp: set_hash_def w_urls_update has_url_def split: if_splits)
qed

lemma FindByOriginalURL_state:
  "snd (FindByOriginalURL (mysql env) orig w) = snd (mysql_query env (select_urls env (ByOriginalURL orig)) w)"
  by (simp add: FindByOriginalURL_def split: prod.split)

lemma FindByOriginalURL_row:
  assumes "FindByOriginalURL (mysql env) orig w = (Inr u, w')"
  shows "u \<in> set (w_urls w) \<and> same_text env (u_OriginalURL u) orig \<and> not_expired w u"
proof -
  obtain rs fin where "mysql_query env (select_urls env (ByOriginalURL orig)) w = (Rows (u # rs) fin, w')"
    using assms by (auto simp: FindByOriginalURL_def find_one_ok split: prod.splits)
  from query_row [OF this] show ?thesis by (auto simp: same_text_def dest!: in_set_takeD)
qed

lemma live_frame:
  assumes "live w' = live w"
  shows "cached_entry uc w' = cached_entry uc w" "cached_ident w' = cached_ident w"
  by (simp_all add: cached_entry_def cached_ident_def assms fun_eq_iff)

lemma exec_only_state: "snd (exec_only (mysql env) msg st w) = snd (mysql_exec env st w)"
  by (auto simp: exec_only_def split: prod.split sum.split)

interpretation writer: url_writer "world_view p" "Create (mysql (pf_env p))" "UpdateHash (mysql (pf_env p))"
  "UpdateVTResult (mysql (pf_env p))" "FindByOriginalURL (mysql (pf_env p))" for p
proof
  fix u u' h orig i r w w'
  let ?c = "snd (Create (mysql (pf_env p)) u w)"
  let ?h = "snd (UpdateHash (mysql (pf_env p)) i h w)"
  show "sv_ok (world_view p) ?c" if "sv_ok (world_view p) w"
    using that exec_world_ok by (simp add: Create_state)
  show "sv_entry (world_view p) ?c = sv_entry (world_view p) w"
    "sv_ident (world_view p) ?c = sv_ident (world_view p) w"
    by (simp_all add: Create_state live_frame [OF live_exec])
  show "sv_rows (world_view p) ?c = sv_rows (world_view p) w \<or>
    (\<exists>r. sv_rows (world_view p) ?c = sv_rows (world_view p) w @ [r] \<and> u_Hash r = u_Hash u \<and> u_OriginalURL r = u_OriginalURL u)"
    using exec_insert_rows [of "pf_env p" "u_Hash u" "u_OriginalURL u" "u_ExpiresAt u" w]
    by (simp add: Create_state appended_def)
  show "u' = u\<lparr>u_ID := u_ID u'\<rparr> \<and> (\<exists>r. sv_rows (world_view p) w' = sv_rows (world_view p) w @ [r] \<and>
      u_ID r = u_ID u' \<and> u_Hash r = u_Hash u \<and> u_OriginalURL r = u_OriginalURL u)"
    if "Create (mysql (pf_env p)) u w = (Inr u', w')"
    using Create_done [OF that] unfolding appended_def world_view_sel by blast
  show "sv_ok (world_view p) ?h" if "sv_ok (world_view p) w"
    using that exec_world_ok by (simp add: UpdateHash_def exec_only_state)
  show "sv_entry (world_view p) ?h = sv_entry (world_view p) w"
    "sv_ident (world_view p) ?h = sv_ident (world_view p) w"
    by (simp_all add: UpdateHash_def exec_only_state live_frame [OF live_exec])
  show "sv_rows (world_view p) ?h \<in> {sv_rows (world_view p) w,
      map (\<lambda>u. if u_ID u = i then u\<lparr>u_Hash := h\<rparr> else u) (sv_rows (world_view p) w)}"
    using UpdateHash_rows by simp
  show "sv_rows (world_view p) w' = map (\<lambda>u. if u_ID u = i then u\<lparr>u_Hash := h\<rparr> else u) (sv_rows (world_view p) w)"
    if "UpdateHash (mysql (pf_env p)) i h w = (Inr (), w')"
    using UpdateHash_done [OF that] by simp
  show "keeps (world_view p) w (snd (UpdateVTResult (mysql (pf_env p)) i r w))"
    by (simp add: UpdateVTResult_def keeps_exec_only)
  show "keeps (world_view p) w (snd (FindByOriginalURL (mysql (pf_env p)) orig w))"
    by (simp only: FindByOriginalURL_state keeps_query)
  show "u \<in> set (sv_rows (world_view p) w)" if "FindByOriginalURL (mysql (pf_env p)) orig w = (Inr u, w')"
    using FindByOriginalURL_row [OF that] by simp
qed

end
