(* ===== verification/ScannerLaws.thy ===== *)
theory ScannerLaws
  imports StoreLaws
begin

text \<open>
  The scanners and the shortener of the program fulfil their contracts: VirusTotal under the
  world's clock, timers and HTTP, the scanner that \<open>cmd/api/main.go\<close> picks, the caching
  scanner over Redis, the rescan cycle, and the shortener over all of them.
\<close>

section \<open>Time\<close>

lemma world_wait_keeps: "keeps (world_view p) w (snd (world_wait ctx d w))"
  by (rule keeps_frame) (auto simp: world_wait_def split: option.split)

lemma world_http_keeps: "keeps (world_view p) w (snd (hc_Do (world_http p) ctx req w))"
  by (rule keeps_frame) (simp_all add: world_http_def)

interpretation vt_time: vt_environment w_clock world_timers "world_http p" for p
proof
  fix ctx d w w' dl req
  show "w_clock w + d \<le> w_clock w'" if "tm_wait world_timers ctx d w = (True, w')"
    using that by (auto simp: world_timers_def world_wait_def split: option.splits if_splits)
  show "w_clock w < dl" if "0 < d" "tm_wait world_timers (Some dl) d w = (True, w')"
    using that by (auto simp: world_timers_def world_wait_def split: if_splits)
  show "w_clock w \<le> w_clock (snd (hc_Do (world_http p) ctx req w))" by (simp add: world_http_def)
qed

interpretation vt_keeps: vt_effects "keeps (world_view p)" world_timers "world_http p" for p
proof
  fix w w' w'' ctx d req
  show "keeps (world_view p) w w" by simp
  show "keeps (world_view p) w w''" if "keeps (world_view p) w w'" "keeps (world_view p) w' w''"
    by (rule keeps_trans [OF that])
  show "keeps (world_view p) w (snd (tm_wait world_timers ctx d w))"
    by (simp add: world_timers_def world_wait_keeps)
  show "keeps (world_view p) w (snd (hc_Do (world_http p) ctx req w))" by (rule world_http_keeps)
qed

section \<open>Scanners\<close>

text \<open>With a deadline a scan of VirusTotal returns, and what it returns is a verdict.\<close>

lemma vt_total:
  assumes "vt_client v = world_http p"
  shows "\<exists>r w'. total_scan (VTScan uc w_clock world_timers v (Some dl) url) w = ((r, None), w') \<and>
    VTScan uc w_clock world_timers v (Some dl) url w = Some ((r, None), w') \<and>
    verdict uc (vt_minPositives v) url r \<and> keeps (world_view p) w w'"
proof -
  obtain r e w' where y: "VTScan uc w_clock world_timers v (Some dl) url w = Some ((r, e), w')"
    using vt_time.VTScan_returns [OF assms] by (metis surj_pair)
  then have "verdict uc (vt_minPositives v) url r \<and> e = None" by (rule VTScan_verdict)
  moreover have "keeps (world_view p) w w'" using vt_keeps.eff_VTScan [OF assms y] by simp
  ultimately show ?thesis using y by (simp add: total_scan_def)
qed

lemma NewVirusTotalScanner_client [simp]: "vt_client (NewVirusTotalScanner k c n) = c"
  by (simp add: NewVirusTotalScanner_def newScanner_def)

lemma direct_scan:
  "keeps (world_view p) w (snd (sc_Scan (vtScannerDirect p cfg) (Some dl) url w)) \<and>
   scan_verdict (fst (fst (sc_Scan (vtScannerDirect p cfg) (Some dl) url w)))"
proof (cases "cfg_VTEnabled cfg")
  case True
  let ?v = "NewVirusTotalScanner (cfg_VTAPIKey cfg) (world_http p) (cfg_VTMinPositives cfg)"
  obtain r w' where r: "total_scan (VTScan (pf_uc p) w_clock world_timers ?v (Some dl) url) w = ((r, None), w')"
    "verdict (pf_uc p) (vt_minPositives ?v) url r" "keeps (world_view p) w w'"
    using vt_total [of ?v p "pf_uc p" dl url w] NewVirusTotalScanner_client by blast
  then show ?thesis using verdict_scan_verdict [OF r(2)] True by (simp add: vtScannerDirect_def Let_def)
next
  case False
  then show ?thesis using status_verdict [of ScanClean] by (simp add: vtScannerDirect_def NoopScan_def is_verdict_def)
qed

interpretation direct: url_scanner "world_view p" "sc_Scan (vtScannerDirect p cfg)" for p cfg
  by unfold_locales (use direct_scan in blast)+

lemma GetRaw_state: "snd (GetRaw (redis env) k w) = snd (redis_Get env k w)"
  by (auto simp: GetRaw_def split: prod.split reply.split)

lemma SetRaw_state: "snd (SetRaw (redis env) k v ttl w) = snd (redis_Pipeline env [(k, v, ttl)] w)"
  by (auto simp: SetRaw_def split: prod.split sum.split)

lemma GetRaw_live: "GetRaw (redis env) k w = (Inr data, w') \<Longrightarrow> live w k = Some data"
  by (auto simp: GetRaw_def redis_Get_def split: option.splits prod.splits)

lemma cacheKey_prefix: "cacheKey url = vtKeyPrefix @ EncodeToString (Sum256 url)"
  by (simp add: cacheKey_def vtKeyPrefix_def)

interpretation scan_cache: verdict_cache "world_view p" "sc_Scan (vtScannerDirect p cfg)" "pf_uc p"
  "GetRaw (redis (pf_env p))" "SetRaw (redis (pf_env p))" for p cfg
proof
  fix key url w data w' r ttl
  show "keeps (world_view p) w (snd (GetRaw (redis (pf_env p)) key w))" by (simp add: GetRaw_state keeps_Get)
  show "is_verdict (sr_Status r)" if "sv_ok (world_view p) w"
    "GetRaw (redis (pf_env p)) (cacheKey url) w = (Inr data, w')" "unmarshal_result (pf_uc p) data = Some r"
    using that(1,3) GetRaw_live [OF that(2)] by (simp add: world_ok_def scan_cache_ok_def cacheKey_prefix)
  show "keeps (world_view p) w (snd (SetRaw (redis (pf_env p)) (cacheKey url) data ttl w))"
    if r: "scan_verdict r" "marshal_result r = Some data"
  proof -
    have "unmarshal_result (pf_uc p) data = Some r"
      by (rule unmarshal_marshal_result) (use r in \<open>simp_all add: scan_verdict_def\<close>)
    with r(1) show ?thesis unfolding SetRaw_state cacheKey_prefix
      by (intro keeps_set_raw) (simp add: scan_verdict_def)
  qed
qed

lemma scanner_eta [simp]: "\<lparr>sc_Scan = sc_Scan x\<rparr> = x"
  by (cases x) simp

lemma cachedScanner_scan: "sc_Scan (cachedScanner p cfg) = CachedScan (pf_uc p) (scan_cache.cached p cfg (vtCacheTTL cfg))"
  by (simp add: cachedScanner_def NewCachedScanner_def scan_cache.cached_def rawCache_def)

lemma find_status_keeps: "keeps (world_view p) w (snd (FindByVTStatus (mysql (pf_env p)) st w))"
proof -
  have "snd (FindByVTStatus (mysql (pf_env p)) st w) = snd (mysql_query (pf_env p) (select_urls (pf_env p) (ByVTStatus st)) w)"
    by (simp add: FindByVTStatus_def split: prod.split)
  then show ?thesis by (simp only: keeps_query)
qed

interpretation rescan: rescan_cycle "world_view p" "sc_Scan (vtScannerDirect p cfg)" world_timers
  "FindByVTStatus (mysql (pf_env p))" "UpdateVTResult (mysql (pf_env p))" "cache_Delete (redis (pf_env p))" for p cfg
proof
  fix ctx d w st i r h
  show "keeps (world_view p) w (snd (tm_wait world_timers ctx d w))" by (rule vt_keeps.eff_wait)
  show "keeps (world_view p) w (snd (FindByVTStatus (mysql (pf_env p)) st w))" by (rule find_status_keeps)
  show "keeps (world_view p) w (snd (UpdateVTResult (mysql (pf_env p)) i r w))" by (rule writer.result_keeps)
  show "keeps (world_view p) w (snd (cache_Delete (redis (pf_env p)) h w))" by (rule cache.del_keeps)
qed

lemma rescanner_rescans: "rescan.rescans p cfg (rescanner p cfg)"
  by (simp add: rescan.rescans_def rescanner_def NewRescanner_def)

section \<open>The shortener\<close>

interpretation shortening: shortener "world_view p" "same_text (pf_env p)" "Create (mysql (pf_env p))"
  "UpdateHash (mysql (pf_env p))" "UpdateVTResult (mysql (pf_env p))" "FindByOriginalURL (mysql (pf_env p))"
  "cache_Get (pf_uc p) (redis (pf_env p))" "cache_Set (redis (pf_env p))" "cache_Delete (redis (pf_env p))"
  "sc_Scan (cachedScanner p cfg)" for p cfg
proof
  fix dl url w w' h i u orig
  show "keeps (world_view p) w (snd (sc_Scan (cachedScanner p cfg) (Some dl) url w))"
    unfolding cachedScanner_scan by (rule scan_cache.CachedScan_keeps)
  show "is_verdict (sr_Status (fst (fst (sc_Scan (cachedScanner p cfg) (Some dl) url w))))"
    if "sv_ok (world_view p) w" unfolding cachedScanner_scan by (rule scan_cache.CachedScan_verdict [OF that])
  show "same_text (pf_env p) h h" by (simp add: same_text_def)
  show "\<not> same_text (pf_env p) [] (Encode i)" by (simp add: same_text_def Encode_nonempty)
  show "same_text (pf_env p) (u_OriginalURL u) orig" if "FindByOriginalURL (mysql (pf_env p)) orig w = (Inr u, w')"
    using FindByOriginalURL_row [OF that] by simp
  show "utf8_valid (u_OriginalURL u)" if "sv_ok (world_view p) w" "u \<in> set (sv_rows (world_view p) w)"
    using store.row_texts [OF that] by simp
qed

lemma shortenerSvc_wired: "shortening.wired p cfg (shortenerSvc p cfg)"
  unfolding shortening.wired_def by (simp add: shortenerSvc_def NewShortenerService_def urlRepository_def urlCache_def Let_def)

lemma redirectorSvc_wired: "resolver.wired p (redirectorSvc p cfg)"
  by (simp add: resolver.wired_def redirectorSvc_def NewRedirectorService_def urlReader_def urlCache_def)

end
