(* ===== verification/System.thy ===== *)
theory System
  imports ScannerLaws
begin

text \<open>
  The running service: the requests and background jobs of \<open>cmd/api/main.go\<close> as steps on the
  state of MySQL and Redis, in any order and under any faults, and the invariant of every
  state they reach. A step is one request or job; the clock may advance between them.
\<close>

section \<open>Steps\<close>

abbreviation shorten_step :: "platform \<Rightarrow> config \<Rightarrow> ctx \<Rightarrow> string \<Rightarrow> (world, shorten_result) call" where
  "shorten_step p cfg \<equiv> Shorten (pf_lib p) w_clock (shortenerSvc p cfg)"

abbreviation resolve_step :: "platform \<Rightarrow> config \<Rightarrow> string \<Rightarrow> (world, resolve_result) call" where
  "resolve_step p cfg \<equiv> Resolve w_clock (redirectorSvc p cfg)"

inductive sys_step :: "platform \<Rightarrow> config \<Rightarrow> world \<Rightarrow> world \<Rightarrow> bool" for p :: platform and cfg :: config where
  shorten: "sys_step p cfg w (snd (shorten_step p cfg ctx url w))"
| resolve: "h \<noteq> [] \<Longrightarrow> sys_step p cfg w (snd (resolve_step p cfg h w))"
| report: "sys_step p cfg w (snd (Report (reportSvc p cfg) h ip reason w))"
| get_stats: "sys_step p cfg w (snd (GetStats (analyticsSvc p) h w))"
| rescan: "sys_step p cfg w (RunCycle world_timers (rescanner p cfg) (Some dl) w)"
| click: "sys_step p cfg w (snd (Insert_click (mysql (pf_env p)) c w))"
| accessed: "sys_step p cfg w (snd (UpdateLastAccessed (mysql (pf_env p)) i w))"
| cleanup: "sys_step p cfg w (snd (DeleteOlderThan (mysql (pf_env p)) days w))"
| evict: "sys_step p cfg w (snd (cache_Delete (redis (pf_env p)) h w))"
| ping: "sys_step p cfg w (tick w)"
| later: "w_clock w \<le> t \<Longrightarrow> sys_step p cfg w (w\<lparr>w_clock := t\<rparr>)"

inductive reachable :: "platform \<Rightarrow> config \<Rightarrow> world \<Rightarrow> bool" for p :: platform and cfg :: config where
  start: "reachable p cfg (empty_world t)"
| step: "reachable p cfg w \<Longrightarrow> sys_step p cfg w w' \<Longrightarrow> reachable p cfg w'"

inductive_cases sys_stepE: "sys_step p cfg w w'"

section \<open>The invariant\<close>

definition sys_ok :: "platform \<Rightarrow> config \<Rightarrow> world \<Rightarrow> bool" where
  "sys_ok p cfg = system_ok (world_view p) (same_text (pf_env p)) (pf_lib p) (cfg_BaseURL cfg)"

text \<open>Spelled out: the schema's constraints, verdicts in the scan cache, valid rows with the hash of
  their id, and a redirect cache that agrees with the rows.\<close>

lemma sys_ok_iff:
  "sys_ok p cfg w \<longleftrightarrow> db_ok (pf_env p) w \<and> scan_cache_ok (pf_uc p) w \<and>
     (\<forall>u\<in>set (w_urls w). ValidateURL (pf_uc p) (lib_idna (pf_lib p)) (u_OriginalURL u) (cfg_BaseURL cfg) = Inr () \<and>
        u_Hash u \<in> {[], Encode (u_ID u)}) \<and>
     (\<forall>h orig st. cached_entry (pf_uc p) w h = Some (orig, st) \<longrightarrow> h \<noteq> [] \<and>
        (\<exists>u\<in>set (w_urls w). same_text (pf_env p) (u_Hash u) h \<and> u_OriginalURL u = orig)) \<and>
     (\<forall>h. cached_ident w h \<noteq> 0 \<longrightarrow> h \<noteq> [] \<and>
        (\<exists>u\<in>set (w_urls w). same_text (pf_env p) (u_Hash u) h \<and> u_ID u = cached_ident w h))"
  by (auto simp: sys_ok_def system_ok_def coherent_def rows_good_def row_good_def world_ok_def same_text_def)

lemma keeps_sys_ok: "keeps (world_view p) w w' \<Longrightarrow> sys_ok p cfg w \<Longrightarrow> sys_ok p cfg w'"
  unfolding sys_ok_def by (rule keeps_system_ok)

lemma sys_ok_empty: "sys_ok p cfg (empty_world t)"
  by (simp add: sys_ok_iff empty_world_def db_ok_def urls_ok_def clicks_ok_def reports_ok_def
      scan_cache_ok_def cached_entry_def cached_ident_def live_def)

lemma shortener_baseURL [simp]: "sh_baseURL (shortenerSvc p cfg) = cfg_BaseURL cfg"
  by (simp add: shortenerSvc_def NewShortenerService_def)

lemma shorten_sys_ok:
  "sys_ok p cfg w \<Longrightarrow> sys_ok p cfg (snd (shorten_step p cfg ctx url w))"
  unfolding sys_ok_def
  using shortening.Shorten_ok [OF shortenerSvc_wired, of p "pf_lib p" cfg w w_clock ctx url] by simp

lemma resolve_sys_ok:
  "h \<noteq> [] \<Longrightarrow> sys_ok p cfg w \<Longrightarrow> sys_ok p cfg (snd (resolve_step p cfg h w))"
  unfolding sys_ok_def
  by (rule resolver.Resolve_system_ok [OF redirectorSvc_wired]) (simp_all add: same_text_def)

lemma reader_keeps:
  "keeps (world_view p) w (snd (FindByHash (mysql (pf_env p)) h w))"
  "keeps (world_view p) w (snd (CountByURLID (mysql (pf_env p)) i w))"
  "keeps (world_view p) w (snd (GroupByDay (mysql (pf_env p)) i d w))"
  "keeps (world_view p) w (snd (TopUserAgents (mysql (pf_env p)) i d w))"
proof -
  show "keeps (world_view p) w (snd (FindByHash (mysql (pf_env p)) h w))" by (rule store.find_keeps)
  show "keeps (world_view p) w (snd (CountByURLID (mysql (pf_env p)) i w))"
    using keeps_query [of p w "pf_env p" "\<lambda>w. [select_count (pf_env p) (CountClicks i) w]"]
    by (auto simp: CountByURLID_def split: prod.split)
  show "keeps (world_view p) w (snd (GroupByDay (mysql (pf_env p)) i d w))"
    using keeps_query [of p w "pf_env p" "select_days i d"] by (auto simp: GroupByDay_def split: prod.split)
  show "keeps (world_view p) w (snd (TopUserAgents (mysql (pf_env p)) i d w))"
    using keeps_query [of p w "pf_env p" "select_agents (pf_env p) i d"] by (auto simp: TopUserAgents_def split: prod.split)
qed

lemma stats_keeps: "keeps (world_view p) w (snd (GetStats (analyticsSvc p) h w))"
proof -
  let ?db = "mysql (pf_env p)"
  note find = reader_keeps(1) [of p] and count = reader_keeps(2) [of p]
    and days = reader_keeps(3) [of p] and agents = reader_keeps(4) [of p]
  obtain r1 w1 r2 w2 r3 w3 r4 w4 where
    1: "FindByHash ?db h w = (r1, w1)" and 2: "CountByURLID ?db (u_ID (projr r1)) w1 = (r2, w2)" and
    3: "GroupByDay ?db (u_ID (projr r1)) 30 w2 = (r3, w3)" and 4: "TopUserAgents ?db (u_ID (projr r1)) 5 w3 = (r4, w4)"
    by (metis surj_pair)
  have k1: "keeps (world_view p) w w1" using find [of w h] by (simp add: 1)
  have k2: "keeps (world_view p) w w2" using keeps_trans [OF k1] count [of w1 "u_ID (projr r1)"] by (simp add: 2)
  have k3: "keeps (world_view p) w w3" using keeps_trans [OF k2] days [of w2 "u_ID (projr r1)" 30] by (simp add: 3)
  have k4: "keeps (world_view p) w w4" using keeps_trans [OF k3] agents [of w3 "u_ID (projr r1)" 5] by (simp add: 4)
  have "snd (GetStats (analyticsSvc p) h w) \<in> {w1, w2, w3, w4}"
    using 1 2 3 4 by (auto simp: GetStats_def analyticsSvc_def NewAnalyticsService_def Let_def split: sum.splits)
  with k1 k2 k3 k4 show ?thesis by blast
qed

lemma exec_state_keeps:
  "snd (Insert_click (mysql env) c w) =
    snd (mysql_exec env (InsertClick (c_URLID c) (c_AccessedAt c) (c_UserAgent c) (c_IP c)) w)"
  "snd (DeleteOlderThan (mysql env) d w) = snd (mysql_exec env (DeleteClicks d) w)"
  "snd (UpdateLastAccessed (mysql env) i w) = snd (mysql_exec env (SetLastAccessed i) w)"
  by (auto simp: Insert_click_def DeleteOlderThan_def UpdateLastAccessed_def exec_only_state split: prod.split sum.split)

text \<open>Every step keeps the invariant: the services by their contracts, the rest changes no key of a row.\<close>

lemma step_sys_ok: "sys_step p cfg w w' \<Longrightarrow> sys_ok p cfg w \<Longrightarrow> sys_ok p cfg w'"
proof (induction rule: sys_step.induct)
  case (report w h ip reason)
  then show ?case unfolding reportSvc_service using keeps_sys_ok [OF reports.Report_keeps] by blast
next
  case (rescan w dl)
  then show ?case using keeps_sys_ok [OF rescan.RunCycle_keeps [OF rescanner_rescans]] by blast
next
  case (later w t)
  have "keeps (world_view p) w (w\<lparr>w_clock := t\<rparr>)" by (rule keeps_frame) (use later in simp_all)
  with later show ?case using keeps_sys_ok by blast
qed (auto simp: shorten_sys_ok resolve_sys_ok exec_state_keeps cache_Delete_state
    intro: keeps_sys_ok [OF stats_keeps] keeps_sys_ok [OF keeps_exec] keeps_sys_ok [OF keeps_Del] keeps_sys_ok [OF keeps_tick])

lemma reachable_sys_ok: "reachable p cfg w \<Longrightarrow> sys_ok p cfg w"
  by (induction rule: reachable.induct) (auto simp: sys_ok_empty step_sys_ok)

end
