(* ===== verification/FaultFree.thy ===== *)
theory FaultFree
  imports System
begin

text \<open>
  The services when MySQL and Redis answer every call: the calls as plain functions on the
  state, what shortening does to it, and what the redirector finds afterwards.
\<close>

section \<open>Calls without faults\<close>

definition no_faults :: "env \<Rightarrow> bool" where
  "no_faults env \<longleftrightarrow> (\<forall>n. env_fault env n = None)"

named_theorems calls \<open>calls under an environment without faults\<close>

lemma exec_calls [calls]:
  assumes "no_faults env"
  shows "mysql_exec env st w = apply_stmt env st (tick w)"
    and "mysql_query env sel w = (Rows (sel w) EndOfRows, tick w)"
    and "redis_MGet env ks w = (Inr (map (live w) ks), tick w)"
    and "redis_Pipeline env cs w = (Inr (), fold redis_set cs (tick w))"
    and "redis_Del env ks w = (Reply (length (filter (\<lambda>k. live w k \<noteq> None) (remdups ks))), redis_remove ks (tick w))"
    and "redis_Get env k w = (case live w k of None \<Rightarrow> RedisNil | Some v \<Rightarrow> Reply v, tick w)"
  using assms
  by (simp_all add: no_faults_def mysql_exec_def mysql_query_def redis_MGet_def redis_Pipeline_def
      redis_Del_def redis_Get_def)

lemma find_one_rows [simp]:
  "find_one msg (Rows [] EndOfRows) = Inl (Sentinel ErrURLNotFound)"
  "find_one msg (Rows (u # us) fin) = Inr u"
  by (simp_all add: find_one_def)

lemma find_hash_calls [calls]:
  assumes "no_faults env"
  shows "FindByHash (mysql env) h w =
    (case select_urls env (ByHash h) w of [] \<Rightarrow> Inl (Sentinel ErrURLNotFound) | u # us \<Rightarrow> Inr u, tick w)"
  using exec_calls(2) [OF assms, of "select_urls env (ByHash h)" w]
  by (simp add: FindByHash_def split: list.split)

lemma find_original_calls [calls]:
  assumes "no_faults env"
  shows "FindByOriginalURL (mysql env) orig w =
    (case select_urls env (ByOriginalURL orig) w of [] \<Rightarrow> Inl (Sentinel ErrURLNotFound) | u # us \<Rightarrow> Inr u, tick w)"
  using exec_calls(2) [OF assms, of "select_urls env (ByOriginalURL orig)" w]
  by (simp add: FindByOriginalURL_def split: list.split)

lemma cache_Get_calls [calls]:
  assumes "no_faults env"
  shows "cache_Get uc (redis env) h w =
    (case cached_entry uc w h of None \<Rightarrow> Inl (Sentinel ErrURLNotFound)
     | Some (orig, st) \<Rightarrow> Inr (orig, st, cached_ident w h), tick w)"
  by (simp add: cache_Get_def exec_calls [OF assms] cached_entry_def cached_ident_def split: option.split prod.split)

lemma cache_Set_calls [calls]:
  assumes "no_faults env"
  shows "cache_Set (redis env) h orig st i ttl w = (Inr (),
    redis_set (metaKeyPrefix @ h, dec_digits (unat i), ttl) (redis_set (urlKeyPrefix @ h, entry_data orig st, ttl) (tick w)))"
  by (simp add: cache_Set_def exec_calls [OF assms] entry_data_def)

lemma cache_Delete_calls [calls]:
  assumes "no_faults env"
  shows "cache_Delete (redis env) h w = (Inr (), redis_remove [urlKeyPrefix @ h, metaKeyPrefix @ h] (tick w))"
  by (simp add: cache_Delete_def exec_calls [OF assms])

text \<open>After a write the cache holds what was written.\<close>

lemma cache_after_set:
  assumes "no_faults env" "utf8_valid orig" "utf8_valid st"
  shows "cached_entry uc (snd (cache_Set (redis env) h orig st i ttl w)) h = Some (orig, st)"
    and "cached_ident (snd (cache_Set (redis env) h orig st i ttl w)) h = i"
  using read_entry_marshal [OF assms(2,3), of uc] prefix_distinct(1) [of h h] entry_data_nonempty [of orig st]
  by (simp_all add: cache_Set_calls [OF assms(1)] cached_entry_def cached_ident_def live_redis_set
      entry_data_def read_id_format)

section \<open>Redirecting\<close>

lemma redirectorSvc_sel [simp]:
  "rs_cache (redirectorSvc p cfg) = Some (urlCache p)" "rs_repo (redirectorSvc p cfg) = urlReader p"
  "rs_cacheTTL (redirectorSvc p cfg) = days_duration (cfg_RedisTTLDays cfg)"
  by (simp_all add: redirectorSvc_def NewRedirectorService_def)

lemma urlCache_sel [simp]:
  "ch_Get (urlCache p) = cache_Get (pf_uc p) (redis (pf_env p))" "ch_Set (urlCache p) = cache_Set (redis (pf_env p))"
  "ch_Delete (urlCache p) = cache_Delete (redis (pf_env p))"
  by (simp_all add: urlCache_def)

lemma urlReader_sel [simp]: "ur_FindByHash (urlReader p) = FindByHash (mysql (pf_env p))"
  by (simp add: urlReader_def)

lemma resolve_hit:
  assumes "no_faults (pf_env p)" "cached_entry (pf_uc p) w h = Some (orig, st)" "st \<noteq> ScanMalicious"
  shows "resolve_step p cfg h w =
    ((Some (zero_url\<lparr>u_Hash := h, u_OriginalURL := orig, u_ID := cached_ident w h, u_VTStatus := st\<rparr>), None), tick w)"
  using assms by (simp add: Resolve_def cache_Get_calls)

lemma resolve_blocked_hit:
  assumes "no_faults (pf_env p)" "cached_entry (pf_uc p) w h = Some (orig, ScanMalicious)"
  shows "fst (resolve_step p cfg h w) =
    (Some (zero_url\<lparr>u_Hash := h, u_VTStatus := ScanMalicious\<rparr>), Some (Sentinel ErrURLMalicious))"
  using assms by (simp add: Resolve_def cache_Get_calls)

section \<open>Shortening\<close>

lemma shortenerSvc_sel [simp]:
  "sh_repo (shortenerSvc p cfg) = urlRepository p" "sh_cache (shortenerSvc p cfg) = Some (urlCache p)"
  "sh_scan (shortenerSvc p cfg) = cachedScanner p cfg"
  "sh_urlExpirationDays (shortenerSvc p cfg) = cfg_URLExpirationDays cfg"
  "sh_vtTimeout (shortenerSvc p cfg) = cfg_VTTimeout cfg"
  by (simp_all add: shortenerSvc_def NewShortenerService_def)

lemma urlRepository_sel [simp]:
  "rp_Create (urlRepository p) = Create (mysql (pf_env p))" "rp_UpdateHash (urlRepository p) = UpdateHash (mysql (pf_env p))"
  "rp_UpdateVTResult (urlRepository p) = UpdateVTResult (mysql (pf_env p))"
  "rp_FindByOriginalURL (urlRepository p) = FindByOriginalURL (mysql (pf_env p))"
  by (simp_all add: urlRepository_def Let_def)

lemma finish_result:
  assumes "shorten_finish (shortenerSvc p cfg) n r u0 w = ((Some u, r', None), w')"
  shows "u = u0\<lparr>u_Hash := Encode (u_ID u0), u_VTStatus := sr_Status r\<rparr> \<and> r' = r \<and>
    (\<exists>w3. w' = snd (cache_Set (redis (pf_env p)) (Encode (u_ID u0)) n (sr_Status r) (u_ID u0)
       (days_duration (cfg_URLExpirationDays cfg)) w3))"
  using assms by (auto simp: shorten_finish_def Let_def shorten_err_def split: prod.splits sum.splits)

text \<open>What \<open>shorten_new\<close> has done when it succeeds.\<close>

lemma shorten_new_result:
  assumes ok: "sys_ok p cfg w" and s: "shorten_new w_clock (shortenerSvc p cfg) ctx n w = ((Some u, r, None), w')"
  obtains u0 w2 where "shorten_finish (shortenerSvc p cfg) n r u0 w2 = ((Some u, r, None), w')"
    "u_OriginalURL u0 = n" "is_verdict (sr_Status r)" "sr_Status r \<noteq> ScanMalicious" "utf8_valid n"
proof -
  obtain dl where dl: "WithTimeout ctx (w_clock w) (cfg_VTTimeout cfg) = Some dl" by (simp add: WithTimeout_def)
  obtain q e w1 where sc: "sc_Scan (cachedScanner p cfg) (Some dl) n w = ((q, e), w1)" by (metis surj_pair)
  let ?u = "zero_url\<lparr>u_OriginalURL := n, u_ExpiresAt := Some (AddDate_days (w_clock w1) (cfg_URLExpirationDays cfg))\<rparr>"
  obtain c w2 where c: "Create (mysql (pf_env p)) ?u w1 = (c, w2)" by (metis surj_pair)
  have m: "sr_Status q \<noteq> ScanMalicious" using s by (auto simp: shorten_new_def dl sc shorten_err_def)
  then obtain u0 where u0: "c = Inr u0" using s by (cases c) (auto simp: shorten_new_def dl sc c shorten_err_def)
  then have f: "shorten_finish (shortenerSvc p cfg) n q u0 w2 = ((Some u, r, None), w')"
    using s m by (simp add: shorten_new_def dl sc c)
  have "world_ok p w" using ok by (simp add: sys_ok_def system_ok_def)
  then have v: "is_verdict (sr_Status q)" using shortening.scan_status [of p w cfg dl n] sc by simp
  have "keeps (world_view p) w w1" using shortening.scan_keeps [of p w cfg dl n] sc by simp
  then have "world_ok p w1" using ok by (simp add: sys_ok_def system_ok_def keeps_def)
  then have "world_ok p w2" using writer.create_ok [of p w1 ?u] c by simp
  moreover have fin: "u0 = ?u\<lparr>u_ID := u_ID u0\<rparr>" "\<exists>row. appended w1 (u_Hash ?u) (u_OriginalURL ?u) w2 row"
    using Create_done [of "pf_env p" ?u w1 u0 w2] c u0 by blast+
  moreover obtain row where "appended w1 (u_Hash ?u) (u_OriginalURL ?u) w2 row" using fin(2) by blast
  then have "row \<in> set (w_urls w2)" "u_OriginalURL row = n" by (simp_all add: appended_def)
  ultimately have utf8: "utf8_valid n" using row_texts_world [of "pf_env p" w2 row] by (auto simp: world_ok_def)
  have "u_OriginalURL u0 = n" by (subst fin(1)) simp
  moreover have "q = r" using finish_result [OF f] by simp
  ultimately show thesis using that f v m utf8 by blast
qed

text \<open>A successful \<open>Shorten\<close> has found a row, or has added one.\<close>

lemma Shorten_result:
  assumes "shorten_step p cfg ctx url w = ((Some u, r, None), w')"
  obtains (found) n where "NormalizeURL (pf_uc p) url = Inr n" "FindByOriginalURL (mysql (pf_env p)) n w = (Inr u, w')"
  | (new) n w1 where "NormalizeURL (pf_uc p) url = Inr n"
      "ValidateURL (pf_uc p) (lib_idna (pf_lib p)) n (cfg_BaseURL cfg) = Inr ()"
      "snd (FindByOriginalURL (mysql (pf_env p)) n w) = w1"
      "shorten_new w_clock (shortenerSvc p cfg) ctx n w1 = ((Some u, r, None), w')"
proof -
  obtain n where n: "NormalizeURL (pf_uc p) url = Inr n"
    using assms by (cases "NormalizeURL (pf_uc p) url") (auto simp: Shorten_def shorten_err_def)
  have v: "ValidateURL (pf_uc p) (lib_idna (pf_lib p)) n (cfg_BaseURL cfg) = Inr ()"
    using assms n by (cases "ValidateURL (pf_uc p) (lib_idna (pf_lib p)) n (cfg_BaseURL cfg)")
      (auto simp: Shorten_def shorten_err_def)
  obtain q w1 where q: "FindByOriginalURL (mysql (pf_env p)) n w = (q, w1)" by (metis surj_pair)
  show thesis
  proof (cases q)
    case (Inl e)
    then have "shorten_new w_clock (shortenerSvc p cfg) ctx n w1 = ((Some u, r, None), w')"
      using assms n v q by (auto simp: Shorten_def shorten_err_def split: if_splits)
    with n v q show thesis by (intro new) simp_all
  next
    case (Inr u')
    with assms n v q show thesis by (intro found) (simp_all add: Shorten_def)
  qed
qed

lemma Shorten_then_cached:
  assumes nf: "no_faults (pf_env p)" and ok: "sys_ok p cfg w"
    and s: "shorten_step p cfg ctx url w = ((Some u, r, None), w')"
    and new: "length (w_urls w') \<noteq> length (w_urls w)"
  shows "cached_entry (pf_uc p) w' (u_Hash u) = Some (u_OriginalURL u, sr_Status r) \<and>
    cached_ident w' (u_Hash u) = u_ID u \<and> sr_Status r \<noteq> ScanMalicious \<and> u_Hash u = Encode (u_ID u) \<and>
    Inr (u_OriginalURL u) = NormalizeURL (pf_uc p) url"
  using s
proof (cases rule: Shorten_result)
  case (found n)
  have "keeps (world_view p) w w'" using writer.original_keeps [of p w n] found(2) by simp
  then have "length (w_urls w') = length (w_urls w)" unfolding keeps_def by (metis length_map world_view_sel(2))
  with new show ?thesis by simp
next
  case (new n w1)
  have "keeps (world_view p) w w1" using writer.original_keeps [of p w n] new(3) by simp
  then have ok1: "sys_ok p cfg w1" using ok keeps_sys_ok by blast
  obtain u0 w2 where f: "shorten_finish (shortenerSvc p cfg) n r u0 w2 = ((Some u, r, None), w')"
    and u0: "u_OriginalURL u0 = n" and st: "is_verdict (sr_Status r)" "sr_Status r \<noteq> ScanMalicious" "utf8_valid n"
    using shorten_new_result [OF ok1 new(4)] by blast
  obtain w3 where u: "u = u0\<lparr>u_Hash := Encode (u_ID u0), u_VTStatus := sr_Status r\<rparr>"
    and w': "w' = snd (cache_Set (redis (pf_env p)) (Encode (u_ID u0)) n (sr_Status r) (u_ID u0)
       (days_duration (cfg_URLExpirationDays cfg)) w3)"
    using finish_result [OF f] by blast
  show ?thesis
    using cache_after_set [OF nf st(3) verdict_utf8 [OF st(1)]] st(2) new(1) by (simp add: u w' u0)
qed

section \<open>Scanning again\<close>

lemma GetRaw_calls:
  assumes "no_faults env"
  shows "GetRaw (redis env) key w = (case live w key of
      None \<Rightarrow> Inl (Wrapf ''cache: raw get %q: not found'' [ArgStr key] (Plain [])) | Some v \<Rightarrow> Inr v, tick w)"
  by (simp add: GetRaw_def exec_calls [OF assms] split: option.split)

lemma scan_stored:
  assumes nf: "no_faults (pf_env p)" and s: "sc_Scan (cachedScanner p cfg) (Some dl) url w = ((r, e), w1)"
    and year: "0 \<le> year_of (sr_ScannedAt r)" "year_of (sr_ScannedAt r) \<le> 9999"
  obtains data where "live w1 (cacheKey url) = Some data" "unmarshal_result (pf_uc p) data = Some r"
proof -
  note found = that
  let ?c = "NewCachedScanner (vtScannerDirect p cfg) (rawCache p) (vtCacheTTL cfg)"
  have cs: "CachedScan (pf_uc p) ?c (Some dl) url w = ((r, e), w1)"
    using s by (simp add: cachedScanner_def)
  have store: thesis if sas: "scan_and_store ?c (Some dl) url w0 = ((r, e), w1)" for w0
  proof -
    obtain q e' w2 where sc: "sc_Scan (vtScannerDirect p cfg) (Some dl) url w0 = ((q, e'), w2)" by (metis surj_pair)
    have v: "scan_verdict q" using direct_scan [of p w0 cfg dl url] sc by simp
    have q: "q = r" using sas by (auto simp: scan_and_store_def NewCachedScanner_def sc split: option.splits)
    have m: "marshal_result r = Some (json_text (result_json r))" using year by (simp add: marshal_result_def)
    have "w1 = redis_set (cacheKey url, json_text (result_json r), vtCacheTTL cfg) (tick w2)"
      using sas by (simp add: scan_and_store_def NewCachedScanner_def sc q m rawCache_def SetRaw_def exec_calls [OF nf])
    then have "live w1 (cacheKey url) = Some (json_text (result_json r))" by (simp add: live_redis_set)
    moreover have "unmarshal_result (pf_uc p) (json_text (result_json r)) = Some r"
      using unmarshal_marshal_result [OF _ m] v q by (simp add: scan_verdict_def)
    ultimately show thesis by (rule found)
  qed
  show thesis
  proof (cases "live w (cacheKey url)")
    case None
    then show thesis using cs store
      by (simp add: CachedScan_def NewCachedScanner_def rawCache_def GetRaw_calls [OF nf])
  next
    case (Some data)
    show thesis
    proof (cases "unmarshal_result (pf_uc p) data")
      case None
      with Some show thesis using cs store
        by (simp add: CachedScan_def NewCachedScanner_def rawCache_def GetRaw_calls [OF nf])
    next
      case r': (Some r')
      have "r = r' \<and> w1 = tick w"
        using cs Some r' by (simp add: CachedScan_def NewCachedScanner_def rawCache_def GetRaw_calls [OF nf])
      with Some r' show thesis by (intro found [of data]) simp_all
    qed
  qed
qed

lemma scan_from_cache:
  assumes "no_faults (pf_env p)" "live w (cacheKey url) = Some data" "unmarshal_result (pf_uc p) data = Some r"
  shows "sc_Scan (cachedScanner p cfg) ctx url w = ((r, None), tick w)"
  using assms(2,3)
  by (simp add: cachedScanner_def CachedScan_def NewCachedScanner_def rawCache_def GetRaw_calls [OF assms(1)])

text \<open>Only a malicious scan makes \<open>Shorten\<close> answer that the URL is malicious; nothing is stored then.\<close>

lemma ValidateURL_wraps: "ValidateURL uc idna raw baseURL \<noteq> Inl (Sentinel e)"
proof -
  have "checkSelfRef uc u b \<noteq> Inl (Sentinel e)" "checkPrivateIP h \<noteq> Inl (Sentinel e)"
    "checkHomograph idna h \<noteq> Inl (Sentinel e)" for u b h
    by (auto simp: checkSelfRef_def checkPrivateIP_def checkHomograph_def split: option.splits)
  then show ?thesis unfolding ValidateURL_def Let_def
    by (auto split: option.splits sum.splits)
qed

lemma Shorten_malicious_keeps:
  assumes s: "shorten_step p cfg ctx url w = ((x, r, Some (Sentinel ErrURLMalicious)), w')"
  shows "x = None \<and> sr_Status r = ScanMalicious \<and> keeps (world_view p) w w'"
proof -
  obtain n where n: "NormalizeURL (pf_uc p) url = Inr n"
    using s by (cases "NormalizeURL (pf_uc p) url") (auto simp: Shorten_def shorten_err_def)
  have v: "ValidateURL (pf_uc p) (lib_idna (pf_lib p)) n (cfg_BaseURL cfg) = Inr ()"
    using s n ValidateURL_wraps [of "pf_uc p" "lib_idna (pf_lib p)" n "cfg_BaseURL cfg" ErrURLMalicious]
    by (cases "ValidateURL (pf_uc p) (lib_idna (pf_lib p)) n (cfg_BaseURL cfg)")
      (auto simp: Shorten_def shorten_err_def)
  obtain q w1 where q: "FindByOriginalURL (mysql (pf_env p)) n w = (q, w1)" by (metis surj_pair)
  then have k1: "keeps (world_view p) w w1" using writer.original_keeps [of p w n] by simp
  have s1: "shorten_new w_clock (shortenerSvc p cfg) ctx n w1 = ((x, r, Some (Sentinel ErrURLMalicious)), w')"
    using s n v q by (auto simp: Shorten_def shorten_err_def split: sum.splits if_splits)
  obtain dl where dl: "WithTimeout ctx (w_clock w1) (cfg_VTTimeout cfg) = Some dl" by (simp add: WithTimeout_def)
  obtain r' e w2 where sc: "sc_Scan (cachedScanner p cfg) (Some dl) n w1 = ((r', e), w2)" by (metis surj_pair)
  then have k2: "keeps (world_view p) w w2"
    using keeps_trans [OF k1] shortening.scan_keeps [of p w1 cfg dl n] by simp
  show ?thesis
  proof (cases "sr_Status r' = ScanMalicious")
    case True
    then have "x = None \<and> r = r' \<and> w' = w2" using s1 by (simp add: shorten_new_def dl sc shorten_err_def)
    with True k2 show ?thesis by simp
  next
    case False
    with s1 have False
      by (auto simp: shorten_new_def dl sc shorten_err_def shorten_finish_def Let_def split: prod.splits sum.splits)
    then show ?thesis ..
  qed
qed

end
