(* ===== verification/ClickStore.thy ===== *)
theory ClickStore
  imports DispatcherRuns FaultFree
begin

text \<open>
  The dispatcher on its repositories: which clicks a run of the pool leaves in the store, as an
  interface of the click repository, and the MySQL repository that provides it.
\<close>

section \<open>The interface\<close>

fun written :: "worker \<Rightarrow> ClickEvent multiset" where
  "written (Updating e) = {#e#}"
| "written _ = {#}"

text \<open>The events whose \<open>Insert\<close> has returned.\<close>

definition stored :: "'s pool \<Rightarrow> ClickEvent multiset" where
  "stored x = mset (pl_finished x) + worker_sum written (ds_workers (pl_disp x))"

lemma subset_add_mset: "A \<subseteq># B \<Longrightarrow> A \<subseteq># add_mset x B"
  by (metis add_mset_add_single mset_subset_eq_add_left subset_mset.order_trans)

lemma written_held: "worker_sum written ws \<subseteq># in_flight ws"
proof (induction ws)
  case (Cons w ws)
  then show ?case by (cases w) (simp_all add: subset_add_mset)
qed simp

lemma stored_taken: "pool_ok x \<Longrightarrow> stored x \<subseteq># mset (pl_taken x)"
  using written_held [of "ds_workers (pl_disp x)"] by (simp add: pool_ok_def stored_def)

lemma stored_accepted: "pool_ok x \<Longrightarrow> stored x \<subseteq># mset (pl_accepted x)"
  using stored_taken [of x] by (simp add: pool_ok_def subset_mset.add_increasing2)

lemma stored_drained: "drained (pl_disp x) \<Longrightarrow> stored x = mset (pl_finished x)"
proof -
  have "\<forall>w\<in>set ws. w = Exited \<Longrightarrow> worker_sum written ws = {#}" for ws by (induction ws) simp_all
  then show "drained (pl_disp x) \<Longrightarrow> stored x = mset (pl_finished x)" by (simp add: stored_def drained_def)
qed

lemma stored_start: "started cr ur cl days n b = Some d \<Longrightarrow> stored (pool_start d s) = {#}"
  by (simp add: stored_def pool_start_def started_sel worker_sum_replicate)

text \<open>Only a worker whose \<open>Insert\<close> returns stores an event.\<close>

lemma submitted_stored:
  assumes "Submit e (pl_disp x) = Some d" shows "stored (submitted e d x) = stored x"
  using assms by (cases rule: Submit_cases) (simp_all add: stored_def submitted_def set_worker_def worker_sum_swap)

lemma worked_stored:
  assumes step: "worker_step i (pl_disp x, pl_state x) = Some y"
  obtains (inserted) e where "ds_workers (pl_disp x) ! i = Inserting e" "stored (worked i y x) = add_mset e (stored x)"
      "snd y = snd (ci_Insert (ds_clickRepo (pl_disp x)) (click_of e) (pl_state x))"
  | (updated) e :: ClickEvent where "stored (worked i y x) = stored x"
      "snd y = snd (la_UpdateLastAccessed (ds_urlRepo (pl_disp x)) (ev_URLID e) (pl_state x))"
  | (idle) "stored (worked i y x) = stored x" "snd y = pl_state x"
  using step
proof (cases rule: worker_step_cases)
  case (update e)
  have "e \<in># worker_sum written (ds_workers (pl_disp x))"
    using worker_sum_member [OF update(1), of written] update(2) by simp
  with update have "stored (worked i y x) = stored x"
    by (simp add: stored_def worked_def set_worker_def worker_sum_swap)
  with update show ?thesis using updated by simp
next
  case (insert e)
  then have "stored (worked i y x) = add_mset e (stored x)"
    by (simp add: stored_def worked_def set_worker_def worker_sum_swap)
  with insert show ?thesis using inserted by simp
next
  case (receive e es)
  then have "stored (worked i y x) = stored x"
    by (simp add: stored_def worked_def set_worker_def worker_sum_swap)
  with receive show ?thesis using idle by simp
next
  case exit
  then have "stored (worked i y x) = stored x"
    by (simp add: stored_def worked_def set_worker_def worker_sum_swap)
  with exit show ?thesis using idle by simp
qed

lemma worked_state: "pl_state (worked i y x) = snd y"
  by (simp add: worked_def)

text \<open>A store of clicks: \<open>Insert\<close> adds at most its click and nothing else adds any.\<close>

locale click_log =
  fixes log :: "'s \<Rightarrow> 'r multiset"
    and row :: "ClickEvent \<Rightarrow> 'r"
    and inserter :: "'s ClickInserter"
    and updater :: "'s LastAccessUpdater"
    and others :: "'s \<Rightarrow> 's \<Rightarrow> bool"
  assumes insert_log: "log (snd (ci_Insert inserter (click_of e) s)) \<subseteq># add_mset (row e) (log s)"
    and update_log: "log (snd (la_UpdateLastAccessed updater i s)) \<subseteq># log s"
    and others_log: "others s s' \<Longrightarrow> log s' \<subseteq># log s"
begin

lemma bounds:
  assumes "log s \<subseteq># A"
  shows "log (snd (ci_Insert inserter (click_of e) s)) \<subseteq># add_mset (row e) A"
    "log (snd (la_UpdateLastAccessed updater j s)) \<subseteq># A" "others s s' \<Longrightarrow> log s' \<subseteq># A"
proof -
  have "add_mset (row e) (log s) \<subseteq># add_mset (row e) A" using assms by simp
  then show "log (snd (ci_Insert inserter (click_of e) s)) \<subseteq># add_mset (row e) A"
    by (rule subset_mset.order_trans [OF insert_log])
  show "log (snd (la_UpdateLastAccessed updater j s)) \<subseteq># A"
    by (rule subset_mset.order_trans [OF update_log assms])
  show "others s s' \<Longrightarrow> log s' \<subseteq># A"
    using subset_mset.order_trans [OF others_log assms] .
qed

lemma step_log:
  assumes "pool_step others x y" "ds_clickRepo (pl_disp x) = inserter" "ds_urlRepo (pl_disp x) = updater"
    and "log (pl_state x) \<subseteq># base + image_mset row (stored x)"
  shows "log (pl_state y) \<subseteq># base + image_mset row (stored y)"
  using assms
proof (induction rule: pool_step.induct)
  case (submit e x d)
  then show ?case using submitted_stored [OF submit.hyps] by (simp add: submitted_def)
next
  case (work i x y)
  from work.hyps show ?case
  proof (cases rule: worked_stored)
    case (inserted e)
    then show ?thesis using bounds(1) [OF work.prems(3)] work.prems(1) by (simp add: worked_state)
  next
    case (updated e)
    then show ?thesis using bounds(2) [OF work.prems(3)] work.prems(2) by (simp add: worked_state)
  next
    case idle
    then show ?thesis using work.prems(3) by (simp add: worked_state)
  qed
next
  case (close x d)
  then show ?case by (auto simp: close_events_def stored_def split: if_splits)
next
  case (other x s)
  then show ?case using bounds(3) by (simp add: stored_def)
qed

text \<open>However the goroutines interleave, the store holds no click that was not submitted and accepted.\<close>

lemma run_log:
  assumes "started inserter updater cl days n b = Some d" "pool_run others (pool_start d s) x"
  shows "log (pl_state x) \<subseteq># log s + image_mset row (mset (pl_accepted x))"
proof -
  have "log (pl_state x) \<subseteq># log s + image_mset row (stored x)"
    using assms(2)
  proof (induction rule: pool_run.induct)
    case refl
    then show ?case by (simp add: pool_start_def)
  next
    case (step x y)
    then show ?case using step_log started_run(4,5) [OF assms(1) step.hyps(1)] by blast
  qed
  also have "\<dots> \<subseteq># log s + image_mset row (mset (pl_accepted x))"
    using stored_accepted [OF started_run(1) [OF assms]] by (simp add: image_mset_subseteq_mono)
  finally show ?thesis .
qed

end

text \<open>
  A store that answers: an event that fits is stored exactly once while there is room, and the
  rest of the program neither adds nor removes clicks.
\<close>

locale reliable_log = click_log log row inserter updater others
  for log :: "'s \<Rightarrow> 'r multiset" and row :: "ClickEvent \<Rightarrow> 'r" and inserter :: "'s ClickInserter"
    and updater :: "'s LastAccessUpdater" and others :: "'s \<Rightarrow> 's \<Rightarrow> bool" +
  fixes fit :: "ClickEvent \<Rightarrow> 's \<Rightarrow> bool"
    and room :: "nat \<Rightarrow> 's \<Rightarrow> bool"
  assumes insert_exact: "fit e s \<Longrightarrow> room (Suc n) s \<Longrightarrow> log (snd (ci_Insert inserter (click_of e) s)) = add_mset (row e) (log s)"
    and insert_room: "room (Suc n) s \<Longrightarrow> room n (snd (ci_Insert inserter (click_of e) s))"
    and insert_fit: "fit f s \<Longrightarrow> fit f (snd (ci_Insert inserter (click_of e) s))"
    and update_exact: "log (snd (la_UpdateLastAccessed updater j s)) = log s"
    and update_room: "room n s \<Longrightarrow> room n (snd (la_UpdateLastAccessed updater j s))"
    and update_fit: "fit f s \<Longrightarrow> fit f (snd (la_UpdateLastAccessed updater j s))"
    and others_exact: "others s s' \<Longrightarrow> log s' = log s"
    and others_room: "others s s' \<Longrightarrow> room n s \<Longrightarrow> room n s'"
    and others_fit: "others s s' \<Longrightarrow> fit f s \<Longrightarrow> fit f s'"
begin

definition exact :: "'r multiset \<Rightarrow> nat \<Rightarrow> ClickEvent set \<Rightarrow> 's pool \<Rightarrow> bool" where
  "exact base limit F x \<longleftrightarrow> log (pl_state x) = base + image_mset row (stored x) \<and>
     room (limit - size (stored x)) (pl_state x) \<and> (\<forall>e\<in>F. fit e (pl_state x))"

lemma step_exact:
  assumes "pool_step others x y" "pool_ok x" "ds_clickRepo (pl_disp x) = inserter" "ds_urlRepo (pl_disp x) = updater"
    and "set (pl_accepted y) \<subseteq> F" "length (pl_accepted y) \<le> limit" "exact base limit F x"
  shows "exact base limit F y"
  using assms
proof (induction rule: pool_step.induct)
  case (submit e x d)
  then show ?case using submitted_stored [OF submit.hyps] by (simp add: exact_def submitted_def)
next
  case (work i x y)
  have sub: "stored (worked i y x) \<subseteq># mset (pl_accepted (worked i y x))"
    using stored_accepted [OF worked_ok [OF work.hyps work.prems(1)]] .
  from work.hyps show ?case
  proof (cases rule: worked_stored)
    case (inserted e)
    then have "Suc (size (stored x)) \<le> limit" and e: "e \<in> F"
      using size_mset_mono [OF sub] mset_subset_eqD [OF sub, of e] work.prems(4,5) by auto
    then have room: "room (Suc (limit - Suc (size (stored x)))) (pl_state x)"
      using work.prems(6) by (simp add: exact_def Suc_diff_Suc Suc_le_eq)
    moreover have "fit e (pl_state x)" using e work.prems(6) by (simp add: exact_def)
    ultimately show ?thesis
      using inserted insert_exact insert_room [OF room] insert_fit work.prems(2,6)
      by (simp add: exact_def worked_state)
  next
    case (updated e)
    then show ?thesis using update_exact update_room update_fit work.prems(3,6) by (simp add: exact_def worked_state)
  next
    case idle
    then show ?thesis using work.prems(6) by (simp add: exact_def worked_state)
  qed
next
  case (close x d)
  then show ?case by (auto simp: close_events_def exact_def stored_def split: if_splits)
next
  case (other x s)
  then show ?case using others_exact others_room others_fit by (simp add: exact_def stored_def)
qed

lemma accepted_grows: "pool_step others x y \<Longrightarrow> \<exists>es. pl_accepted y = pl_accepted x @ es"
  by (induction rule: pool_step.induct) (auto simp: submitted_def worked_def)

text \<open>Once the workers have ended, the store holds the accepted clicks, each once.\<close>

lemma drained_exact:
  assumes st: "started inserter updater cl days n b = Some d" and run: "pool_run others (pool_start d s) x"
    and fits: "\<And>e. e \<in> set (pl_accepted x) \<Longrightarrow> fit e s" and room: "room (length (pl_accepted x)) s"
    and dr: "drained (pl_disp x)" "ds_workers (pl_disp x) \<noteq> []"
  shows "log (pl_state x) = log s + image_mset row (mset (pl_accepted x))"
proof -
  have "exact (log s) (length (pl_accepted x)) (set (pl_accepted x)) y \<and> pool_ok y"
    if "pool_run others (pool_start d s) y" "set (pl_accepted y) \<subseteq> set (pl_accepted x)" "length (pl_accepted y) \<le> length (pl_accepted x)" for y
    using that
  proof (induction rule: pool_run.induct)
    case refl
    then show ?case using stored_start [OF st] started_ok [OF st] fits room by (simp add: exact_def) (simp add: pool_start_def)
  next
    case (step y z)
    from accepted_grows [OF step.hyps(2)] step.prems
    have "set (pl_accepted y) \<subseteq> set (pl_accepted x)" "length (pl_accepted y) \<le> length (pl_accepted x)" by auto
    from step.IH [OF this] show ?case
      using step_exact [OF step.hyps(2)] pool_step_ok [OF step.hyps(2)] started_run(4,5) [OF st step.hyps(1)] step.prems by blast
  qed
  from this [OF run] have "log (pl_state x) = log s + image_mset row (stored x)" by (simp add: exact_def)
  then show ?thesis using stored_drained [OF dr(1)] drained_all(3) [OF started_run(1) [OF st run] dr] by simp
qed

end

section \<open>The MySQL repository\<close>

definition clickInserter :: "platform \<Rightarrow> world ClickInserter" where
  "clickInserter p = \<lparr>ci_Insert = Insert_click (mysql (pf_env p))\<rparr>"

definition lastAccessUpdater :: "platform \<Rightarrow> world LastAccessUpdater" where
  "lastAccessUpdater p = \<lparr>la_UpdateLastAccessed = UpdateLastAccessed (mysql (pf_env p))\<rparr>"

definition clickCleaner :: "platform \<Rightarrow> world ClickCleaner" where
  "clickCleaner p = \<lparr>cl_DeleteOlderThan = DeleteOlderThan (mysql (pf_env p))\<rparr>"

definition dispatcher :: "platform \<Rightarrow> config \<Rightarrow> world Dispatcher option" where
  "dispatcher p cfg = started (clickInserter p) (lastAccessUpdater p) (clickCleaner p)
     (cfg_AnalyticsRetentionDays cfg) (cfg_AnalyticsWorkers cfg) (cfg_AnalyticsBuffer cfg)"

text \<open>What a row of \<open>clicks\<close> keeps of an event besides its time, which is rounded.\<close>

definition click_row :: "click \<Rightarrow> u64 \<times> string \<times> string" where
  "click_row c = (c_URLID c, c_UserAgent c, c_IP c)"

definition event_row :: "ClickEvent \<Rightarrow> u64 \<times> string \<times> string" where
  "event_row e = (ev_URLID e, ev_UserAgent e, ev_IP e)"

definition click_rows :: "world \<Rightarrow> (u64 \<times> string \<times> string) multiset" where
  "click_rows w = image_mset click_row (mset (w_clicks w))"

lemma click_rows_cong: "w_clicks w' = w_clicks w \<Longrightarrow> click_rows w' = click_rows w"
  by (simp add: click_rows_def)

lemma insert_click_rows: "click_rows (snd (insert_click u t ua ip w)) \<subseteq># add_mset (u, ua, ip) (click_rows w)"
  by (auto simp: insert_click_def Let_def click_rows_def click_row_def split: option.split)

lemma Insert_click_state:
  "snd (Insert_click (mysql env) (click_of e) w) =
     snd (mysql_exec env (InsertClick (ev_URLID e) (ev_AccessedAt e) (ev_UserAgent e) (ev_IP e)) w)"
  by (simp add: exec_state_keeps click_of_def)

lemma set_last_accessed_rows: "click_rows (snd (set_last_accessed i w)) = click_rows w"
  by (simp add: set_last_accessed_def click_rows_def)

lemma click_rows_tick [simp]: "click_rows (tick w) = click_rows w"
  by (simp add: click_rows_def)

interpretation clicks: click_log click_rows event_row "clickInserter p" "lastAccessUpdater p"
  "\<lambda>w w'. click_rows w' \<subseteq># click_rows w" for p
proof unfold_locales
  fix e w
  have "click_rows (snd (mysql_exec env (InsertClick (ev_URLID e) (ev_AccessedAt e) (ev_UserAgent e) (ev_IP e)) w))
      \<subseteq># add_mset (event_row e) (click_rows w)" for env
    using insert_click_rows [of "ev_URLID e" "ev_AccessedAt e" "ev_UserAgent e" "ev_IP e" "tick w"]
    by (auto simp: mysql_exec_def event_row_def split: option.split nat.split)
  then show "click_rows (snd (ci_Insert (clickInserter p) (click_of e) w)) \<subseteq># add_mset (event_row e) (click_rows w)"
    by (simp add: clickInserter_def Insert_click_state)
next
  fix i w
  have "click_rows (snd (mysql_exec env (SetLastAccessed i) w)) = click_rows w" for env
    by (auto simp: mysql_exec_def set_last_accessed_rows split: option.split nat.split)
  then show "click_rows (snd (la_UpdateLastAccessed (lastAccessUpdater p) i w)) \<subseteq># click_rows w"
    by (simp add: lastAccessUpdater_def exec_state_keeps)
qed

text \<open>What the rest of the program may do to the tables while clicks are counted.\<close>

definition quiet :: "world \<Rightarrow> world \<Rightarrow> bool" where
  "quiet w w' \<longleftrightarrow> w_clicks w' = w_clicks w \<and> w_next_click w' = w_next_click w \<and> (\<forall>i. has_url i w \<longrightarrow> has_url i w')"

definition storable :: "ClickEvent \<Rightarrow> world \<Rightarrow> bool" where
  "storable e w \<longleftrightarrow> timestamp (ev_AccessedAt e) \<noteq> None \<and> fits 512 (ev_UserAgent e) \<and> fits 45 (ev_IP e) \<and> has_url (ev_URLID e) w"

definition click_room :: "nat \<Rightarrow> world \<Rightarrow> bool" where
  "click_room n w \<longleftrightarrow> w_next_click w + n \<le> 2 ^ 64"

text \<open>The platform whose calls all answer.\<close>

definition answering :: "platform \<Rightarrow> platform" where
  "answering p = p\<lparr>pf_env := (pf_env p)\<lparr>env_fault := \<lambda>_. None\<rparr>\<rparr>"

lemma answering_no_faults [simp]: "no_faults (pf_env (answering p))"
  by (simp add: answering_def no_faults_def)

lemma answering_id: "no_faults (pf_env p) \<Longrightarrow> answering p = p"
  by (simp add: answering_def no_faults_def fun_eq_iff [symmetric] flip: fun_eq_iff)

lemma insert_click_next: "w_next_click (snd (insert_click u t ua ip w)) \<le> Suc (w_next_click w)"
  by (auto simp: insert_click_def Let_def split: option.split)

lemma insert_click_has_url: "has_url i (snd (insert_click u t ua ip w)) = has_url i w"
  by (auto simp: insert_click_def Let_def has_url_def split: option.split)

lemma tick_has_url [simp]: "has_url i (tick w) = has_url i w"
  by (simp add: has_url_def)

lemma storable_cong: "(\<And>i. has_url i w \<Longrightarrow> has_url i w') \<Longrightarrow> storable e w \<Longrightarrow> storable e w'"
  by (simp add: storable_def)

lemma insert_click_exact:
  "storable e w \<Longrightarrow> click_room (Suc n) w \<Longrightarrow>
     click_rows (snd (insert_click (ev_URLID e) (ev_AccessedAt e) (ev_UserAgent e) (ev_IP e) w)) = add_mset (event_row e) (click_rows w)"
  by (auto simp: storable_def click_room_def insert_click_def Let_def click_rows_def click_row_def event_row_def)

interpretation answered: reliable_log click_rows event_row "clickInserter (answering p)" "lastAccessUpdater (answering p)"
  quiet storable click_room for p
proof -
  have ins: "snd (ci_Insert (clickInserter (answering p)) (click_of e) w) =
      snd (insert_click (ev_URLID e) (ev_AccessedAt e) (ev_UserAgent e) (ev_IP e) (tick w))" for e w
    by (simp add: clickInserter_def Insert_click_state exec_calls)
  have upd: "snd (la_UpdateLastAccessed (lastAccessUpdater (answering p)) i w) = snd (set_last_accessed i (tick w))" for i w
    by (simp add: lastAccessUpdater_def exec_state_keeps exec_calls)
  have room_upd: "click_room n (snd (set_last_accessed i (tick w))) = click_room n w" for n i w
    by (simp add: set_last_accessed_def click_room_def)
  have has_upd: "has_url j (snd (set_last_accessed i w)) = has_url j w" for i j w
    by (simp add: set_last_accessed_def update_url_has_url)
  have room_ins: "click_room (Suc n) w \<Longrightarrow> click_room n (snd (insert_click u t ua ip (tick w)))" for n u t ua ip w
    using insert_click_next [of u t ua ip "tick w"] by (simp add: click_room_def)
  show "reliable_log click_rows event_row (clickInserter (answering p)) (lastAccessUpdater (answering p)) quiet storable click_room"
  proof unfold_locales
    show "click_rows (snd (ci_Insert (clickInserter (answering p)) (click_of e) w)) \<subseteq># add_mset (event_row e) (click_rows w)" for e w
      by (rule clicks.insert_log)
    show "click_rows (snd (la_UpdateLastAccessed (lastAccessUpdater (answering p)) i w)) \<subseteq># click_rows w" for i w
      by (rule clicks.update_log)
    show "storable e w \<Longrightarrow> click_room (Suc n) w \<Longrightarrow>
        click_rows (snd (ci_Insert (clickInserter (answering p)) (click_of e) w)) = add_mset (event_row e) (click_rows w)" for e w n
      using insert_click_exact [of e "tick w" n] by (simp add: ins click_room_def storable_def)
    show "quiet w w' \<Longrightarrow> click_room n w \<Longrightarrow> click_room n w'" for w w' n
      by (simp add: quiet_def click_room_def)
    show "quiet w w' \<Longrightarrow> click_rows w' = click_rows w" for w w'
      by (rule click_rows_cong) (simp add: quiet_def)
    then show "quiet w w' \<Longrightarrow> click_rows w' \<subseteq># click_rows w" for w w' by simp
    show "quiet w w' \<Longrightarrow> storable e w \<Longrightarrow> storable e w'" for w w' e
      by (simp add: quiet_def storable_def)
  qed (simp_all add: ins upd room_ins room_upd set_last_accessed_rows has_upd insert_click_has_url storable_def)
qed

lemma drained_clicks:
  assumes nf: "no_faults (pf_env p)" and st: "dispatcher p cfg = Some d" and run: "pool_run quiet (pool_start d w) x"
    and "\<And>e. e \<in> set (pl_accepted x) \<Longrightarrow> storable e w" "click_room (length (pl_accepted x)) w"
    and "drained (pl_disp x)" "0 < cfg_AnalyticsWorkers cfg"
  shows "click_rows (pl_state x) = click_rows w + image_mset event_row (mset (pl_accepted x))"
proof -
  have st': "started (clickInserter (answering p)) (lastAccessUpdater (answering p)) (clickCleaner p)
      (cfg_AnalyticsRetentionDays cfg) (cfg_AnalyticsWorkers cfg) (cfg_AnalyticsBuffer cfg) = Some d"
    using st by (simp add: dispatcher_def answering_id [OF nf])
  have "ds_workers (pl_disp x) \<noteq> []"
    using started_run(2) [OF st' run] assms(7) by auto
  from answered.drained_exact [OF st' run assms(4,5,6) this] show ?thesis .
qed

end
