(* ===== verification/Server.thy ===== *)
theory Server
  imports Handlers ClickStore
begin

text \<open>
  \<open>cmd/api/main.go\<close> once everything is built: the state the process keeps, the middleware chain and
  the handler of each route, and the steps of the running server. The router, the CORS and
  RealIP middleware and the limiter library are parameters.
\<close>

section \<open>State\<close>

record ('f, 'l) server =
  sv_world :: world
  sv_disp :: "world Dispatcher"
  sv_shorten :: "('f, 'l) RateLimiter"
  sv_redirect :: "('f, 'l) RateLimiter"
  sv_analytics :: "('f, 'l) RateLimiter"
  sv_report :: "('f, 'l) RateLimiter"

datatype endpoint = GetHealth | GetHealthDetails | PostShorten | GetAnalytics | PostReport | GetHash

text \<open>
  Code outside the repository: the limiter library with \<open>float64(n)/60.0\<close>, the CORS handler, what
  \<open>RealIP\<close> makes of a request, the stack of a panic, and the router: the route that matches a
  request with the value of \<open>{hash}\<close>, or else the handler of unmatched requests.
\<close>

record ('f, 'l) server_lib =
  sl_rate :: "('f, 'l) rate_lib"
  sl_per_minute :: "int \<Rightarrow> 'f"
  sl_cors :: "cors_options \<Rightarrow> ('f, 'l) server middleware"
  sl_realip :: "request \<Rightarrow> request"
  sl_stack :: "string \<Rightarrow> string"
  sl_route :: "request \<Rightarrow> (endpoint \<times> string) option"
  sl_fallback :: "('f, 'l) server handler"

definition in_world :: "(world, 'a) call \<Rightarrow> (('f, 'l) server, 'a) call" where
  "in_world f sv = (case f (sv_world sv) of (x, w) \<Rightarrow> (x, sv\<lparr>sv_world := w\<rparr>))"

definition server_now :: "('f, 'l) server \<Rightarrow> time" where
  "server_now sv = w_clock (sv_world sv)"

text \<open>The dispatcher as the handler's \<open>ClickSubmitter\<close>.\<close>

definition submit_click :: "ClickEvent \<Rightarrow> ('f, 'l) server \<Rightarrow> ('f, 'l) server option" where
  "submit_click e sv = map_option (\<lambda>d. sv\<lparr>sv_disp := d\<rparr>) (Submit e (sv_disp sv))"

text \<open>A ping is a call that fails when the environment has a fault for it.\<close>

definition ping :: "env \<Rightarrow> (world, bool) call" where
  "ping env w = (env_fault env (w_calls w) = None, tick w)"

section \<open>Handlers and limiters\<close>

definition shortenHandler :: "platform \<Rightarrow> config \<Rightarrow> ('f, 'l) server ShortenHandler" where
  "shortenHandler p cfg =
     NewShortenHandler (\<lambda>ctx url. in_world (Shorten (pf_lib p) w_clock (shortenerSvc p cfg) ctx url)) (cfg_BaseURL cfg)"

definition redirectHandler :: "platform \<Rightarrow> config \<Rightarrow> ('f, 'l) server RedirectHandler" where
  "redirectHandler p cfg = SetTrustedProxies (cfg_TrustedProxies cfg)
     (NewRedirectHandlerWithCache (\<lambda>h. in_world (Resolve w_clock (redirectorSvc p cfg) h)) submit_click
       (\<lambda>h. in_world (cache_Delete (redis (pf_env p)) h)))"

definition analyticsHandler :: "platform \<Rightarrow> ('f, 'l) server AnalyticsHandler" where
  "analyticsHandler p = NewAnalyticsHandler (\<lambda>h. in_world (GetStats (analyticsSvc p) h))"

definition reportHandler :: "platform \<Rightarrow> config \<Rightarrow> ('f, 'l) server ReportHandler" where
  "reportHandler p cfg = NewReportHandler (\<lambda>h ip reason. in_world (Report (reportSvc p cfg) h ip reason))"

definition healthHandler :: "platform \<Rightarrow> config \<Rightarrow> ('f, 'l) server HealthHandler" where
  "healthHandler p cfg =
     NewHealthHandlerWithSecret (in_world (ping (pf_env p))) (in_world (ping (pf_env p))) (cfg_HealthSecretKey cfg)"

definition shortenLimiter :: "(('f, 'l) server, 'f, 'l) limiter_ref" where
  "shortenLimiter = \<lparr>lr_get = sv_shorten, lr_put = (\<lambda>rl. sv_shorten_update (\<lambda>_. rl))\<rparr>"

definition redirectLimiter :: "(('f, 'l) server, 'f, 'l) limiter_ref" where
  "redirectLimiter = \<lparr>lr_get = sv_redirect, lr_put = (\<lambda>rl. sv_redirect_update (\<lambda>_. rl))\<rparr>"

definition analyticsLimiter :: "(('f, 'l) server, 'f, 'l) limiter_ref" where
  "analyticsLimiter = \<lparr>lr_get = sv_analytics, lr_put = (\<lambda>rl. sv_analytics_update (\<lambda>_. rl))\<rparr>"

definition reportLimiter :: "(('f, 'l) server, 'f, 'l) limiter_ref" where
  "reportLimiter = \<lparr>lr_get = sv_report, lr_put = (\<lambda>rl. sv_report_update (\<lambda>_. rl))\<rparr>"

section \<open>Routes and the chain\<close>

definition limited ::
  "config \<Rightarrow> ('f, 'l) server_lib \<Rightarrow> (('f, 'l) server, 'f, 'l) limiter_ref \<Rightarrow> ('f, 'l) server middleware" where
  "limited cfg lib ref = MiddlewareWithProxies (sl_rate lib) server_now ref (cfg_TrustedProxies cfg)"

fun endpoint_handler :: "platform \<Rightarrow> config \<Rightarrow> ('f, 'l) server_lib \<Rightarrow> endpoint \<Rightarrow> ('f, 'l) server handler" where
  "endpoint_handler p cfg lib GetHealth = HealthHandle (healthHandler p cfg)"
| "endpoint_handler p cfg lib GetHealthDetails = HandleDetails (healthHandler p cfg)"
| "endpoint_handler p cfg lib PostShorten = limited cfg lib shortenLimiter
     (BodyLimit (2 ^ 20) (RequireJSON (pf_uc p) (ShortenHandle (pf_uc p) (shortenHandler p cfg))))"
| "endpoint_handler p cfg lib GetAnalytics = limited cfg lib analyticsLimiter (AnalyticsHandle (analyticsHandler p))"
| "endpoint_handler p cfg lib PostReport = limited cfg lib reportLimiter
     (BodyLimit (2 ^ 20) (RequireJSON (pf_uc p) (ReportHandle (pf_uc p) (reportHandler p cfg))))"
| "endpoint_handler p cfg lib GetHash = limited cfg lib redirectLimiter (RedirectHandle server_now (redirectHandler p cfg))"

definition router :: "platform \<Rightarrow> config \<Rightarrow> ('f, 'l) server_lib \<Rightarrow> ('f, 'l) server handler" where
  "router p cfg lib r c = (case sl_route lib r of
     None \<Rightarrow> sl_fallback lib r c
   | Some (e, h) \<Rightarrow> endpoint_handler p cfg lib e (r\<lparr>rq_hash := h\<rparr>) c)"

definition RealIP :: "('f, 'l) server_lib \<Rightarrow> ('f, 'l) server middleware" where
  "RealIP lib next r c = next (sl_realip lib r) c"

definition server_handler ::
  "platform \<Rightarrow> config \<Rightarrow> ('f, 'l) server_lib \<Rightarrow> bool \<Rightarrow> u8 list \<Rightarrow> ('f, 'l) server handler" where
  "server_handler p cfg lib isDev rnd =
     SecurityHeaders (NewCORS (sl_cors lib) (cfg_AllowedOrigins cfg) (RequestID rnd (RealIP lib
       (Recovery (sl_stack lib) isDev (Logger server_now (router p cfg lib))))))"

definition new_conn :: "'s \<Rightarrow> 's conn" where
  "new_conn s = \<lparr>cn_w = new_writer, cn_state = s, cn_log = []\<rparr>"

section \<open>The running server\<close>

definition new_limiter :: "('f, 'l) server_lib \<Rightarrow> int \<Rightarrow> ('f, 'l) RateLimiter" where
  "new_limiter lib n = NewRateLimiter (sl_per_minute lib n) n"

definition server_start :: "platform \<Rightarrow> config \<Rightarrow> ('f, 'l) server_lib \<Rightarrow> time \<Rightarrow> ('f, 'l) server option" where
  "server_start p cfg lib t = map_option (\<lambda>d. \<lparr>sv_world = empty_world t, sv_disp = d,
     sv_shorten = new_limiter lib (cfg_RateLimitShorten cfg), sv_redirect = new_limiter lib (cfg_RateLimitRedirect cfg),
     sv_analytics = new_limiter lib (cfg_RateLimitAnalytics cfg), sv_report = new_limiter lib (cfg_RateLimitReport cfg)\<rparr>)
     (dispatcher p cfg)"

inductive server_step :: "platform \<Rightarrow> config \<Rightarrow> ('f, 'l) server_lib \<Rightarrow> bool \<Rightarrow> ('f, 'l) server \<Rightarrow> ('f, 'l) server \<Rightarrow> bool"
  for p :: platform and cfg :: config and lib :: "('f, 'l) server_lib" and isDev :: bool where
  request: "server_step p cfg lib isDev sv (cn_state (snd (server_handler p cfg lib isDev rnd r (new_conn sv))))"
| worker: "worker_step i (sv_disp sv, sv_world sv) = Some (d, w) \<Longrightarrow>
    server_step p cfg lib isDev sv (sv\<lparr>sv_disp := d, sv_world := w\<rparr>)"
| rescan: "server_step p cfg lib isDev sv (sv\<lparr>sv_world := RunCycle world_timers (rescanner p cfg) (Some dl) (sv_world sv)\<rparr>)"
| retention: "server_step p cfg lib isDev sv (sv\<lparr>sv_world :=
    cleanupLoop (clickCleaner p) (cfg_AnalyticsRetentionDays cfg) ticks (sv_world sv)\<rparr>)"
| evict: "server_step p cfg lib isDev sv (sv\<lparr>sv_shorten := rate_cleanup (server_now sv) (sv_shorten sv),
    sv_redirect := rate_cleanup (server_now sv) (sv_redirect sv), sv_analytics := rate_cleanup (server_now sv) (sv_analytics sv),
    sv_report := rate_cleanup (server_now sv) (sv_report sv)\<rparr>)"
| later: "server_now sv \<le> t \<Longrightarrow> server_step p cfg lib isDev sv (sv\<lparr>sv_world := (sv_world sv)\<lparr>w_clock := t\<rparr>\<rparr>)"
| shutdown: "close_events (sv_disp sv) = Some d \<Longrightarrow> server_step p cfg lib isDev sv (sv\<lparr>sv_disp := d\<rparr>)"

inductive server_reachable :: "platform \<Rightarrow> config \<Rightarrow> ('f, 'l) server_lib \<Rightarrow> bool \<Rightarrow> ('f, 'l) server \<Rightarrow> bool"
  for p :: platform and cfg :: config and lib :: "('f, 'l) server_lib" and isDev :: bool where
  start: "server_start p cfg lib t = Some sv \<Longrightarrow> server_reachable p cfg lib isDev sv"
| step: "server_reachable p cfg lib isDev sv \<Longrightarrow> server_step p cfg lib isDev sv sv' \<Longrightarrow> server_reachable p cfg lib isDev sv'"

end
