(* ===== verification/Threads.thy ===== *)
theory Threads
  imports Scanner Services
begin

text \<open>
  The services and the rescanner as threads: the same code as in \<open>Services\<close> and \<open>Scanner\<close>, cut at
  its calls, so that other goroutines can run between two of them. A thread that runs alone
  computes what the service computes, which the lemmas named \<open>_alone\<close> show; the number of calls of a request is bounded.
  A scan of the inner scanner (HTTP requests and waits, but no row and no key) is one call.
\<close>

section \<open>Threads\<close>

text \<open>A thread has ended with a result, or waits for the answer of a call.\<close>

datatype ('s, 'a) thread = Done 'a | Await "'s \<Rightarrow> ('s, 'a) thread \<times> 's"

definition perform :: "('s, 'a) call \<Rightarrow> ('s, 'a) thread" where
  "perform f = Await (\<lambda>s. map_prod Done id (f s))"

primrec and_then :: "('s, 'a) thread \<Rightarrow> ('a \<Rightarrow> ('s, 'b) thread) \<Rightarrow> ('s, 'b) thread" where
  "and_then (Done a) = (\<lambda>k. k a)"
| "and_then (Await f) = (\<lambda>k. Await (\<lambda>s. map_prod (\<lambda>g. g k) id (map_prod and_then id (f s))))"

text \<open>Reading the clock, and a call of an optional interface whose error is only logged.\<close>

definition ask_clock :: "'s clock \<Rightarrow> ('s, time) thread" where
  "ask_clock now = perform (\<lambda>s. (now s, s))"

definition if_some :: "'c option \<Rightarrow> ('c \<Rightarrow> ('s, goerr + unit) call) \<Rightarrow> ('s, goerr + unit) thread" where
  "if_some c f = (case c of None \<Rightarrow> Done (Inr ()) | Some x \<Rightarrow> perform (f x))"

text \<open>Running a thread with nothing in between.\<close>

primrec alone :: "('s, 'a) thread \<Rightarrow> ('s, 'a) call" where
  "alone (Done a) = (\<lambda>s. (a, s))"
| "alone (Await f) = (\<lambda>s. case map_prod alone id (f s) of (g, s') \<Rightarrow> g s')"

text \<open>Whatever the calls answer, the thread ends after at most \<open>n\<close> of them.\<close>

primrec within :: "('s, 'a) thread \<Rightarrow> nat \<Rightarrow> bool" where
  "within (Done a) = (\<lambda>n. True)"
| "within (Await f) = (\<lambda>n. 0 < n \<and> (\<forall>s. fst (map_prod within id (f s)) (n - 1)))"

text \<open>The recursive functions on the answer of a call, without the map over the pair.\<close>

declare and_then.simps(2) [simp del] alone.simps [simp del] within.simps(2) [simp del]

lemma and_then_simps [simp]:
  "and_then (Done a) k = k a"
  "and_then (Await f) k = Await (\<lambda>s. case f s of (t, s') \<Rightarrow> (and_then t k, s'))"
  by (auto simp: and_then.simps map_prod_def split: prod.split)

lemma alone_simps [simp]:
  "alone (Done a) s = (a, s)"
  "alone (Await f) s = (case f s of (t, s') \<Rightarrow> alone t s')"
  by (auto simp: alone.simps map_prod_def split: prod.splits)

lemma within_simps [simp]:
  "within (Await f) n \<longleftrightarrow> 0 < n \<and> (\<forall>s. within (fst (f s)) (n - 1))"
  by (simp add: within.simps)

lemma thread_induct [case_names Done Await]:
  assumes "\<And>a. P (Done a)" "\<And>f. (\<And>s. P (fst (f s))) \<Longrightarrow> P (Await f)"
  shows "P t"
proof (induction t)
  case (Await f)
  then have "P (fst (f s))" for s by (metis fsts.intros prod.collapse rangeI)
  then show ?case by (rule assms(2))
qed (rule assms(1))

lemma and_then_end [simp]: "and_then t Done = t"
  by (induction t rule: thread_induct) (auto simp: split_def)

lemma and_then_assoc: "and_then (and_then t k) f = and_then t (\<lambda>a. and_then (k a) f)"
  by (induction t rule: thread_induct) (auto simp: split_def)

lemma perform_simps: "perform f = Await (\<lambda>s. case f s of (a, s') \<Rightarrow> (Done a, s'))"
  by (simp add: perform_def map_prod_def)

lemma alone_perform [simp]: "alone (perform f) s = f s"
  by (simp add: perform_simps split: prod.split)

lemma alone_and_then [simp]: "alone (and_then t k) s = (case alone t s of (a, s') \<Rightarrow> alone (k a) s')"
proof (induction t arbitrary: s rule: thread_induct)
  case (Await f)
  show ?case using Await [of s] by (cases "f s") simp
qed simp

lemma alone_if_some [simp]: "alone (if_some c f) s = (case c of None \<Rightarrow> (Inr (), s) | Some x \<Rightarrow> f x s)"
  by (simp add: if_some_def split: option.split)

lemma alone_ask_clock [simp]: "alone (ask_clock now) s = (now s, s)"
  by (simp add: ask_clock_def)

lemma within_more: "within t m \<Longrightarrow> m \<le> n \<Longrightarrow> within t n"
proof (induction t arbitrary: m n rule: thread_induct)
  case (Await f)
  have "within (fst (f s)) (n - 1)" for s by (rule Await.IH [of s "m - 1"]) (use Await.prems in auto)
  with Await.prems show ?case by auto
qed simp

lemma within_and_then: "within t m \<Longrightarrow> (\<And>a. within (k a) n) \<Longrightarrow> within (and_then t k) (m + n)"
proof (induction t arbitrary: m rule: thread_induct)
  case (Done a)
  then show ?case using within_more [of "k a" n "m + n"] by simp
next
  case (Await f)
  have "within (and_then (fst (f s)) k) (m - 1 + n)" for s
    by (rule Await.IH) (use Await.prems in auto)
  with Await.prems(1) show ?case by (auto simp: split_def)
qed

text \<open>How many calls a service makes is read off its text.\<close>

named_theorems calls_within \<open>bounds on the calls of a thread\<close>

lemma within_call [calls_within]: "0 < n \<Longrightarrow> (\<And>a. within (k a) (n - 1)) \<Longrightarrow> within (and_then (perform f) k) n"
  using within_and_then [of "perform f" 1 k "n - 1"] by (simp add: perform_simps split_def)

lemma within_perform [calls_within]: "0 < n \<Longrightarrow> within (perform f) n"
  by (simp add: perform_simps split_def)

lemma within_clock [calls_within]: "0 < n \<Longrightarrow> (\<And>a. within (k a) (n - 1)) \<Longrightarrow> within (and_then (ask_clock now) k) n"
  unfolding ask_clock_def by (rule within_call)

lemma within_if_some [calls_within]: "0 < n \<Longrightarrow> (\<And>a. within (k a) (n - 1)) \<Longrightarrow> within (and_then (if_some c f) k) n"
  using within_call [of n k] within_more [of "k (Inr ())" "n - 1" n] by (simp add: if_some_def split: option.split)

end
