(* ===== verification/ServiceThreads.thy ===== *)
theory ServiceThreads
  imports Threads
begin

text \<open>
  The four services, the caching scanner and a cycle of the rescanner as threads, with two facts
  about each: alone it computes the service's function, and the number of its calls is bounded.
\<close>

section \<open>\<open>shortener.go\<close>\<close>

definition shorten_finish_thread ::
  "'s shortenerService \<Rightarrow> string \<Rightarrow> scan_result \<Rightarrow> url \<Rightarrow> ('s, shorten_result) thread" where
  "shorten_finish_thread svc normalized result u =
     (let h = Encode (u_ID u) in
      and_then (perform (rp_UpdateHash (sh_repo svc) (u_ID u) h)) (\<lambda>r. case r of
        Inl e \<Rightarrow> Done (shorten_err zero_scan_result (Wrapf ''shortener: update hash: %w'' [] e))
      | Inr _ \<Rightarrow>
          and_then (perform (rp_UpdateVTResult (sh_repo svc) (u_ID u) result)) (\<lambda>_.
            let u' = u\<lparr>u_Hash := h, u_VTStatus := sr_Status result\<rparr> in
            and_then (if_some (sh_cache svc) (\<lambda>c. ch_Set c h normalized (u_VTStatus u') (u_ID u')
                (days_duration (sh_urlExpirationDays svc)))) (\<lambda>_.
              Done (Some u', result, None)))))"

text \<open>After the scan: a malicious URL is refused, any other gets a row.\<close>

definition shorten_create_thread ::
  "'s clock \<Rightarrow> 's shortenerService \<Rightarrow> string \<Rightarrow> scan_result \<Rightarrow> ('s, shorten_result) thread" where
  "shorten_create_thread now svc normalized result =
     (if sr_Status result = ScanMalicious then Done (shorten_err result (Sentinel ErrURLMalicious))
      else and_then (ask_clock now) (\<lambda>t.
        let u = zero_url\<lparr>u_OriginalURL := normalized, u_ExpiresAt := Some (AddDate_days t (sh_urlExpirationDays svc))\<rparr> in
        and_then (perform (rp_Create (sh_repo svc) u)) (\<lambda>r. case r of
          Inl e \<Rightarrow> Done (shorten_err zero_scan_result (Wrapf ''shortener: create: %w'' [] e))
        | Inr u' \<Rightarrow> shorten_finish_thread svc normalized result u')))"

definition shorten_new_thread ::
  "(ctx \<Rightarrow> string \<Rightarrow> ('s, scan_result \<times> goerr option) thread) \<Rightarrow> 's clock \<Rightarrow> 's shortenerService \<Rightarrow> ctx \<Rightarrow>
   string \<Rightarrow> ('s, shorten_result) thread" where
  "shorten_new_thread scan now svc ctx normalized =
     and_then (ask_clock now) (\<lambda>t.
     and_then (scan (WithTimeout ctx t (sh_vtTimeout svc)) normalized) (\<lambda>(result, _).
       shorten_create_thread now svc normalized result))"

definition shorten_thread ::
  "(ctx \<Rightarrow> string \<Rightarrow> ('s, scan_result \<times> goerr option) thread) \<Rightarrow> lib \<Rightarrow> 's clock \<Rightarrow> 's shortenerService \<Rightarrow> ctx \<Rightarrow>
   string \<Rightarrow> ('s, shorten_result) thread" where
  "shorten_thread scan lib now svc ctx longURL =
     (case NormalizeURL (lib_uc lib) longURL of
        Inl _ \<Rightarrow> Done (shorten_err zero_scan_result (Wrapf ''shortener: normalize: %w'' [] (Sentinel ErrInvalidURL)))
      | Inr normalized \<Rightarrow>
          (case ValidateURL (lib_uc lib) (lib_idna lib) normalized (sh_baseURL svc) of
             Inl e \<Rightarrow> Done (shorten_err zero_scan_result e)
           | Inr _ \<Rightarrow>
               and_then (perform (rp_FindByOriginalURL (sh_repo svc) normalized)) (\<lambda>r. case r of
                 Inr existing \<Rightarrow> Done (Some existing, zero_scan_result\<lparr>sr_Status := u_VTStatus existing\<rparr>, None)
               | Inl e \<Rightarrow>
                   if \<not> err_is e ErrURLNotFound
                   then Done (shorten_err zero_scan_result (Wrapf ''shortener: dedup check: %w'' [] e))
                   else shorten_new_thread scan now svc ctx normalized)))"

lemma shorten_finish_alone: "alone (shorten_finish_thread svc n r u) s = shorten_finish svc n r u s"
  by (auto simp: shorten_finish_thread_def shorten_finish_def Let_def split: prod.split sum.split option.split)

lemma shorten_new_alone:
  assumes "\<And>ctx url. alone (scan ctx url) = sc_Scan (sh_scan svc) ctx url"
  shows "alone (shorten_new_thread scan now svc ctx n) s = shorten_new now svc ctx n s"
  by (auto simp: shorten_new_thread_def shorten_create_thread_def shorten_new_def assms shorten_finish_alone Let_def split: prod.split sum.split)

lemma shorten_alone:
  assumes "\<And>ctx url. alone (scan ctx url) = sc_Scan (sh_scan svc) ctx url"
  shows "alone (shorten_thread scan lib now svc ctx url) s = Shorten lib now svc ctx url s"
  by (auto simp: shorten_thread_def Shorten_def shorten_new_alone [OF assms] split: prod.split sum.split)

lemma shorten_finish_within: "within (shorten_finish_thread svc n r u) 3"
  by (auto simp: shorten_finish_thread_def Let_def intro!: calls_within split: sum.split)

lemma shorten_create_within: "within (shorten_create_thread now svc n result) 5"
  using shorten_finish_within
  by (auto simp: shorten_create_thread_def Let_def intro!: within_clock within_call split: sum.split)

lemma shorten_new_within:
  assumes "\<And>ctx url. within (scan ctx url) 3"
  shows "within (shorten_new_thread scan now svc ctx n) 9"
proof -
  have "within (and_then (scan ctx' n) (\<lambda>(result, _). shorten_create_thread now svc n result)) (3 + 5)" for ctx'
    by (rule within_and_then [OF assms]) (simp add: shorten_create_within split: prod.split)
  then show ?thesis
    unfolding shorten_new_thread_def by (intro within_clock) simp_all
qed

lemma shorten_within:
  assumes "\<And>ctx url. within (scan ctx url) 3"
  shows "within (shorten_thread scan lib now svc ctx url) 10"
proof -
  have "within (shorten_new_thread scan now svc ctx n) (10 - 1)" for n
    using shorten_new_within [OF assms] by simp
  then show ?thesis
    by (auto simp: shorten_thread_def intro!: within_call split: sum.split)
qed

section \<open>\<open>cache.go\<close>: the caching scanner\<close>

definition scan_and_store_thread ::
  "'s CachedScanner \<Rightarrow> ctx \<Rightarrow> string \<Rightarrow> ('s, scan_result \<times> goerr option) thread" where
  "scan_and_store_thread c ctx rawURL =
     and_then (perform (sc_Scan (cs_scan c) ctx rawURL)) (\<lambda>(result, err).
       case marshal_result result of
         None \<Rightarrow> Done (result, err)
       | Some data \<Rightarrow>
           and_then (perform (rw_SetRaw (cs_inner c) (cacheKey rawURL) data (cs_ttl c))) (\<lambda>_. Done (result, err)))"

definition cached_scan_thread ::
  "unicode_tables \<Rightarrow> 's CachedScanner \<Rightarrow> ctx \<Rightarrow> string \<Rightarrow> ('s, scan_result \<times> goerr option) thread" where
  "cached_scan_thread uc c ctx rawURL =
     and_then (perform (rw_GetRaw (cs_inner c) (cacheKey rawURL))) (\<lambda>r. case r of
       Inl _ \<Rightarrow> scan_and_store_thread c ctx rawURL
     | Inr data \<Rightarrow>
         (case unmarshal_result uc data of
            Some result \<Rightarrow> Done (result, None)
          | None \<Rightarrow> scan_and_store_thread c ctx rawURL))"

lemma scan_and_store_alone: "alone (scan_and_store_thread c ctx url) s = scan_and_store c ctx url s"
  by (auto simp: scan_and_store_thread_def scan_and_store_def split: prod.split option.split)

lemma cached_scan_alone: "alone (cached_scan_thread uc c ctx url) s = CachedScan uc c ctx url s"
  by (auto simp: cached_scan_thread_def CachedScan_def scan_and_store_alone split: prod.split sum.split option.split)

lemma cached_scan_within: "within (cached_scan_thread uc c ctx url) 3"
  by (auto simp: cached_scan_thread_def scan_and_store_thread_def intro!: calls_within split: sum.split option.split)

section \<open>\<open>redirector.go\<close>\<close>

text \<open>What the redirector does with a row it has read.\<close>

definition resolve_row_thread :: "'s clock \<Rightarrow> 's redirectorService \<Rightarrow> string \<Rightarrow> url \<Rightarrow> ('s, resolve_result) thread" where
  "resolve_row_thread now svc h u =
     and_then (ask_clock now) (\<lambda>t.
       if (case u_ExpiresAt u of None \<Rightarrow> False | Some exp \<Rightarrow> exp < t)
       then Done (None, Some (Sentinel ErrURLExpired))
       else if (case parse_url (u_OriginalURL u) of None \<Rightarrow> True
                | Some parsed \<Rightarrow> url_Scheme parsed \<noteq> ''http'' \<and> url_Scheme parsed \<noteq> ''https'')
       then Done (None, Some (Sentinel ErrInvalidURL))
       else if u_VTStatus u = ScanMalicious
       then and_then (if_some (rs_cache svc) (\<lambda>c. ch_Delete c h)) (\<lambda>_.
         Done (Some u, Some (Sentinel ErrURLMalicious)))
       else and_then (if_some (rs_cache svc) (\<lambda>c. ch_Set c h (u_OriginalURL u) (u_VTStatus u) (u_ID u) (rs_cacheTTL svc))) (\<lambda>_.
         Done (Some u, None)))"

definition resolve_db_thread :: "'s clock \<Rightarrow> 's redirectorService \<Rightarrow> string \<Rightarrow> ('s, resolve_result) thread" where
  "resolve_db_thread now svc h =
     and_then (perform (ur_FindByHash (rs_repo svc) h)) (\<lambda>r. case r of
       Inl e \<Rightarrow> Done (None, Some (Wrapf ''redirector: find: %w'' [] e))
     | Inr u \<Rightarrow> resolve_row_thread now svc h u)"

definition resolve_thread :: "'s clock \<Rightarrow> 's redirectorService \<Rightarrow> string \<Rightarrow> ('s, resolve_result) thread" where
  "resolve_thread now svc h =
     (case rs_cache svc of
        None \<Rightarrow> resolve_db_thread now svc h
      | Some c \<Rightarrow>
          and_then (perform (ch_Get c h)) (\<lambda>r. case r of
            Inr (originalURL, vtStatus, urlID) \<Rightarrow>
              if vtStatus = ScanMalicious
              then and_then (perform (ch_Delete c h)) (\<lambda>_.
                Done (Some (zero_url\<lparr>u_Hash := h, u_VTStatus := vtStatus\<rparr>), Some (Sentinel ErrURLMalicious)))
              else Done (Some (zero_url\<lparr>u_Hash := h, u_OriginalURL := originalURL, u_ID := urlID,
                                        u_VTStatus := vtStatus\<rparr>), None)
          | Inl e \<Rightarrow> resolve_db_thread now svc h))"

lemma resolve_db_alone: "alone (resolve_db_thread now svc h) s = resolve_db now svc h s"
  by (auto simp: resolve_db_thread_def resolve_row_thread_def resolve_db_def split: prod.split sum.split option.split)

lemma resolve_alone: "alone (resolve_thread now svc h) s = Resolve now svc h s"
  by (auto simp: resolve_thread_def Resolve_def resolve_db_alone split: prod.split sum.split option.split)

lemma resolve_db_within: "within (resolve_db_thread now svc h) 3"
  by (auto simp: resolve_db_thread_def resolve_row_thread_def intro!: calls_within split: sum.split)

lemma resolve_within: "within (resolve_thread now svc h) 4"
  using resolve_db_within [of now svc h] within_more [of "resolve_db_thread now svc h" 3 4]
  by (auto simp: resolve_thread_def intro!: calls_within split: sum.split option.split)

section \<open>\<open>report.go\<close>\<close>

definition report_count_thread :: "'s reportService \<Rightarrow> string \<Rightarrow> u64 \<Rightarrow> ('s, goerr option) thread" where
  "report_count_thread svc h uid =
     and_then (perform (rr_CountDistinctIPsByURLID (rt_reportRepo svc) uid)) (\<lambda>r. case r of
       Inl _ \<Rightarrow> Done None
     | Inr count \<Rightarrow>
         if rt_threshold svc \<le> count
         then and_then (perform (ru_UpdateVTStatus (rt_urlRepo svc) uid ''malicious'')) (\<lambda>_.
           and_then (perform (rc_Delete (rt_cache svc) h)) (\<lambda>_. Done None))
         else Done None)"

definition report_thread :: "'s reportService \<Rightarrow> string \<Rightarrow> string \<Rightarrow> string \<Rightarrow> ('s, goerr option) thread" where
  "report_thread svc h reporterIP reason =
     and_then (perform (ru_FindByHash (rt_urlRepo svc) h)) (\<lambda>r. case r of
       Inl e \<Rightarrow> Done (Some e)
     | Inr u \<Rightarrow>
         if \<not> IsValidReason reason then Done (Some (Sentinel ErrInvalidReason))
         else let anonIP = AnonymizeIP (stripPort reporterIP);
                  rep = \<lparr>r_ID = 0, r_URLID = u_ID u, r_ReporterIP = anonIP, r_Reason = reason, r_CreatedAt = zero_time\<rparr>
           in and_then (perform (rr_Insert (rt_reportRepo svc) rep)) (\<lambda>q. case q of
                Inl e \<Rightarrow> Done (if err_is e ErrDuplicateReport then Some (Sentinel ErrDuplicateReport) else Some e)
              | Inr _ \<Rightarrow> report_count_thread svc h (u_ID u)))"

lemma report_count_alone: "alone (report_count_thread svc h uid) s = (None, report_count svc h uid s)"
  by (auto simp: report_count_thread_def report_count_def split: prod.split sum.split)

lemma report_alone: "alone (report_thread svc h ip reason) s = Report svc h ip reason s"
  by (auto simp: report_thread_def Report_def report_count_alone Let_def split: prod.split sum.split)

lemma report_within: "within (report_thread svc h ip reason) 5"
  by (auto simp: report_thread_def report_count_thread_def Let_def intro!: calls_within split: sum.split)

section \<open>\<open>analytics.go\<close>\<close>

definition stats_thread :: "'s analyticsService \<Rightarrow> string \<Rightarrow> ('s, goerr + stats) thread" where
  "stats_thread svc h =
     and_then (perform (uf_FindByHash (as_urlRepo svc) h)) (\<lambda>r1. case r1 of
       Inl e \<Rightarrow> Done (Inl (Wrapf ''analytics: find url: %w'' [] e))
     | Inr u \<Rightarrow> and_then (perform (cr_CountByURLID (as_clickRepo svc) (u_ID u))) (\<lambda>r2. case r2 of
       Inl e \<Rightarrow> Done (Inl (Wrapf ''analytics: count clicks: %w'' [] e))
     | Inr n \<Rightarrow> and_then (perform (cr_GroupByDay (as_clickRepo svc) (u_ID u) 30)) (\<lambda>r3. case r3 of
       Inl e \<Rightarrow> Done (Inl (Wrapf ''analytics: group by day: %w'' [] e))
     | Inr byDay \<Rightarrow> and_then (perform (cr_TopUserAgents (as_clickRepo svc) (u_ID u) 5)) (\<lambda>r4. case r4 of
       Inl e \<Rightarrow> Done (Inl (Wrapf ''analytics: top user agents: %w'' [] e))
     | Inr topAgents \<Rightarrow>
         Done (Inr \<lparr>st_TotalClicks = n, st_ClicksByDay = byDay, st_TopUserAgents = topAgents\<rparr>)))))"

lemma stats_alone: "alone (stats_thread svc h) s = GetStats svc h s"
  by (auto simp: stats_thread_def GetStats_def split: prod.split sum.split)

lemma stats_within: "within (stats_thread svc h) 4"
  by (auto simp: stats_thread_def intro!: calls_within split: sum.split)

section \<open>\<open>rescan.go\<close>\<close>

definition process_thread :: "'s timers \<Rightarrow> 's Rescanner \<Rightarrow> ctx \<Rightarrow> url \<Rightarrow> ('s, bool) thread" where
  "process_thread tm r ctx u =
     and_then (perform (sc_Scan (re_scanner r) ctx (u_OriginalURL u))) (\<lambda>(result, _).
     and_then (perform (rq_UpdateVTResult (re_urlRepo r) (u_ID u) result)) (\<lambda>_.
     and_then (if_some (if sr_Status result = ScanMalicious then Some () else None) (\<lambda>_. re_cache_Delete r (u_Hash u))) (\<lambda>_.
     perform (tm_wait tm ctx (20 * second)))))"

fun rescan_thread :: "'s timers \<Rightarrow> 's Rescanner \<Rightarrow> ctx \<Rightarrow> url list \<Rightarrow> ('s, unit) thread" where
  "rescan_thread tm r ctx [] = Done ()"
| "rescan_thread tm r ctx (u # us) =
     and_then (process_thread tm r ctx u) (\<lambda>_.
     and_then (perform (\<lambda>s. (tm_cancelled tm ctx s, s))) (\<lambda>cancelled.
       if cancelled then Done () else rescan_thread tm r ctx us))"

definition cycle_thread :: "'s timers \<Rightarrow> 's Rescanner \<Rightarrow> ctx \<Rightarrow> ('s, unit) thread" where
  "cycle_thread tm r ctx =
     and_then (perform (rq_FindByVTStatus (re_urlRepo r) ScanUnverified)) (\<lambda>q. case q of
       Inl _ \<Rightarrow> Done ()
     | Inr urls \<Rightarrow> if urls = [] then Done () else rescan_thread tm r ctx urls)"

lemma process_alone: "snd (alone (process_thread tm r ctx u) s) = processOne tm r ctx u s"
  by (auto simp: process_thread_def processOne_def Let_def split: prod.split)

lemma rescan_alone: "alone (rescan_thread tm r ctx us) s = ((), rescan_loop tm r ctx us s)"
proof (induction us arbitrary: s)
  case (Cons u us)
  show ?case using process_alone [of tm r ctx u s, symmetric]
    by (auto simp: Cons Let_def split: prod.split)
qed simp

lemma cycle_alone: "alone (cycle_thread tm r ctx) s = ((), RunCycle tm r ctx s)"
  by (auto simp: cycle_thread_def RunCycle_def rescan_alone split: prod.split sum.split)

end
