(* ===== verification/Interference.thy ===== *)
theory Interference
  imports Threads
begin

text \<open>
  Threads of many goroutines on one state: any of them takes its next call at any time, new
  ones start, and the environment moves. Rely and guarantee: each thread is proved on its own
  against any interference that keeps an invariant and a transitive relation on states, and
  keeps both with its own calls; then every interleaving keeps the invariant, and what a thread
  promises about its result holds in whatever state it ends.
\<close>

section \<open>Interleavings\<close>

text \<open>The pool: each goroutine with the job it was started for.\<close>

type_synonym ('j, 's, 'a) pool = "('j \<times> ('s, 'a) thread) list \<times> 's"

inductive interleave ::
  "('j \<Rightarrow> bool) \<Rightarrow> ('j \<Rightarrow> ('s, 'a) thread) \<Rightarrow> ('s \<Rightarrow> 's \<Rightarrow> bool) \<Rightarrow> ('j, 's, 'a) pool \<Rightarrow> ('j, 's, 'a) pool \<Rightarrow> bool"
  for starts :: "'j \<Rightarrow> bool" and prog :: "'j \<Rightarrow> ('s, 'a) thread" and env :: "'s \<Rightarrow> 's \<Rightarrow> bool" where
  spawn: "starts j \<Longrightarrow> interleave starts prog env (ts, s) (ts @ [(j, prog j)], s)"
| advance: "i < length ts \<Longrightarrow> ts ! i = (j, Await f) \<Longrightarrow> f s = (t, s') \<Longrightarrow>
    interleave starts prog env (ts, s) (ts[i := (j, t)], s')"
| elapse: "env s s' \<Longrightarrow> interleave starts prog env (ts, s) (ts, s')"

inductive_cases interleaveE: "interleave starts prog env (ts, s) c'"

text \<open>One of the runs: a thread takes all the calls of its next part while the others wait.\<close>

lemma run_part:
  assumes "i < length ts" "ts ! i = (j, and_then t k)" "alone t s = (a, s')"
  shows "(interleave starts prog env)\<^sup>*\<^sup>* (ts, s) (ts[i := (j, k a)], s')"
  using assms
proof (induction t arbitrary: ts s rule: thread_induct)
  case (Done x)
  then have "ts[i := (j, k a)] = ts" "s' = s" by (auto simp: list_update_same_conv)
  then show ?case by simp
next
  case (Await f)
  obtain u s1 where f: "f s = (u, s1)" by (metis surj_pair)
  let ?ts = "ts[i := (j, and_then u k)]"
  have at: "ts ! i = (j, Await (\<lambda>s. case f s of (t, s') \<Rightarrow> (and_then t k, s')))" using Await.prems(2) by simp
  have "interleave starts prog env (ts, s) (?ts, s1)"
    by (rule advance [OF Await.prems(1) at]) (simp add: f)
  moreover have "(interleave starts prog env)\<^sup>*\<^sup>* (?ts, s1) (?ts[i := (j, k a)], s')"
    using Await.IH [of ?ts s s1] Await.prems f by simp
  ultimately show ?case by (simp add: converse_rtranclp_into_rtranclp)
qed

lemma run_new:
  assumes "starts j" "alone (prog j) s = (a, s')"
  shows "(interleave starts prog env)\<^sup>*\<^sup>* (ts, s) (ts @ [(j, Done a)], s')"
proof -
  have "interleave starts prog env (ts, s) (ts @ [(j, prog j)], s)" by (rule spawn) (rule assms(1))
  also have "(interleave starts prog env)\<^sup>*\<^sup>* \<dots> ((ts @ [(j, prog j)])[length ts := (j, Done a)], s')"
    by (rule run_part [where t = "prog j"]) (use assms(2) in auto)
  finally show ?thesis by simp
qed

section \<open>Rely and guarantee\<close>

text \<open>\<open>safe I R Q t s\<close>: from \<open>s\<close> on, under interference that keeps \<open>I\<close> and moves by \<open>R\<close>, the calls of
  \<open>t\<close> keep \<open>I\<close> and move by \<open>R\<close>, and its result satisfies \<open>Q\<close> ever after.\<close>

primrec safe :: "('s \<Rightarrow> bool) \<Rightarrow> ('s \<Rightarrow> 's \<Rightarrow> bool) \<Rightarrow> ('a \<Rightarrow> 's \<Rightarrow> bool) \<Rightarrow> ('s, 'a) thread \<Rightarrow> 's \<Rightarrow> bool" where
  "safe I R Q (Done a) = (\<lambda>s. \<forall>s'. R s s' \<longrightarrow> I s' \<longrightarrow> Q a s')"
| "safe I R Q (Await f) = (\<lambda>s. \<forall>s'. R s s' \<longrightarrow> I s' \<longrightarrow>
     (case map_prod (safe I R Q) id (f s') of (P, s'') \<Rightarrow> I s'' \<and> R s' s'' \<and> P s''))"

declare safe.simps(2) [simp del]

lemma safe_AwaitI:
  assumes "\<And>s' t s''. R s s' \<Longrightarrow> I s' \<Longrightarrow> f s' = (t, s'') \<Longrightarrow> I s'' \<and> R s' s'' \<and> safe I R Q t s''"
  shows "safe I R Q (Await f) s"
  using assms by (simp add: safe.simps map_prod_def split: prod.split)

lemma safe_AwaitD:
  "safe I R Q (Await f) s \<Longrightarrow> R s s' \<Longrightarrow> I s' \<Longrightarrow> f s' = (t, s'') \<Longrightarrow> I s'' \<and> R s' s'' \<and> safe I R Q t s''"
  by (fastforce simp: safe.simps map_prod_def)

locale interference =
  fixes I :: "'s \<Rightarrow> bool" and R :: "'s \<Rightarrow> 's \<Rightarrow> bool"
  assumes rely_refl: "R s s"
    and rely_trans: "R s s' \<Longrightarrow> R s' s'' \<Longrightarrow> R s s''"
begin

lemma safe_stable: "safe I R Q t s \<Longrightarrow> R s s' \<Longrightarrow> safe I R Q t s'"
proof (cases t)
  case (Await f)
  assume t: "safe I R Q t s" "R s s'"
  show ?thesis unfolding Await
    by (rule safe_AwaitI) (use safe_AwaitD [OF t(1) [unfolded Await] rely_trans [OF t(2)]] in blast)
qed (use rely_trans [of s s'] in auto)

text \<open>Running one thread after another; the second is entered in any state that the first ends in.\<close>

lemma safe_and_then:
  assumes "safe I R P t s" "\<And>a s'. R s s' \<Longrightarrow> I s' \<Longrightarrow> P a s' \<Longrightarrow> safe I R Q (k a) s'" "I s"
  shows "safe I R Q (and_then t k) s"
  using assms
proof (induction t arbitrary: s rule: thread_induct)
  case (Done a)
  then show ?case using rely_refl by simp
next
  case (Await f)
  show ?case unfolding and_then_simps
  proof (rule safe_AwaitI)
    fix s' u s'' assume R: "R s s'" and I: "I s'" and u: "(case f s' of (t, s'') \<Rightarrow> (and_then t k, s'')) = (u, s'')"
    obtain t where f: "f s' = (t, s'')" "u = and_then t k" using u by (cases "f s'") simp
    have step: "I s'' \<and> R s' s'' \<and> safe I R P t s''" by (rule safe_AwaitD [OF Await.prems(1) R I f(1)])
    have "safe I R Q (and_then (fst (f s')) k) s''"
    proof (rule Await.IH)
      show "safe I R P (fst (f s')) s''" using step f by simp
      show "safe I R Q (k a) s3" if "R s'' s3" "I s3" "P a s3" for a s3
        using Await.prems(2) [OF rely_trans [OF R rely_trans [OF _ that(1)]] that(2,3)] step by blast
    qed (use step in blast)
    with step f show "I s'' \<and> R s' s'' \<and> safe I R Q u s''" by simp
  qed
qed

text \<open>A single call: it is made in some later state, and what follows is entered right after it.\<close>

lemma safe_call:
  assumes "\<And>s' a s''. R s s' \<Longrightarrow> I s' \<Longrightarrow> f s' = (a, s'') \<Longrightarrow> I s'' \<and> R s' s'' \<and> safe I R Q (k a) s''"
  shows "safe I R Q (and_then (perform f) k) s"
  unfolding perform_simps and_then_simps
  by (rule safe_AwaitI) (use assms in \<open>auto split: prod.splits\<close>)

lemma safe_map:
  "safe I R P t s \<Longrightarrow> (\<And>a s'. P a s' \<Longrightarrow> Q (f a) s') \<Longrightarrow> safe I R Q (and_then t (\<lambda>a. Done (f a))) s"
proof (induction t arbitrary: s rule: thread_induct)
  case (Await g)
  show ?case unfolding and_then_simps
  proof (rule safe_AwaitI)
    fix s' u s'' assume s': "R s s'" "I s'"
      and u: "(case g s' of (t, s'') \<Rightarrow> (and_then t (\<lambda>a. Done (f a)), s'')) = (u, s'')"
    obtain t where g: "g s' = (t, s'')" "u = and_then t (\<lambda>a. Done (f a))" using u by (cases "g s'") simp
    have "I s'' \<and> R s' s'' \<and> safe I R P t s''" by (rule safe_AwaitD [OF Await.prems(1) s' g(1)])
    then show "I s'' \<and> R s' s'' \<and> safe I R Q u s''"
      using Await.IH [of s' s''] Await.prems(2) g by simp
  qed
qed simp

lemma safe_clock:
  assumes "\<And>s'. R s s' \<Longrightarrow> I s' \<Longrightarrow> safe I R Q (k (now s')) s'"
  shows "safe I R Q (and_then (ask_clock now) k) s"
  unfolding ask_clock_def by (rule safe_call) (use assms rely_refl in auto)

lemma safe_if_some:
  assumes "\<And>x s' a s''. c = Some x \<Longrightarrow> R s s' \<Longrightarrow> I s' \<Longrightarrow> f x s' = (a, s'') \<Longrightarrow>
      I s'' \<and> R s' s'' \<and> safe I R Q (k a) s''"
    and "c = None \<Longrightarrow> safe I R Q (k (Inr ())) s"
  shows "safe I R Q (and_then (if_some c f) k) s"
  using assms by (cases c) (auto simp: if_some_def intro!: safe_call)

text \<open>A thread whose result does not matter, all of whose calls respect the invariant.\<close>

lemma safe_harmless:
  assumes "\<And>s' a s''. I s' \<Longrightarrow> f s' = (a, s'') \<Longrightarrow> I s'' \<and> R s' s''" "\<And>a s'. safe I R Q (k a) s'"
  shows "safe I R Q (and_then (perform f) k) s"
  by (rule safe_call) (use assms in blast)

text \<open>Every interleaving of safe threads.\<close>

definition pool_ok :: "('j \<Rightarrow> 'a \<Rightarrow> 's \<Rightarrow> bool) \<Rightarrow> ('j, 's, 'a) pool \<Rightarrow> bool" where
  "pool_ok Q c \<longleftrightarrow> I (snd c) \<and> (\<forall>(j, t)\<in>set (fst c). safe I R (Q j) t (snd c))"

lemma interleave_ok:
  assumes "interleave starts prog env c c'" "pool_ok Q c"
    and prog: "\<And>j s. starts j \<Longrightarrow> I s \<Longrightarrow> safe I R (Q j) (prog j) s"
    and env: "\<And>s s'. env s s' \<Longrightarrow> I s \<Longrightarrow> I s' \<and> R s s'"
  shows "pool_ok Q c'"
  using assms(1,2)
proof (induction rule: interleave.induct)
  case (advance i ts j f s t s')
  have "(j, Await f) \<in> set ts" using advance.hyps(1,2) by (metis nth_mem)
  then have "safe I R (Q j) (Await f) s" using advance.prems by (auto simp: pool_ok_def)
  then have step: "I s'" "R s s'" "safe I R (Q j) t s'"
    using safe_AwaitD [of I R _ f s s t s', OF _ rely_refl] advance.hyps(3) advance.prems
    by (auto simp: pool_ok_def)
  have "safe I R (Q j') t' s'" if "(j', t') \<in> set (ts[i := (j, t)])" for j' t'
  proof -
    have "(j', t') = (j, t) \<or> (j', t') \<in> set ts" using that set_update_subset_insert [of ts i "(j, t)"] by blast
    moreover have "safe I R (Q j') t' s" if "(j', t') \<in> set ts"
      using that advance.prems by (auto simp: pool_ok_def)
    ultimately show ?thesis using step(3) safe_stable [OF _ step(2)] by blast
  qed
  with step(1) show ?case by (auto simp: pool_ok_def)
next
  case (elapse s s' ts)
  then have "I s' \<and> R s s'" by (intro env) (auto simp: pool_ok_def)
  with elapse show ?case using safe_stable by (fastforce simp: pool_ok_def)
qed (use prog in \<open>auto simp: pool_ok_def\<close>)

lemma finished_ok: "pool_ok Q (ts, s) \<Longrightarrow> (j, Done a) \<in> set ts \<Longrightarrow> Q j a s"
  using rely_refl by (auto simp: pool_ok_def)

end

end
