(* ===== verification/ServiceSafety.thy ===== *)
theory ServiceSafety
  imports ScannerLaws ServiceThreads Interference
begin

text \<open>
  The services as threads under interference, from the laws of the contracts alone. The relation
  of rely and guarantee is that rows stay, with their ids and URLs, and that a hash once set
  never changes; the invariant is the one of the system. Every call of a service keeps both.
\<close>

section \<open>The rows evolve\<close>

definition evolves :: "'s store_view \<Rightarrow> 's \<Rightarrow> 's \<Rightarrow> bool" where
  "evolves V s s' \<longleftrightarrow> (\<forall>u\<in>set (sv_rows V s). \<exists>u'\<in>set (sv_rows V s'). row_evolves u u')"

lemma row_evolves_refl [simp, intro]: "row_evolves u u"
  by (simp add: row_evolves_def)

lemma row_evolves_trans: "row_evolves u v \<Longrightarrow> row_evolves v w \<Longrightarrow> row_evolves u w"
  by (auto simp: row_evolves_def)

interpretation evolving: interference "system_ok V same lib b" "evolves V" for V same lib b
proof
  show "evolves V s s" for s by (auto simp: evolves_def)
  show "evolves V s s''" if "evolves V s s'" "evolves V s' s''" for s s' s''
    using that row_evolves_trans unfolding evolves_def by meson
qed

lemmas evolves_trans = evolving.rely_trans

lemma same_rows_evolves: "sv_rows V s' = sv_rows V s \<Longrightarrow> evolves V s s'"
  by (auto simp: evolves_def)

lemma keeps_evolve: "keeps V s s' \<Longrightarrow> evolves V s s'"
  unfolding evolves_def by (intro ballI) (rule keeps_evolves)

text \<open>A thread of the system, and the result it promises.\<close>

abbreviation sys_safe where
  "sys_safe V same lib b \<equiv> safe (system_ok V same lib b) (evolves V)"

lemma safe_keeps:
  assumes "\<And>s. keeps V s (snd (f s))"
    and "\<And>s' a s''. evolves V s s' \<Longrightarrow> system_ok V same lib b s' \<Longrightarrow> f s' = (a, s'') \<Longrightarrow> keeps V s' s'' \<Longrightarrow>
      evolves V s s'' \<Longrightarrow> system_ok V same lib b s'' \<Longrightarrow> sys_safe V same lib b Q (k a) s''"
  shows "sys_safe V same lib b Q (and_then (perform f) k) s"
proof (rule evolving.safe_call)
  fix s' a s'' assume s': "evolves V s s'" "system_ok V same lib b s'" and f: "f s' = (a, s'')"
  have k: "keeps V s' s''" using assms(1) [of s'] f by simp
  have "system_ok V same lib b s''" "evolves V s' s''" using keeps_system_ok [OF k s'(2)] keeps_evolve [OF k] by auto
  with assms(2) [OF s' f k] evolves_trans [OF s'(1)] show
    "system_ok V same lib b s'' \<and> evolves V s' s'' \<and> sys_safe V same lib b Q (k a) s''" by blast
qed

lemma safe_perform_keeps:
  assumes "\<And>s. keeps V s (snd (f s))" "\<And>a s. Q a s"
  shows "sys_safe V same lib b Q (perform f) s"
proof -
  have "sys_safe V same lib b Q (and_then (perform f) Done) s"
    by (rule safe_keeps [OF assms(1)]) (simp add: assms(2))
  then show ?thesis by simp
qed

lemma safe_if_some_keeps:
  assumes "\<And>x s. c = Some x \<Longrightarrow> keeps V s (snd (f x s))" "\<And>a s. sys_safe V same lib b Q (k a) s"
  shows "sys_safe V same lib b Q (and_then (if_some c f) k) s"
  using assms by (cases c) (auto simp: if_some_def intro: safe_keeps)

section \<open>Redirects\<close>

context redirector
begin

lemma answers_stable:
  assumes "answers s h u" "evolves V s s'" "\<not> same [] h"
  shows "answers s' h u"
proof -
  obtain r where r: "r \<in> set (sv_rows V s)" "same (u_Hash r) h" "u_OriginalURL r = u_OriginalURL u"
    using assms(1) by (auto simp: answers_def)
  obtain r' where r': "r' \<in> set (sv_rows V s')" "row_evolves r r'" using assms(2) r(1) by (auto simp: evolves_def)
  then have "same (u_Hash r') h" using r(2) assms(3) by (auto simp: row_evolves_def)
  with r' r(3) show ?thesis by (auto simp: answers_def row_evolves_def)
qed

definition resolved :: "string \<Rightarrow> resolve_result \<Rightarrow> 's \<Rightarrow> bool" where
  "resolved h a s \<longleftrightarrow> a \<noteq> (None, None) \<and> (\<forall>u. a = (Some u, None) \<longrightarrow> answers s h u)"

lemma safe_resolved:
  "\<not> same [] h \<Longrightarrow> resolved h a s \<Longrightarrow> sys_safe V same lib b (resolved h) (Done a) s"
  using answers_stable by (auto simp: resolved_def)

text \<open>The write of a row that was read before: the row may have changed, its hash and URL have not.\<close>

lemma set_of_row:
  assumes "system_ok V same lib b s" "v \<in> set (sv_rows V s0)" "evolves V s0 s" "same (u_Hash v) h" "\<not> same [] h"
    and "utf8_valid (u_OriginalURL v)" "utf8_valid st"
  shows "system_ok V same lib b (snd (Set h (u_OriginalURL v) st (u_ID v) ttl s))"
proof -
  obtain v' where v': "v' \<in> set (sv_rows V s)" "row_evolves v v'" using assms(2,3) by (auto simp: evolves_def)
  then have "same (u_Hash v') h" using assms(4,5) by (auto simp: row_evolves_def)
  then show ?thesis
    using set_system_ok [OF assms(1) v'(1) _ assms(5) _ assms(7)] v'(2) assms(6) by (simp add: row_evolves_def)
qed

lemma resolve_row_safe:
  assumes w: "wired svc" and h: "\<not> same [] h"
    and v: "v \<in> set (sv_rows V s)" "row_key v = row_key u" "same (u_Hash v) h"
    and utf8: "utf8_valid (u_OriginalURL u)" "utf8_valid (u_VTStatus u)"
  shows "sys_safe V same lib b (resolved h) (resolve_row_thread clk svc h u) s"
proof -
  let ?safe = "sys_safe V same lib b (resolved h)"
  have bad: "?safe (Done (x, Some e)) s'" for x e s' by (simp add: resolved_def)
  have u: "u_OriginalURL v = u_OriginalURL u" "u_ID v = u_ID u" using v(2) by (simp_all add: row_key_def)
  have good: "?safe (Done (Some u, None)) s'" if "evolves V s s'" for s'
  proof (rule safe_resolved [OF h])
    have "answers s h u" using v u by (auto simp: answers_def)
    then show "resolved h (Some u, None) s'" using answers_stable [OF _ that h] by (simp add: resolved_def)
  qed
  have del: "?safe (and_then (if_some (rs_cache svc) (\<lambda>c. ch_Delete c h)) (\<lambda>_. Done (Some u, Some e))) s'" for e s'
    by (rule safe_if_some_keeps) (use w del_keeps bad in \<open>auto simp: wired_def\<close>)
  have set: "?safe (and_then (if_some (rs_cache svc)
      (\<lambda>c. ch_Set c h (u_OriginalURL u) (u_VTStatus u) (u_ID u) (rs_cacheTTL svc))) (\<lambda>_. Done (Some u, None))) s1"
    if s1: "evolves V s s1" for s1
  proof (rule evolving.safe_if_some)
    fix c s2 a s3
    assume c: "rs_cache svc = Some c" and s2: "evolves V s1 s2" "system_ok V same lib b s2"
      and f: "ch_Set c h (u_OriginalURL u) (u_VTStatus u) (u_ID u) (rs_cacheTTL svc) s2 = (a, s3)"
    have "s3 = snd (Set h (u_OriginalURL v) (u_VTStatus u) (u_ID v) (rs_cacheTTL svc) s2)"
      using w c f u by (simp add: wired_def)
    moreover have r: "evolves V s s2" by (rule evolves_trans [OF s1 s2(1)])
    ultimately have "system_ok V same lib b s3" "evolves V s2 s3"
      using set_of_row [OF s2(2) v(1) r v(3) h] utf8 u by (auto simp: set_rows intro: same_rows_evolves)
    then show "system_ok V same lib b s3 \<and> evolves V s2 s3 \<and> ?safe (Done (Some u, None)) s3"
      using good [OF evolves_trans [OF r]] by blast
  qed (use good [OF s1] in simp)
  show ?thesis
    unfolding resolve_row_thread_def by (rule evolving.safe_clock) (simp del: safe.simps add: bad del set)
qed

lemma resolve_db_safe:
  assumes w: "wired svc" and h: "\<not> same [] h"
  shows "sys_safe V same lib b (resolved h) (resolve_db_thread clk svc h) s"
  unfolding resolve_db_thread_def
proof (rule safe_keeps)
  have repo: "ur_FindByHash (rs_repo svc) = FindByHash" using w by (simp add: wired_def)
  show "keeps V s (snd (ur_FindByHash (rs_repo svc) h s))" for s by (simp add: repo find_keeps)
  fix s1 q s2
  assume ok: "system_ok V same lib b s1" and f: "ur_FindByHash (rs_repo svc) h s1 = (q, s2)"
  show "sys_safe V same lib b (resolved h) (case q of
      Inl e \<Rightarrow> Done (None, Some (Wrapf ''redirector: find: %w'' [] e))
    | Inr u \<Rightarrow> resolve_row_thread clk svc h u) s2"
  proof (cases q)
    case Inl then show ?thesis by (simp add: resolved_def)
  next
    case (Inr u)
    obtain v where v: "v \<in> set (sv_rows V s2)" "row_key v = row_key u" "same (u_Hash v) h"
      using find_row_after [of h s1 u s2] f Inr unfolding repo by blast
    have "sv_ok V s1" using ok by (simp add: system_ok_def)
    then have "utf8_valid (u_OriginalURL u) \<and> utf8_valid (u_VTStatus u)"
      using row_texts find_row f Inr unfolding repo by blast
    then show ?thesis using resolve_row_safe [OF w h v] Inr by simp
  qed
qed

text \<open>A visit to a hash, with any calls of others in between, keeps the invariant and leads to a URL of
  a row that the hash selects.\<close>

lemma resolve_safe:
  assumes w: "wired svc" and h: "\<not> same [] h"
  shows "sys_safe V same lib b (resolved h) (resolve_thread clk svc h) s"
proof (cases "rs_cache svc")
  case None
  then show ?thesis using resolve_db_safe [OF assms] by (simp add: resolve_thread_def)
next
  case (Some c)
  then have c: "c = \<lparr>ch_Get = Get, ch_Set = Set, ch_Delete = Delete\<rparr>" using w by (simp add: wired_def)
  have del: "sys_safe V same lib b (resolved h) (and_then (perform (ch_Delete c h)) (\<lambda>_. Done (x, Some e))) s'" for x e s'
    by (rule safe_keeps) (simp_all add: c del_keeps resolved_def)
  show ?thesis
    unfolding resolve_thread_def Some option.case
  proof (rule safe_keeps)
    show "keeps V s (snd (ch_Get c h s))" for s by (simp add: c get_keeps)
    fix s1 q s2
    assume ok: "system_ok V same lib b s1" and f: "ch_Get c h s1 = (q, s2)" and k: "keeps V s1 s2"
    have hit: "sys_safe V same lib b (resolved h) (Done (Some u, None)) s2"
      if "q = Inr (orig, st, i)" "u_OriginalURL u = orig" for orig st i u
    proof -
      have "sv_entry V s1 h = Some (orig, st)" using get_hit f that(1) by (simp add: c)
      then have "answers s1 h u" using ok that(2) by (auto simp: system_ok_def coherent_def answers_def)
      then have "answers s2 h u" by (rule answers_stable [OF _ keeps_evolve [OF k] h])
      then show ?thesis by (intro safe_resolved [OF h]) (simp add: resolved_def)
    qed
    show "sys_safe V same lib b (resolved h) (case q of
        Inl e \<Rightarrow> resolve_db_thread clk svc h
      | Inr (originalURL, vtStatus, urlID) \<Rightarrow>
          if vtStatus = ScanMalicious
          then and_then (perform (ch_Delete c h)) (\<lambda>_.
            Done (Some (zero_url\<lparr>u_Hash := h, u_VTStatus := vtStatus\<rparr>), Some (Sentinel ErrURLMalicious)))
          else Done (Some (zero_url\<lparr>u_Hash := h, u_OriginalURL := originalURL, u_ID := urlID,
                                    u_VTStatus := vtStatus\<rparr>), None)) s2"
      using hit del resolve_db_safe [OF w h] by (auto simp del: safe.simps split: sum.split)
  qed
qed

end

section \<open>Reports, statistics and scans\<close>

context reporter
begin

lemma report_count_safe: "sys_safe V same lib b (\<lambda>_ _. True) (report_count_thread (service n) h i) s"
  unfolding report_count_thread_def
  by (rule safe_keeps)
    (auto simp: service_def count_keeps split: sum.split intro!: safe_keeps status_keeps del_keeps)

lemma report_safe: "sys_safe V same lib b (\<lambda>_ _. True) (report_thread (service n) h ip reason) s"
proof -
  have sel: "ru_FindByHash (rt_urlRepo (service n)) = FindByHash" "rr_Insert (rt_reportRepo (service n)) = Insert"
    by (simp_all add: service_def)
  show ?thesis
    unfolding report_thread_def sel
    by (rule safe_keeps [OF find_keeps])
      (auto simp: Let_def split: sum.split intro!: safe_keeps insert_keeps report_count_safe)
qed

end

context verdict_cache
begin

lemma scan_and_store_safe:
  "sys_safe V same lib b (\<lambda>(r, _) _. is_verdict (sr_Status r)) (scan_and_store_thread (cached ttl) (Some dl) url) s"
proof -
  have sel: "sc_Scan (cs_scan (cached ttl)) = Scan" "rw_SetRaw (cs_inner (cached ttl)) = SetRaw"
    by (simp_all add: cached_def)
  show ?thesis
    unfolding scan_and_store_thread_def sel
  proof (rule safe_keeps [OF inner_keeps])
    fix s1 x s2 assume f: "Scan (Some dl) url s1 = (x, s2)"
    obtain r e where x: "x = (r, e)" by (cases x)
    have v: "scan_verdict r" using inner_verdict [of dl url s1] f x by simp
    then have "is_verdict (sr_Status r)" by (simp add: scan_verdict_def)
    then show "sys_safe V same lib b (\<lambda>(r, _) _. is_verdict (sr_Status r)) (case x of (result, err) \<Rightarrow>
        case marshal_result result of None \<Rightarrow> Done (result, err)
        | Some data \<Rightarrow> and_then (perform (SetRaw (cacheKey url) data (cs_ttl (cached ttl)))) (\<lambda>_. Done (result, err))) s2"
      using raw_set_keeps [OF v] by (auto simp: x split: option.split intro!: safe_keeps)
  qed
qed

lemma cached_scan_safe:
  "sys_safe V same lib b (\<lambda>(r, _) _. is_verdict (sr_Status r)) (cached_scan_thread uc (cached ttl) (Some dl) url) s"
proof -
  have sel: "rw_GetRaw (cs_inner (cached ttl)) = GetRaw" by (simp add: cached_def)
  show ?thesis
    unfolding cached_scan_thread_def sel
  proof (rule safe_keeps [OF raw_get_keeps])
    fix s1 q s2 assume ok: "system_ok V same lib b s1" and f: "GetRaw (cacheKey url) s1 = (q, s2)"
    have "sv_ok V s1" using ok by (simp add: system_ok_def)
    then have "is_verdict (sr_Status r)" if "q = Inr data" "unmarshal_result uc data = Some r" for data r
      using raw_get_verdict f that by blast
    then show "sys_safe V same lib b (\<lambda>(r, _) _. is_verdict (sr_Status r)) (case q of
        Inl _ \<Rightarrow> scan_and_store_thread (cached ttl) (Some dl) url
      | Inr data \<Rightarrow> (case unmarshal_result uc data of Some result \<Rightarrow> Done (result, None)
          | None \<Rightarrow> scan_and_store_thread (cached ttl) (Some dl) url)) s2"
      using scan_and_store_safe by (auto split: sum.split option.split)
  qed
qed

end

context rescan_cycle
begin

lemma process_safe:
  assumes "rescans r" shows "sys_safe V same lib b (\<lambda>_ _. True) (process_thread tm r (Some dl) u) s"
proof -
  have sel: "sc_Scan (re_scanner r) = Scan" "rq_UpdateVTResult (re_urlRepo r) = UpdateVTResult" "re_cache_Delete r = Delete"
    using assms by (simp_all add: rescans_def)
  show ?thesis
    unfolding process_thread_def sel
    by (rule safe_keeps [OF inner_keeps])
      (auto split: prod.split intro!: safe_keeps [OF result_keeps] safe_if_some_keeps del_keeps safe_perform_keeps wait_keeps)
qed

lemma rescan_safe:
  assumes "rescans r" "system_ok V same lib b s"
  shows "sys_safe V same lib b (\<lambda>_ _. True) (rescan_thread tm r (Some dl) us) s"
  using assms(2)
proof (induction us arbitrary: s)
  case (Cons u us)
  show ?case
    unfolding rescan_thread.simps
  proof (rule evolving.safe_and_then [OF process_safe [OF assms(1)] _ Cons.prems])
    show "sys_safe V same lib b (\<lambda>_ _. True) (and_then (perform (\<lambda>s. (tm_cancelled tm (Some dl) s, s)))
        (\<lambda>cancelled. if cancelled then Done () else rescan_thread tm r (Some dl) us)) s'" for s'
      by (rule safe_keeps) (use Cons.IH in auto)
  qed
qed simp

lemma cycle_safe:
  assumes "rescans r" shows "sys_safe V same lib b (\<lambda>_ _. True) (cycle_thread tm r (Some dl)) s"
proof -
  have sel: "rq_FindByVTStatus (re_urlRepo r) = FindByVTStatus" using assms by (simp add: rescans_def)
  show ?thesis
    unfolding cycle_thread_def sel
    by (rule safe_keeps [OF status_keeps]) (auto intro: rescan_safe [OF assms] split: sum.split)
qed

end

section \<open>Shortening\<close>

text \<open>What \<open>Shorten\<close> returns is in the table: the row may meanwhile have got its hash or another status.
  Its URL is the one that was asked for, and there is never neither a row nor an error.\<close>

definition recorded :: "'s store_view \<Rightarrow> 's \<Rightarrow> url \<Rightarrow> bool" where
  "recorded V s u \<longleftrightarrow> (\<exists>r\<in>set (sv_rows V s). row_evolves u r)"

lemma recorded_stable: "recorded V s u \<Longrightarrow> evolves V s s' \<Longrightarrow> recorded V s' u"
  unfolding recorded_def evolves_def by (meson row_evolves_trans)

definition shortened :: "'s store_view \<Rightarrow> (string \<Rightarrow> bool) \<Rightarrow> shorten_result \<Rightarrow> 's \<Rightarrow> bool" where
  "shortened V asked a s \<longleftrightarrow> (\<forall>r. a \<noteq> (None, r, None)) \<and>
     (\<forall>u r. a = (Some u, r, None) \<longrightarrow> recorded V s u \<and> asked (u_OriginalURL u))"

lemma shortened_err [simp]: "shortened V asked (shorten_err r e) s" "shortened V asked (x, r, Some e) s"
  by (simp_all add: shortened_def shorten_err_def)

lemma safe_shortened: "shortened V asked a s \<Longrightarrow> sys_safe V same lib b (shortened V asked) (Done a) s"
  using recorded_stable by (auto simp: shortened_def)

context shortener
begin

lemma evolved_row:
  assumes "r \<in> set (sv_rows V s)" "evolves V s s'"
  obtains r' where "r' \<in> set (sv_rows V s')" "u_ID r' = u_ID r" "u_OriginalURL r' = u_OriginalURL r"
    "u_Hash r \<in> {[], u_Hash r'}"
  using assms by (auto simp: evolves_def row_evolves_def)

text \<open>Caching a URL whose row has its hash.\<close>

lemma set_safe:
  assumes w: "wired svc" and r: "r \<in> set (sv_rows V s)" "row_evolves u r" "u_Hash u = Encode (u_ID u)"
    and st: "utf8_valid (u_VTStatus u)" and asked: "asked (u_OriginalURL u)"
  shows "sys_safe V same lib b (shortened V asked) (and_then (if_some (sh_cache svc)
    (\<lambda>c. ch_Set c (Encode (u_ID u)) (u_OriginalURL u) (u_VTStatus u) (u_ID u) ttl)) (\<lambda>_. Done (Some u, result, None))) s"
proof (rule evolving.safe_if_some)
  have rec: "recorded V s u" using r by (auto simp: recorded_def)
  have fin: "sys_safe V same lib b (shortened V asked) (Done (Some u, result, None)) s'" if "evolves V s s'" for s'
    by (rule safe_shortened) (use recorded_stable [OF rec that] asked in \<open>simp add: shortened_def\<close>)
  show "sys_safe V same lib b (shortened V asked) (Done (Some u, result, None)) s"
    by (rule fin) (rule evolving.rely_refl)
  fix c s1 a s2
  assume c: "sh_cache svc = Some c" and s1: "evolves V s s1" "system_ok V same lib b s1"
    and f: "ch_Set c (Encode (u_ID u)) (u_OriginalURL u) (u_VTStatus u) (u_ID u) ttl s1 = (a, s2)"
  obtain r' where "r' \<in> set (sv_rows V s1)" "row_evolves r r'" using r(1) s1(1) by (auto simp: evolves_def)
  then have r': "r' \<in> set (sv_rows V s1)" "row_evolves u r'" using row_evolves_trans [OF r(2)] by simp_all
  have "Encode (u_ID u) \<noteq> []" by (rule Encode_nonempty)
  then have e: "u_ID r' = u_ID u" "u_OriginalURL r' = u_OriginalURL u" "u_Hash r' = Encode (u_ID u)"
    using r'(2) r(3) by (auto simp: row_evolves_def)
  have "sv_ok V s1" using s1(2) by (simp add: system_ok_def)
  then have "utf8_valid (u_OriginalURL r')" using row_utf8 r'(1) by blast
  then have "system_ok V same lib b (snd (Set (Encode (u_ID u)) (u_OriginalURL u) (u_VTStatus u) (u_ID u) ttl s1))"
    using set_system_ok [OF s1(2) r'(1), of "Encode (u_ID u)" "u_VTStatus u" ttl] r' e same_hash same_empty st by simp
  moreover have s2: "s2 = snd (Set (Encode (u_ID u)) (u_OriginalURL u) (u_VTStatus u) (u_ID u) ttl s1)"
    using w c f by (simp add: wired_def)
  moreover have "evolves V s1 s2" unfolding s2 by (rule same_rows_evolves) (rule set_rows)
  ultimately show "system_ok V same lib b s2 \<and> evolves V s1 s2 \<and>
      sys_safe V same lib b (shortened V asked) (Done (Some u, result, None)) s2"
    using fin [OF evolves_trans [OF s1(1)]] by blast
qed

lemma finish_safe:
  assumes w: "wired svc" and ok: "system_ok V same lib b s"
    and r: "r \<in> set (sv_rows V s)" "u_ID r = u_ID u" "u_OriginalURL r = n" and orig: "u_OriginalURL u = n"
    and st: "utf8_valid (sr_Status result)" and asked: "asked n"
  shows "sys_safe V same lib b (shortened V asked) (shorten_finish_thread svc n result u) s"
proof -
  let ?h = "Encode (u_ID u)" and ?u = "u\<lparr>u_Hash := Encode (u_ID u), u_VTStatus := sr_Status result\<rparr>"
  have repo: "rp_UpdateHash (sh_repo svc) = UpdateHash" "rp_UpdateVTResult (sh_repo svc) = UpdateVTResult"
    using w by (simp_all add: wired_def)
  have after: "sys_safe V same lib b (shortened V asked) (and_then (perform (UpdateVTResult (u_ID u) result)) (\<lambda>_.
      and_then (if_some (sh_cache svc) (\<lambda>c. ch_Set c ?h n (sr_Status result) (u_ID u) ttl)) (\<lambda>_. Done (Some ?u, result, None)))) s1"
    if x: "x \<in> set (sv_rows V s1)" "row_evolves ?u x" for x s1 ttl
  proof (rule safe_keeps [OF result_keeps])
    fix s2 assume "evolves V s1 s2"
    moreover from this obtain y where "y \<in> set (sv_rows V s2)" "row_evolves x y" using x(1) by (auto simp: evolves_def)
    ultimately show "sys_safe V same lib b (shortened V asked) (and_then (if_some (sh_cache svc)
        (\<lambda>c. ch_Set c ?h n (sr_Status result) (u_ID u) ttl)) (\<lambda>_. Done (Some ?u, result, None))) s2"
      using set_safe [OF w, of y s2 ?u] row_evolves_trans [OF x(2)] st orig asked by simp
  qed
  show ?thesis
    unfolding shorten_finish_thread_def Let_def repo
  proof (rule evolving.safe_call)
    fix s1 q s2 assume s1: "evolves V s s1" "system_ok V same lib b s1" and f: "UpdateHash (u_ID u) ?h s1 = (q, s2)"
    obtain r1 where r1: "r1 \<in> set (sv_rows V s1)" "u_ID r1 = u_ID u" "u_OriginalURL r1 = n"
      using evolved_row [OF r(1) s1(1)] r(2,3) by auto
    have "system_ok V same lib b s2" "evolves V s1 s2"
      using hash_system_ok [OF s1(2) r1(1)] hash_evolves [OF s1(2) r1(1)] r1(2) f by (simp_all add: evolves_def)
    moreover have "\<exists>x\<in>set (sv_rows V s2). row_evolves ?u x" if "q = Inr ()"
    proof -
      have "r1\<lparr>u_Hash := ?h\<rparr> \<in> set (sv_rows V s2)"
        using hash_done [of "u_ID u" ?h s1 s2] f that r1(1,2) by auto
      then show ?thesis by (rule bexI [rotated]) (simp add: row_evolves_def r1 orig)
    qed
    ultimately show "system_ok V same lib b s2 \<and> evolves V s1 s2 \<and> sys_safe V same lib b (shortened V asked) (case q of
        Inl e \<Rightarrow> Done (shorten_err zero_scan_result (Wrapf ''shortener: update hash: %w'' [] e))
      | Inr _ \<Rightarrow> and_then (perform (UpdateVTResult (u_ID u) result)) (\<lambda>_.
          and_then (if_some (sh_cache svc) (\<lambda>c. ch_Set c ?h n (u_VTStatus ?u) (u_ID ?u)
            (days_duration (sh_urlExpirationDays svc)))) (\<lambda>_. Done (Some ?u, result, None)))) s2"
      using after by (cases q) auto
  qed
qed

lemma create_safe:
  assumes w: "wired svc" and valid: "ValidateURL (lib_uc lib) (lib_idna lib) n b = Inr ()"
    and st: "utf8_valid (sr_Status result)" and asked: "asked n"
  shows "sys_safe V same lib b (shortened V asked) (shorten_create_thread clk svc n result) s"
proof -
  have repo: "rp_Create (sh_repo svc) = Create" using w by (simp add: wired_def)
  have create: "sys_safe V same lib b (shortened V asked) (and_then (perform (Create u)) (\<lambda>r. case r of
      Inl e \<Rightarrow> Done (shorten_err zero_scan_result (Wrapf ''shortener: create: %w'' [] e))
    | Inr u' \<Rightarrow> shorten_finish_thread svc n result u')) s1"
    if u: "u = zero_url\<lparr>u_OriginalURL := n, u_ExpiresAt := e\<rparr>" for u e s1
  proof (rule evolving.safe_call)
    fix s2 q s3 assume s2: "system_ok V same lib b s2" and f: "Create u s2 = (q, s3)"
    have h: "u_Hash u = []" "u_OriginalURL u = n" by (simp_all add: u zero_url_def)
    have ok: "system_ok V same lib b s3" using create_system_ok [OF s2 h(1)] valid f h(2) by simp
    have "evolves V s2 s3" using create_rows [of u s2] f by (auto simp: evolves_def)
    moreover have "sys_safe V same lib b (shortened V asked) (shorten_finish_thread svc n result u') s3" if q: "q = Inr u'" for u'
    proof -
      have "sv_ok V s2" using s2 by (simp add: system_ok_def)
      then obtain r where r: "u' = u\<lparr>u_ID := u_ID u'\<rparr>" "sv_rows V s3 = sv_rows V s2 @ [r]" "u_ID r = u_ID u'" "u_OriginalURL r = n"
        using create_done [of s2 u u' s3] f q h(2) by auto
      have "u_OriginalURL u' = n" by (subst r(1)) (simp add: h(2))
      with r show ?thesis by (intro finish_safe [OF w ok, of r] st asked) simp_all
    qed
    ultimately show "system_ok V same lib b s3 \<and> evolves V s2 s3 \<and> sys_safe V same lib b (shortened V asked) (case q of
        Inl e \<Rightarrow> Done (shorten_err zero_scan_result (Wrapf ''shortener: create: %w'' [] e))
      | Inr u' \<Rightarrow> shorten_finish_thread svc n result u') s3"
      using ok by (cases q) auto
  qed
  show ?thesis
    unfolding shorten_create_thread_def repo Let_def
    using create by (auto intro: evolving.safe_clock)
qed

text \<open>Shortening, with any calls of others in between, keeps the invariant, and what it returns is recorded.\<close>

lemma shorten_safe:
  assumes w: "wired svc" and b: "b = sh_baseURL svc" and ok: "system_ok V same lib b s"
    and scan: "\<And>dl url s. sys_safe V same lib b (\<lambda>(r, _) _. is_verdict (sr_Status r)) (scan (Some dl) url) s"
    and asked: "\<And>n x. NormalizeURL (lib_uc lib) url = Inr n \<Longrightarrow> same x n \<Longrightarrow> asked x"
  shows "sys_safe V same lib b (shortened V asked) (shorten_thread scan lib clk svc ctx url) s"
proof (cases "NormalizeURL (lib_uc lib) url")
  case Inl then show ?thesis by (simp add: shorten_thread_def)
next
  case (Inr n)
  have repo: "rp_FindByOriginalURL (sh_repo svc) = FindByOriginalURL" using w by (simp add: wired_def)
  show ?thesis
  proof (cases "ValidateURL (lib_uc lib) (lib_idna lib) n b")
    case Inl then show ?thesis using Inr by (simp add: shorten_thread_def b)
  next
    case valid: (Inr x)
    have n: "asked n" by (rule asked [OF Inr same_hash])
    have new: "sys_safe V same lib b (shortened V asked) (shorten_new_thread scan clk svc ctx n) s1" for s1
      unfolding shorten_new_thread_def
    proof (rule evolving.safe_clock, rule evolving.safe_and_then)
      fix s2 assume "system_ok V same lib b s2"
      then show "system_ok V same lib b s2" .
      show "sys_safe V same lib b (\<lambda>(r, _) _. is_verdict (sr_Status r))
          (scan (WithTimeout ctx (clk s2) (sh_vtTimeout svc)) n) s2"
        by (simp add: WithTimeout_def scan)
    qed (use create_safe [OF w] valid verdict_utf8 n in \<open>auto split: prod.splits\<close>)
    show ?thesis
      unfolding shorten_thread_def Inr sum.case b [symmetric] valid repo
    proof (rule safe_keeps [OF original_keeps])
      fix s1 q s2 assume f: "FindByOriginalURL n s1 = (q, s2)" and k: "keeps V s1 s2"
      have "evolves V s1 s2" by (rule keeps_evolve [OF k])
      then have "recorded V s2 u \<and> asked (u_OriginalURL u)" if "q = Inr u" for u
        using original_row [of n s1 u s2] asked [OF Inr same_original [of n s1 u s2]] f that recorded_stable [of V s1 u s2]
        by (auto simp: recorded_def)
      then show "sys_safe V same lib b (shortened V asked) (case q of
          Inl e \<Rightarrow> if \<not> err_is e ErrURLNotFound
            then Done (shorten_err zero_scan_result (Wrapf ''shortener: dedup check: %w'' [] e))
            else shorten_new_thread scan clk svc ctx n
        | Inr existing \<Rightarrow> Done (Some existing, zero_scan_result\<lparr>sr_Status := u_VTStatus existing\<rparr>, None)) s2"
        using new by (auto intro!: safe_shortened simp: shortened_def shorten_err_def simp del: safe.simps split: sum.split)
    qed
  qed
qed

end

end
