(* ===== verification/Blocking.thy ===== *)
theory Blocking
  imports FaultFree
begin

text \<open>
  Lookups by hash, reports and redirects when every call is answered: a hash selects at most
  one row, what a report does to the tables, and what the redirector answers afterwards.
\<close>

section \<open>The row of a hash\<close>

definition row_of :: "env \<Rightarrow> world \<Rightarrow> string \<Rightarrow> url option" where
  "row_of env w h = find (\<lambda>u. collate env (u_Hash u) = collate env h) (w_urls w)"

lemma filter_key_single:
  "distinct (map f xs) \<Longrightarrow> filter (\<lambda>x. f x = k) xs = (case find (\<lambda>x. f x = k) xs of None \<Rightarrow> [] | Some x \<Rightarrow> [x])"
proof (induction xs)
  case (Cons x xs)
  show ?case
  proof (cases "f x = k")
    case True
    then have "\<forall>y\<in>set xs. f y \<noteq> k" using Cons.prems by (auto simp: image_iff)
    then have "filter (\<lambda>y. f y = k) xs = []" by (simp add: filter_empty_conv)
    with True show ?thesis by simp
  next
    case False
    then show ?thesis using Cons by simp
  qed
qed simp

lemma select_hash:
  assumes "db_ok env w"
  shows "select_urls env (ByHash h) w = (case row_of env w h of None \<Rightarrow> [] | Some u \<Rightarrow> [u])"
proof -
  have "distinct (map (\<lambda>u. collate env (u_Hash u)) (w_urls w))" using assms by (simp add: db_ok_def urls_ok_def)
  then show ?thesis by (auto simp: row_of_def filter_key_single split: option.split)
qed

lemma find_hash_row:
  assumes "no_faults env" "db_ok env w"
  shows "FindByHash (mysql env) h w =
    (case row_of env w h of None \<Rightarrow> Inl (Sentinel ErrURLNotFound) | Some u \<Rightarrow> Inr u, tick w)"
  unfolding find_hash_calls [OF assms(1)] select_hash [OF assms(2)] by (simp split: option.split)

lemma row_of_in: "row_of env w h = Some u \<Longrightarrow> u \<in> set (w_urls w) \<and> same_text env (u_Hash u) h"
  unfolding row_of_def same_text_def by (drule find_Some_in) simp

lemma row_of_tick [simp]: "row_of env (tick w) h = row_of env w h"
  by (simp add: row_of_def)

text \<open>Updating the row of an id.\<close>

lemma row_of_update:
  assumes "\<And>u. u_Hash (f u) = u_Hash u"
  shows "row_of env (update_url i f w) h = map_option (\<lambda>u. if u_ID u = i then f u else u) (row_of env w h)"
proof -
  have "find (\<lambda>u. collate env (u_Hash u) = k) (map (\<lambda>u. if u_ID u = i then f u else u) us) =
    map_option (\<lambda>u. if u_ID u = i then f u else u) (find (\<lambda>u. collate env (u_Hash u) = k) us)" for us k
    by (induction us) (auto simp: assms)
  then show ?thesis by (simp add: row_of_def w_urls_update)
qed

section \<open>A report\<close>

lemma str_contains_middle: "str_contains (a @ p @ b) p"
proof -
  have "has_prefix (p @ b) p" by (simp add: has_prefix_def)
  then have base: "str_index (p @ b) p \<noteq> None" by (cases "p @ b") auto
  have "str_index (a @ p @ b) p \<noteq> None"
  proof (induction a)
    case (Cons x a) then show ?case by auto
  qed (use base in simp)
  then show ?thesis by (simp add: str_contains_def)
qed

lemma duplicate_text: "isDuplicateEntry (duplicate_error v k)"
proof -
  have "str_contains (''Error 1062 (23000): '' @ ''Duplicate entry'' @ r) ''Duplicate entry''" for r
    by (rule str_contains_middle)
  from this [of "'' '' @ [char_of (39 :: nat)] @ v @ [char_of (39 :: nat)] @ '' for key '' @
    [char_of (39 :: nat)] @ k @ [char_of (39 :: nat)]"]
  show ?thesis by (simp add: isDuplicateEntry_def duplicate_error_def)
qed

text \<open>The insert of a report: a second one of the same address for the same URL is a duplicate.\<close>

definition reported_by :: "env \<Rightarrow> world \<Rightarrow> u64 \<Rightarrow> string \<Rightarrow> bool" where
  "reported_by env w uid ip \<longleftrightarrow>
     (\<exists>r\<in>set (w_reports w). r_URLID r = uid \<and> collate env (r_ReporterIP r) = collate env ip)"

lemma reportSvc_sel [simp]:
  "rt_urlRepo (reportSvc p cfg) = \<lparr>ru_FindByHash = FindByHash (mysql (pf_env p)), ru_UpdateVTStatus = UpdateVTStatus (mysql (pf_env p))\<rparr>"
  "rt_reportRepo (reportSvc p cfg) = \<lparr>rr_Insert = Insert_report (mysql (pf_env p)),
     rr_CountDistinctIPsByURLID = CountDistinctIPsByURLID (mysql (pf_env p))\<rparr>"
  "rt_cache (reportSvc p cfg) = \<lparr>rc_Delete = cache_Delete (redis (pf_env p))\<rparr>"
  "rt_threshold (reportSvc p cfg) = cfg_ReportAutoBlockThreshold cfg"
  by (simp_all add: reportSvc_def NewReportService_def Let_def)

lemma count_calls [calls]:
  assumes "no_faults env"
  shows "CountDistinctIPsByURLID (mysql env) uid w = (Inr (select_count env (CountReporters uid) w), tick w)"
  by (simp add: CountDistinctIPsByURLID_def exec_calls [OF assms] scan_count_def)

lemma Insert_report_calls:
  assumes "no_faults env"
  shows "Insert_report (mysql env) rep w =
    (case insert_report env (r_URLID rep) (r_ReporterIP rep) (r_Reason rep) (tick w) of
       (Inl e, w') \<Rightarrow> (Inl (if isDuplicateEntry e then Sentinel ErrDuplicateReport
          else Wrapf ''report_repository: insert: %w'' [] e), w')
     | (Inr res, w') \<Rightarrow> (case res_LastInsertId res of
          Inl e \<Rightarrow> Inl (Wrapf ''report_repository: last insert id: %w'' [] e)
        | Inr i \<Rightarrow> Inr (rep\<lparr>r_ID := of_int i\<rparr>), w'))"
  by (simp add: Insert_report_def exec_calls [OF assms] split: prod.split sum.split)

text \<open>The effect of a report that reaches the threshold: the row is malicious and the cache entry gone.\<close>

definition blocked :: "env \<Rightarrow> string \<Rightarrow> u64 \<Rightarrow> world \<Rightarrow> world" where
  "blocked env h uid w = redis_remove [urlKeyPrefix @ h, metaKeyPrefix @ h]
     (tick (snd (set_vt_status env ''malicious'' uid (tick w))))"

lemma report_count_calls:
  assumes "no_faults (pf_env p)"
  shows "report_count (reportSvc p cfg) h uid w =
    (if cfg_ReportAutoBlockThreshold cfg \<le> select_count (pf_env p) (CountReporters uid) w
     then blocked (pf_env p) h uid (tick w) else tick w)"
  by (simp add: report_count_def count_calls [OF assms] blocked_def UpdateVTStatus_def exec_only_state
      exec_calls [OF assms] cache_Delete_calls [OF assms])

lemma insert_report_result:
  assumes "insert_report env uid ip reason w = (q, w1)"
  shows "w_urls w1 = w_urls w" "w_redis w1 = w_redis w" "w_clock w1 = w_clock w"
    and "q = Inr res \<Longrightarrow> res_LastInsertId res = Inr (int64 (int (w_next_report w)))"
    and "q = Inl e \<Longrightarrow> w_reports w1 = w_reports w \<and> \<not> err_is e x"
  using assms by (auto simp: insert_report_def Let_def inserted_def data_error_def autoinc_error_def
      duplicate_error_def fk_error_def split: option.splits if_splits)

lemma Report_row:
  assumes nf: "no_faults (pf_env p)" and ok: "db_ok (pf_env p) w" and u: "row_of (pf_env p) w h = Some u"
    and r: "IsValidReason reason"
  shows "Report (reportSvc p cfg) h ip reason w =
    (case insert_report (pf_env p) (u_ID u) (AnonymizeIP (stripPort ip)) reason (tick (tick w)) of
       (Inl e, w1) \<Rightarrow> (Some (if isDuplicateEntry e then Sentinel ErrDuplicateReport
          else Wrapf ''report_repository: insert: %w'' [] e), w1)
     | (Inr res, w1) \<Rightarrow> (None, report_count (reportSvc p cfg) h (u_ID u) w1))"
proof -
  obtain q w1 where q: "insert_report (pf_env p) (u_ID u) (AnonymizeIP (stripPort ip)) reason (tick (tick w)) = (q, w1)"
    by (metis surj_pair)
  show ?thesis
  proof (cases q)
    case (Inl e)
    then have "\<not> err_is e ErrDuplicateReport" using insert_report_result(5) [OF q] by blast
    with Inl show ?thesis using u r
      by (simp add: Report_def find_hash_row [OF nf ok] Let_def Insert_report_calls [OF nf] q)
  next
    case (Inr res)
    then have "res_LastInsertId res = Inr (int64 (int (w_next_report (tick (tick w)))))"
      using insert_report_result(4) [OF q] by simp
    then show ?thesis using u r Inr
      by (simp add: Report_def find_hash_row [OF nf ok] Let_def Insert_report_calls [OF nf] q)
  qed
qed

lemma Report_ok:
  assumes nf: "no_faults (pf_env p)" and ok: "db_ok (pf_env p) w"
    and rep: "Report (reportSvc p cfg) h ip reason w = (None, w')"
  obtains u res w1 where "row_of (pf_env p) w h = Some u" "IsValidReason reason"
    "insert_report (pf_env p) (u_ID u) (AnonymizeIP (stripPort ip)) reason (tick (tick w)) = (Inr res, w1)"
    "w' = report_count (reportSvc p cfg) h (u_ID u) w1"
proof -
  obtain u where u: "row_of (pf_env p) w h = Some u"
    using rep by (cases "row_of (pf_env p) w h") (auto simp: Report_def find_hash_row [OF nf ok])
  moreover have r: "IsValidReason reason"
    using rep by (rule_tac ccontr) (simp add: Report_def find_hash_row [OF nf ok] u)
  moreover obtain q w1 where q: "insert_report (pf_env p) (u_ID u) (AnonymizeIP (stripPort ip)) reason (tick (tick w)) = (q, w1)"
    by (metis surj_pair)
  ultimately show thesis
    using that rep unfolding Report_row [OF nf ok u r] by (cases q) (simp_all add: q)
qed

lemma report_count_reports:
  assumes "no_faults (pf_env p)"
  shows "w_reports (report_count (reportSvc p cfg) h uid w) = w_reports w"
  by (auto simp: report_count_calls [OF assms] blocked_def redis_remove_def set_vt_status_def split: option.split)

text \<open>Once blocked, a hash is never redirected: the row says malicious and the cache has nothing.\<close>

lemma blocked_row:
  assumes "enum_member env vt_status_enum ''malicious'' = Some ''malicious''" "row_of env w h = Some u"
  shows "row_of env (blocked env h (u_ID u) w) h = Some (u\<lparr>u_VTStatus := ''malicious''\<rparr>)"
proof -
  have "has_url (u_ID u) (tick w)" using row_of_in [OF assms(2)] by (auto simp: has_url_def)
  then have "snd (set_vt_status env ''malicious'' (u_ID u) (tick w)) =
    update_url (u_ID u) (\<lambda>u. u\<lparr>u_VTStatus := ''malicious''\<rparr>) (tick w)"
    by (simp add: set_vt_status_def assms(1))
  then show ?thesis
    using row_of_update [of "\<lambda>u. u\<lparr>u_VTStatus := ''malicious''\<rparr>" env "u_ID u" "tick w" h] assms(2)
    by (simp add: blocked_def row_of_def redis_remove_def)
qed

lemma blocked_cache: "cached_entry uc (blocked env h uid w) h = None"
  by (simp add: cached_entry_def blocked_def live_redis_remove)

lemma malicious_not_redirected:
  assumes "no_faults (pf_env p)" "db_ok (pf_env p) w" "cached_entry (pf_uc p) w h = None"
    and "row_of (pf_env p) w h = Some u" "u_VTStatus u = ScanMalicious"
  shows "\<exists>e\<in>{ErrURLMalicious, ErrURLExpired, ErrInvalidURL}. snd (fst (resolve_step p cfg h w)) = Some (Sentinel e)"
proof -
  have "resolve_step p cfg h w = resolve_db w_clock (redirectorSvc p cfg) h (tick w)"
    using assms(1,3) by (simp add: Resolve_def cache_Get_calls)
  then show ?thesis
    using assms by (auto simp: resolve_db_def find_hash_row)
qed

text \<open>Every reason the service accepts is a member of the column's \<open>ENUM\<close>.\<close>

lemma valid_reason_enum: "IsValidReason reason \<Longrightarrow> enum_member env reason_enum reason \<noteq> None"
proof -
  assume "IsValidReason reason"
  then have "reason \<in> set reason_enum"
    by (auto simp: IsValidReason_def validReasons_def reason_enum_def ReasonPhishing_def ReasonMalware_def
        ReasonSpam_def ReasonIllegal_def ReasonOther_def)
  then show ?thesis by (auto simp: enum_member_def find_None_all)
qed

lemma insert_duplicate:
  assumes "enum_member env reason_enum reason \<noteq> None" "fits 45 ip" "w_next_report w < 2 ^ 64"
    and "reported_by env w uid ip"
  shows "insert_report env uid ip reason w = (Inl (duplicate_error ip ''url_reports.uk_url_reporter''),
    w\<lparr>w_next_report := Suc (w_next_report w)\<rparr>)"
  using assms by (auto simp: insert_report_def reported_by_def Let_def)

end
