(* ===== verification/Statistics.thy ===== *)
theory Statistics
  imports Blocking "HOL-Library.Multiset"
begin

text \<open>
  The analytics of a URL when every call is answered: the groups of a \<open>GROUP BY\<close> partition
  the clicks, and what \<open>GetStats\<close> returns.
\<close>

section \<open>Groups\<close>

lemma sum_filter_lengths:
  assumes "finite A" "f ` set rs \<subseteq> A"
  shows "(\<Sum>k\<in>A. int (length (filter (\<lambda>r. f r = k) rs))) = int (length rs)"
  using assms(2)
proof (induction rs)
  case (Cons r rs)
  have "(\<Sum>k\<in>A. int (length (filter (\<lambda>x. f x = k) (r # rs)))) =
    (\<Sum>k\<in>A. (if f r = k then 1 else 0) + int (length (filter (\<lambda>x. f x = k) rs)))"
    by (rule sum.cong) simp_all
  also have "\<dots> = 1 + int (length rs)"
    using Cons assms(1) by (simp add: sum.distrib)
  finally show ?case by simp
qed simp

lemma group_by_total: "sum_list (map snd (group_by f rs)) = int (length rs)"
proof -
  have "sum_list (map snd (group_by f rs)) = (\<Sum>k\<in>set (map f rs). int (length (filter (\<lambda>r. f r = k) rs)))"
    by (simp add: group_by_def comp_def sum_list_distinct_conv_sum_set)
  also have "\<dots> = int (length rs)" by (rule sum_filter_lengths) simp_all
  finally show ?thesis .
qed

lemma sum_list_sort_key: "sum_list (map g (sort_key f xs)) = (sum_list (map g xs) :: int)"
proof -
  have "mset (map g (sort_key f xs)) = mset (map g xs)" by simp
  then show ?thesis by (metis sum_mset_sum_list)
qed

lemma days_total:
  "sum_list (map dc_Count (select_days uid d w)) =
     int (length (filter (\<lambda>c. c_URLID c = uid \<and> days_before w d \<le> c_AccessedAt c) (w_clicks w)))"
proof -
  have "dc_Count \<circ> (\<lambda>(c :: click, n). \<lparr>dc_Date = date_text (day_of (c_AccessedAt c)), dc_Count = n\<rparr>) = snd"
    by (rule ext) (simp split: prod.split)
  then show ?thesis by (simp only: select_days_def map_map sum_list_sort_key group_by_total)
qed

lemma sum_take_le: "\<forall>x\<in>set xs. 0 \<le> x \<Longrightarrow> sum_list (take k xs) \<le> (sum_list xs :: int)"
proof (induction xs arbitrary: k)
  case (Cons x xs)
  then show ?case using sum_list_nonneg [of xs] by (cases k) auto
qed simp

lemma agents_counts:
  "map uac_Count (select_agents env uid k w) = take (nat k) (map snd (sort_key (\<lambda>(c, n). - n)
     (scan_from env w (group_by (\<lambda>c. collate env (c_UserAgent c)) (filter (\<lambda>c. c_URLID c = uid) (w_clicks w))))))"
proof -
  have "uac_Count \<circ> (\<lambda>(c :: click, n). \<lparr>uac_UserAgent = c_UserAgent c, uac_Count = n\<rparr>) = snd"
    by (rule ext) (simp split: prod.split)
  then show ?thesis by (simp only: select_agents_def take_map map_map)
qed

lemma scan_from_mset: "mset (scan_from env w rs) = mset rs"
proof -
  have "mset (rotate n xs) = mset xs" for n and xs :: "'a list"
    by (simp add: rotate_drop_take) (metis mset_append append_take_drop_id union_commute)
  then show ?thesis by (simp add: scan_from_def)
qed

lemma group_by_nonneg: "x \<in> set (map snd (group_by f rs)) \<Longrightarrow> 0 \<le> x"
  by (auto simp: group_by_def)

lemma agents_total:
  "sum_list (map uac_Count (select_agents env uid k w)) \<le> int (length (filter (\<lambda>c. c_URLID c = uid) (w_clicks w)))"
proof -
  let ?g = "group_by (\<lambda>c. collate env (c_UserAgent c)) (filter (\<lambda>c. c_URLID c = uid) (w_clicks w))"
  let ?xs = "map snd (sort_key (\<lambda>(c, n). - n) (scan_from env w ?g))"
  have m: "mset ?xs = mset (map snd ?g)" by (simp add: scan_from_mset)
  then have "sum_list ?xs = sum_list (map snd ?g)" by (metis sum_mset_sum_list)
  moreover have "\<forall>x\<in>set ?xs. 0 \<le> x" using m group_by_nonneg by (metis mset_eq_setD)
  ultimately show ?thesis unfolding agents_counts using sum_take_le [of ?xs "nat k"] by (simp add: group_by_total)
qed

lemma agents_sorted: "sorted_wrt (\<ge>) (map uac_Count (select_agents env uid k w))"
proof -
  have "sorted (map (\<lambda>(c, n). - n) (sort_key (\<lambda>(c, n). - n) xs))" for xs :: "(click \<times> int) list"
    by (rule sorted_sort_key)
  then have "sorted_wrt (\<ge>) (map snd (sort_key (\<lambda>(c, n). - n) xs))" for xs :: "(click \<times> int) list"
    by (simp add: sorted_wrt_map case_prod_beta)
  then show ?thesis unfolding agents_counts by (rule sorted_wrt_take)
qed

section \<open>\<open>GetStats\<close>\<close>

lemma analyticsSvc_sel [simp]:
  "as_urlRepo (analyticsSvc p) = \<lparr>uf_FindByHash = FindByHash (mysql (pf_env p))\<rparr>"
  "as_clickRepo (analyticsSvc p) = \<lparr>cr_CountByURLID = CountByURLID (mysql (pf_env p)),
     cr_GroupByDay = GroupByDay (mysql (pf_env p)), cr_TopUserAgents = TopUserAgents (mysql (pf_env p))\<rparr>"
  by (simp_all add: analyticsSvc_def NewAnalyticsService_def Let_def)

lemma GetStats_calls:
  assumes nf: "no_faults (pf_env p)" and ok: "db_ok (pf_env p) w" and u: "row_of (pf_env p) w h = Some u"
  shows "fst (GetStats (analyticsSvc p) h w) = Inr \<lparr>
    st_TotalClicks = select_count (pf_env p) (CountClicks (u_ID u)) (tick w),
    st_ClicksByDay = select_days (u_ID u) 30 (tick (tick w)),
    st_TopUserAgents = select_agents (pf_env p) (u_ID u) 5 (tick (tick (tick w)))\<rparr>"
  by (simp add: GetStats_def find_hash_row [OF nf ok] u CountByURLID_def GroupByDay_def TopUserAgents_def
      exec_calls [OF nf] scan_count_def scan_rows_eq)

lemma GetStats_totals_of:
  assumes "no_faults (pf_env p)" "db_ok (pf_env p) w" "row_of (pf_env p) w h = Some u"
    and "cs = filter (\<lambda>c. c_URLID c = u_ID u) (w_clicks w)"
  shows "\<exists>st. fst (GetStats (analyticsSvc p) h w) = Inr st \<and>
    st_TotalClicks st = int (length cs) \<and>
    sum_list (map dc_Count (st_ClicksByDay st)) = int (length (filter (\<lambda>c. days_before w 30 \<le> c_AccessedAt c) cs)) \<and>
    sum_list (map uac_Count (st_TopUserAgents st)) \<le> int (length cs) \<and>
    length (st_TopUserAgents st) \<le> 5 \<and> sorted_wrt (\<ge>) (map uac_Count (st_TopUserAgents st))"
proof -
  have now: "days_before (tick (tick w)) 30 = days_before w 30" by (simp add: days_before_def now_def)
  have len: "length (select_agents (pf_env p) i 5 x) \<le> 5" for i x by (simp add: select_agents_def)
  show ?thesis
    unfolding GetStats_calls [OF assms(1-3)]
    using agents_total [of "pf_env p" "u_ID u" 5 "tick (tick (tick w))"] agents_sorted len
    by (simp add: days_total now assms(4) filter_filter)
qed

end
