(* ===== verification/Demo.thy ===== *)
theory Demo
  imports Statistics
begin

text \<open>
  A concrete run, on which the properties of the system are applied: a platform without
  faults whose collation folds ASCII case, the configuration that an environment gives,
  an empty database, and a URL that is shortened, visited and reported.
\<close>

definition demo_env :: env where
  "demo_env = \<lparr>env_key = map ascii_lower, env_fault = (\<lambda>_. None), env_pick = (\<lambda>_. 0)\<rparr>"

definition demo_platform :: platform where
  "demo_platform = \<lparr>pf_env = demo_env, pf_lib = \<lparr>lib_uc = ascii_tables, lib_idna = Some\<rparr>,
     pf_http = (\<lambda>_ _. Inl (Plain ''offline'')), pf_latency = (\<lambda>_. 0)\<rparr>"

definition demo_getenv :: getenv where
  "demo_getenv k = (if k \<in> set required_vars then ''x'' else if k = ''VT_ENABLED'' then ''false''
     else if k = ''BASE_URL'' then ''https://snip.io'' else if k = ''REPORT_AUTO_BLOCK_THRESHOLD'' then ''1'' else [])"

definition demo_config :: config where
  "demo_config = (case LoadConfig demo_getenv of Inr cfg \<Rightarrow> cfg | Inl _ \<Rightarrow> read_config demo_getenv)"

definition demo_start :: world where
  "demo_start = empty_world (1700000000 * second)"

definition demo_url :: string where "demo_url = ''https://example.org/page''"

lemma demo_platform_sel [simp]:
  "pf_env demo_platform = demo_env" "pf_lib demo_platform = \<lparr>lib_uc = ascii_tables, lib_idna = Some\<rparr>"
  by (simp_all add: demo_platform_def)

lemma demo_no_faults [simp]: "no_faults demo_env"
  by (simp add: no_faults_def demo_env_def)

lemma demo_config_read: "demo_config = read_config demo_getenv"
  by (auto simp: demo_config_def LoadConfig_def Let_def split: sum.split)

lemma demo_config_sel [simp]:
  "cfg_BaseURL demo_config = ''https://snip.io''" "cfg_VTEnabled demo_config = False"
  "cfg_URLExpirationDays demo_config = 30" "cfg_ReportAutoBlockThreshold demo_config = 1"
  "cfg_RedisTTLDays demo_config = 30" "cfg_VTTimeout demo_config = 10 * second"
  unfolding demo_config_read by code_simp+

lemma demo_url_ok:
  "NormalizeURL ascii_tables demo_url = Inr demo_url"
  "ValidateURL ascii_tables Some demo_url ''https://snip.io'' = Inr ()"
  by code_simp+

text \<open>With VirusTotal switched off, a URL the scan cache does not know is clean.\<close>

lemma noop_scan:
  assumes "no_faults (pf_env p)" "\<not> cfg_VTEnabled cfg" "live w (cacheKey url) = None"
  shows "sc_Scan (cachedScanner p cfg) ctx url w =
    ((status_result ScanClean (w_clock w), None),
     case marshal_result (status_result ScanClean (w_clock w)) of None \<Rightarrow> tick w
     | Some data \<Rightarrow> redis_set (cacheKey url, data, vtCacheTTL cfg) (tick (tick w)))"
  using assms(2,3)
  by (simp add: cachedScanner_def CachedScan_def NewCachedScanner_def rawCache_def GetRaw_def SetRaw_def
      exec_calls [OF assms(1)] scan_and_store_def vtScannerDirect_def NoopScan_def split: option.split)

section \<open>The URL is shortened\<close>

definition demo_time :: time where "demo_time = 1700000000 * second"

definition demo_scanned :: world where
  "demo_scanned = snd (sc_Scan (cachedScanner demo_platform demo_config) (Some (demo_time + 10 * second)) demo_url (tick demo_start))"

lemma demo_scan:
  "sc_Scan (cachedScanner demo_platform demo_config) (Some (demo_time + 10 * second)) demo_url (tick demo_start) =
    ((status_result ScanClean demo_time, None), demo_scanned)"
  by (simp add: demo_scanned_def noop_scan live_def demo_start_def empty_world_def demo_time_def)

lemma demo_scanned_db [simp]:
  "w_urls demo_scanned = []" "w_next_url demo_scanned = 1" "w_next_click demo_scanned = 1" "w_clock demo_scanned = demo_time"
  by (auto simp: redis_set_def demo_scanned_def noop_scan live_def demo_start_def empty_world_def demo_time_def
      split: option.split)

definition demo_row :: url where
  "demo_row = \<lparr>u_ID = 1, u_Hash = [], u_OriginalURL = demo_url, u_CreatedAt = demo_time, u_LastAccessedAt = None,
     u_ExpiresAt = Some (demo_time + 30 * (24 * hour)), u_VTStatus = ''pending'', u_VTScannedAt = None,
     u_VTPositives = None, u_VTPermalink = None\<rparr>"

definition demo_created :: world where
  "demo_created = (tick demo_scanned)\<lparr>w_next_url := 2, w_urls := [demo_row]\<rparr>"

lemma demo_insert:
  "insert_url demo_env [] demo_url (Some (demo_time + 30 * (24 * hour))) (tick demo_scanned) = (Inr (inserted 1), demo_created)"
proof -
  have "timestamp (demo_time + 30 * (24 * hour)) = Some (demo_time + 30 * (24 * hour))" by code_simp
  moreover have "now (tick demo_scanned) = demo_time" by (simp add: now_def demo_time_def second_def)
  moreover have "fits 10 []" "fits 65535 demo_url" "length demo_url \<le> 65535" by code_simp+
  ultimately show ?thesis
    by (simp add: insert_url_def nullable_timestamp_def demo_created_def demo_row_def Let_def)
qed

lemma demo_hash: "Encode 1 = ''1000001''"
  by code_simp

lemma demo_create:
  "Create (mysql demo_env) (zero_url\<lparr>u_OriginalURL := demo_url, u_ExpiresAt := Some (demo_time + 30 * (24 * hour))\<rparr>) demo_scanned =
    (Inr (zero_url\<lparr>u_ID := 1, u_OriginalURL := demo_url, u_ExpiresAt := Some (demo_time + 30 * (24 * hour))\<rparr>), demo_created)"
  using demo_insert
  by (simp add: Create_def exec_calls inserted_def int64_def zero_url_def)

definition demo_clean_row :: url where
  "demo_clean_row = demo_row\<lparr>u_Hash := ''1000001'', u_VTStatus := ScanClean, u_VTScannedAt := Some demo_time,
     u_VTPositives := Some 0, u_VTPermalink := Some []\<rparr>"

definition demo_stored :: world where
  "demo_stored = (tick (tick demo_created))\<lparr>w_urls := [demo_clean_row]\<rparr>"

definition demo_short :: world where
  "demo_short = snd (cache_Set (redis demo_env) ''1000001'' demo_url ScanClean 1 (days_duration 30) demo_stored)"

lemma demo_set_hash:
  "UpdateHash (mysql demo_env) 1 ''1000001'' demo_created =
    (Inr (), (tick demo_created)\<lparr>w_urls := [demo_row\<lparr>u_Hash := ''1000001''\<rparr>]\<rparr>)"
proof -
  have "fits 10 ''1000001''" by code_simp
  then show ?thesis
    by (simp add: UpdateHash_def exec_only_def exec_calls set_hash_def has_url_def demo_created_def demo_row_def
        update_url_def tick_def)
qed

lemma demo_set_result:
  "snd (UpdateVTResult (mysql demo_env) 1 (status_result ScanClean demo_time)
      ((tick demo_created)\<lparr>w_urls := [demo_row\<lparr>u_Hash := ''1000001''\<rparr>]\<rparr>)) = demo_stored"
proof -
  have "enum_member demo_env vt_status_enum ScanClean = Some ScanClean" "timestamp demo_time = Some demo_time" "fits 512 []"
    by code_simp+
  then show ?thesis
    by (simp add: UpdateVTResult_def exec_only_state exec_calls set_vt_result_def has_url_def demo_created_def demo_row_def
        update_url_def tick_def demo_stored_def demo_clean_row_def)
qed

lemma demo_shorten:
  "shorten_step demo_platform demo_config None demo_url demo_start =
    ((Some (zero_url\<lparr>u_ID := 1, u_Hash := ''1000001'', u_OriginalURL := demo_url,
        u_ExpiresAt := Some (demo_time + 30 * (24 * hour)), u_VTStatus := ScanClean\<rparr>),
      status_result ScanClean demo_time, None), demo_short)"
proof -
  have find: "FindByOriginalURL (mysql demo_env) demo_url demo_start = (Inl (Sentinel ErrURLNotFound), tick demo_start)"
    by (simp add: find_original_calls demo_start_def empty_world_def)
  have ctx: "WithTimeout None (w_clock demo_start) (10 * second) = Some (demo_time + 10 * second)"
    by (simp add: WithTimeout_def demo_start_def empty_world_def demo_time_def)
  have ne: "ScanClean \<noteq> ScanMalicious" by (simp add: scan_status_defs)
  obtain s2 where s2: "UpdateVTResult (mysql demo_env) 1 (status_result ScanClean demo_time)
      ((tick demo_created)\<lparr>w_urls := [demo_row\<lparr>u_Hash := ''1000001''\<rparr>]\<rparr>) = (s2, demo_stored)"
    using demo_set_result by (metis surj_pair snd_conv)
  show ?thesis
    by (simp add: Shorten_def demo_url_ok find shorten_new_def ctx demo_scan ne AddDate_days_def demo_create [simplified]
        shorten_finish_def demo_hash demo_set_hash s2 demo_short_def Let_def)
qed

lemma demo_short_urls [simp]: "w_urls demo_short = [demo_clean_row]"
  by (simp add: demo_short_def demo_stored_def)

lemma demo_reachable: "reachable demo_platform demo_config demo_start" "reachable demo_platform demo_config demo_short"
proof -
  show start: "reachable demo_platform demo_config demo_start" unfolding demo_start_def by (rule reachable.start)
  have "sys_step demo_platform demo_config demo_start
      (snd (shorten_step demo_platform demo_config None demo_url demo_start))" by (rule sys_step.shorten)
  then have "sys_step demo_platform demo_config demo_start demo_short" unfolding demo_shorten snd_conv .
  with start show "reachable demo_platform demo_config demo_short" by (rule reachable.step)
qed

section \<open>The URL is reported\<close>

abbreviation demo_hash1 :: string where "demo_hash1 \<equiv> ''1000001''"

definition demo_reporter :: string where "demo_reporter = ''203.0.113.9:51034''"

definition demo_report :: report where
  "demo_report = \<lparr>r_ID = 1, r_URLID = 1, r_ReporterIP = ''203.0.113.0'', r_Reason = ''phishing'', r_CreatedAt = demo_time\<rparr>"

definition demo_inserted :: world where
  "demo_inserted = (tick (tick demo_short))\<lparr>w_next_report := 2, w_reports := [demo_report]\<rparr>"

definition demo_reported :: world where
  "demo_reported = report_count (reportSvc demo_platform demo_config) demo_hash1 1 demo_inserted"

lemma demo_short_rest [simp]:
  "w_reports demo_short = []" "w_next_report demo_short = 1" "w_clock demo_short = demo_time" "w_clicks demo_short = []"
proof -
  have "w_reports demo_scanned = [] \<and> w_next_report demo_scanned = 1 \<and> w_clicks demo_scanned = []"
    by (auto simp: demo_scanned_def noop_scan live_def demo_start_def empty_world_def redis_set_def split: option.split)
  then show "w_reports demo_short = []" "w_next_report demo_short = 1" "w_clock demo_short = demo_time" "w_clicks demo_short = []"
    by (simp_all add: demo_short_def demo_stored_def demo_created_def cache_Set_calls redis_set_def)
qed

lemma demo_clean_row_sel [simp]:
  "u_ID demo_clean_row = 1" "u_Hash demo_clean_row = demo_hash1" "u_OriginalURL demo_clean_row = demo_url"
  by (simp_all add: demo_clean_row_def demo_row_def)

lemma demo_row_of: "row_of demo_env demo_short demo_hash1 = Some demo_clean_row"
  by (simp add: row_of_def)

lemma demo_anon: "AnonymizeIP (stripPort demo_reporter) = ''203.0.113.0''" "AnonymizeIP (stripPort ''203.0.113.77:80'') = ''203.0.113.0''"
  unfolding demo_reporter_def by code_simp+

lemma demo_insert_report:
  "insert_report demo_env 1 ''203.0.113.0'' ''phishing'' (tick (tick demo_short)) = (Inr (inserted 1), demo_inserted)"
proof -
  have "enum_member demo_env reason_enum ''phishing'' = Some ''phishing''" "fits 45 ''203.0.113.0''" by code_simp+
  moreover have "now (tick (tick demo_short)) = demo_time" by (simp add: now_def demo_time_def second_def)
  ultimately show ?thesis
    by (simp add: insert_report_def has_url_def demo_inserted_def demo_report_def Let_def)
qed

lemma demo_short_db_ok: "db_ok demo_env demo_short"
  using reachable_sys_ok [OF demo_reachable(2)] by (simp add: sys_ok_iff)

lemma demo_Report:
  "Report (reportSvc demo_platform demo_config) demo_hash1 demo_reporter ''phishing'' demo_short = (None, demo_reported)"
proof -
  have "IsValidReason ''phishing''" by code_simp
  moreover have "no_faults (pf_env demo_platform)" "db_ok (pf_env demo_platform) demo_short"
    "row_of (pf_env demo_platform) demo_short demo_hash1 = Some demo_clean_row"
    by (simp_all add: demo_short_db_ok demo_row_of)
  ultimately show ?thesis
    by (simp add: Report_row demo_anon demo_insert_report demo_reported_def)
qed

lemma demo_reported_reports: "w_reports demo_reported = [demo_report]"
  by (simp add: demo_reported_def report_count_reports demo_inserted_def)

lemma demo_reachable_reported: "reachable demo_platform demo_config demo_reported"
proof -
  have "sys_step demo_platform demo_config demo_short
      (snd (Report (reportSvc demo_platform demo_config) demo_hash1 demo_reporter ''phishing'' demo_short))"
    by (rule sys_step.report)
  then have "sys_step demo_platform demo_config demo_short demo_reported" unfolding demo_Report snd_conv .
  with demo_reachable(2) show ?thesis by (rule reachable.step)
qed

lemma demo_enum: "enum_member demo_env vt_status_enum ''malicious'' = Some ''malicious''"
  by code_simp

section \<open>A URL that a scan has flagged\<close>

definition demo_verdict :: scan_result where
  "demo_verdict = (status_result ScanMalicious demo_time)\<lparr>sr_Positives := 7, sr_Total := 90\<rparr>"

definition demo_flagged :: world where
  "demo_flagged = demo_start\<lparr>w_redis := [cacheKey demo_url \<mapsto> (json_text (result_json demo_verdict), None)]\<rparr>"

lemma demo_flagged_urls: "w_urls demo_flagged = []"
  by (simp add: demo_flagged_def demo_start_def empty_world_def)

lemma demo_flagged_shorten:
  "shorten_step demo_platform demo_config None demo_url demo_flagged =
    ((None, demo_verdict, Some (Sentinel ErrURLMalicious)), tick (tick demo_flagged))"
proof -
  have find: "FindByOriginalURL (mysql demo_env) demo_url demo_flagged = (Inl (Sentinel ErrURLNotFound), tick demo_flagged)"
    by (simp add: find_original_calls demo_flagged_def demo_start_def empty_world_def)
  have m: "marshal_result demo_verdict = Some (json_text (result_json demo_verdict))" by code_simp
  have "result_ok demo_verdict"
    by (simp add: demo_verdict_def result_ok_def status_result_def zero_scan_result_def scan_status_defs utf8_valid_ascii)
  then have "unmarshal_result ascii_tables (json_text (result_json demo_verdict)) = Some demo_verdict"
    by (rule unmarshal_marshal_result [OF _ m])
  moreover have "live (tick demo_flagged) (cacheKey demo_url) = Some (json_text (result_json demo_verdict))"
    by (simp add: live_def demo_flagged_def)
  ultimately have scan: "sc_Scan (cachedScanner demo_platform demo_config) ctx demo_url (tick demo_flagged) =
      ((demo_verdict, None), tick (tick demo_flagged))" for ctx
    using scan_from_cache [of demo_platform "tick demo_flagged" demo_url] by simp
  show ?thesis
    by (simp add: Shorten_def demo_url_ok find shorten_new_def scan shorten_err_def)
      (simp add: demo_verdict_def status_result_def)
qed

end
