(* ===== verification/Interleavings.thy ===== *)
theory Interleavings
  imports ServiceSafety Demo
begin

text \<open>
  The program's requests and background jobs as goroutines that interleave call by call on MySQL and
  Redis, under any faults and with time passing between any two calls: the invariant of the
  system holds between any two calls, not only between requests, and what a request has answered
  is true from its end on. A request that is not interrupted does what \<open>System\<close> says it does.
\<close>

section \<open>The jobs\<close>

datatype job =
    ShortenJob ctx string
  | ResolveJob string
  | ReportJob string string string
  | StatsJob string
  | RescanJob time
  | ClickJob click
  | AccessedJob u64
  | CleanupJob int
  | EvictJob string
  | PingJob

datatype answer =
    Shortened shorten_result
  | Resolved resolve_result
  | Reported "goerr option"
  | Counted "goerr + stats"
  | Finished

definition job_scan :: "platform \<Rightarrow> config \<Rightarrow> ctx \<Rightarrow> string \<Rightarrow> (world, scan_result \<times> goerr option) thread" where
  "job_scan p cfg = cached_scan_thread (pf_uc p) (NewCachedScanner (vtScannerDirect p cfg) (rawCache p) (vtCacheTTL cfg))"

definition ending :: "('s, 'a) thread \<Rightarrow> ('a \<Rightarrow> answer) \<Rightarrow> ('s, answer) thread" where
  "ending t f = and_then t (\<lambda>a. Done (f a))"

fun job_thread :: "platform \<Rightarrow> config \<Rightarrow> job \<Rightarrow> (world, answer) thread" where
  "job_thread p cfg (ShortenJob ctx url) =
     ending (shorten_thread (job_scan p cfg) (pf_lib p) w_clock (shortenerSvc p cfg) ctx url) Shortened"
| "job_thread p cfg (ResolveJob h) = ending (resolve_thread w_clock (redirectorSvc p cfg) h) Resolved"
| "job_thread p cfg (ReportJob h ip reason) = ending (report_thread (reportSvc p cfg) h ip reason) Reported"
| "job_thread p cfg (StatsJob h) = ending (stats_thread (analyticsSvc p) h) Counted"
| "job_thread p cfg (RescanJob dl) = ending (cycle_thread world_timers (rescanner p cfg) (Some dl)) (\<lambda>_. Finished)"
| "job_thread p cfg (ClickJob c) = ending (perform (Insert_click (mysql (pf_env p)) c)) (\<lambda>_. Finished)"
| "job_thread p cfg (AccessedJob i) = ending (perform (UpdateLastAccessed (mysql (pf_env p)) i)) (\<lambda>_. Finished)"
| "job_thread p cfg (CleanupJob days) = ending (perform (DeleteOlderThan (mysql (pf_env p)) days)) (\<lambda>_. Finished)"
| "job_thread p cfg (EvictJob h) = ending (perform (cache_Delete (redis (pf_env p)) h)) (\<lambda>_. Finished)"
| "job_thread p cfg PingJob = ending (perform (\<lambda>w. ((), tick w))) (\<lambda>_. Finished)"

text \<open>The handler asks for hashes that are not empty; the clock only moves forward.\<close>

fun starts :: "job \<Rightarrow> bool" where
  "starts (ResolveJob h) = (h \<noteq> [])"
| "starts _ = True"

definition time_passes :: "world \<Rightarrow> world \<Rightarrow> bool" where
  "time_passes w w' \<longleftrightarrow> w_clock w \<le> w_clock w' \<and> w' = w\<lparr>w_clock := w_clock w'\<rparr>"

abbreviation running :: "platform \<Rightarrow> config \<Rightarrow> (job, world, answer) pool \<Rightarrow> (job, world, answer) pool \<Rightarrow> bool" where
  "running p cfg \<equiv> interleave starts (job_thread p cfg) time_passes"

section \<open>Uninterrupted jobs\<close>

text \<open>What a job answers and does when it runs alone, by the services' functions.\<close>

fun job_run :: "platform \<Rightarrow> config \<Rightarrow> job \<Rightarrow> (world, answer) call" where
  "job_run p cfg (ShortenJob ctx url) w = map_prod Shortened id (shorten_step p cfg ctx url w)"
| "job_run p cfg (ResolveJob h) w = map_prod Resolved id (resolve_step p cfg h w)"
| "job_run p cfg (ReportJob h ip reason) w = map_prod Reported id (Report (reportSvc p cfg) h ip reason w)"
| "job_run p cfg (StatsJob h) w = map_prod Counted id (GetStats (analyticsSvc p) h w)"
| "job_run p cfg (RescanJob dl) w = (Finished, RunCycle world_timers (rescanner p cfg) (Some dl) w)"
| "job_run p cfg (ClickJob c) w = (Finished, snd (Insert_click (mysql (pf_env p)) c w))"
| "job_run p cfg (AccessedJob i) w = (Finished, snd (UpdateLastAccessed (mysql (pf_env p)) i w))"
| "job_run p cfg (CleanupJob days) w = (Finished, snd (DeleteOlderThan (mysql (pf_env p)) days w))"
| "job_run p cfg (EvictJob h) w = (Finished, snd (cache_Delete (redis (pf_env p)) h w))"
| "job_run p cfg PingJob w = (Finished, tick w)"

lemma job_scan_alone: "alone (job_scan p cfg ctx url) = sc_Scan (sh_scan (shortenerSvc p cfg)) ctx url"
  by (rule ext) (simp add: job_scan_def cached_scan_alone shortenerSvc_def NewShortenerService_def cachedScanner_def)

lemma alone_ending: "alone (ending t f) w = map_prod f id (alone t w)"
  by (simp add: ending_def split: prod.split)

lemma job_alone: "alone (job_thread p cfg j) w = job_run p cfg j w"
  by (cases j) (simp_all add: alone_ending shorten_alone job_scan_alone resolve_alone report_alone
      stats_alone cycle_alone map_prod_def split_beta)

lemma within_ending: "within t n \<Longrightarrow> within (ending t f) n"
  using within_and_then [of t n "\<lambda>a. Done (f a)" 0] by (simp add: ending_def)

fun is_cycle :: "job \<Rightarrow> bool" where
  "is_cycle (RescanJob dl) = True"
| "is_cycle _ = False"

lemma job_within: "\<not> is_cycle j \<Longrightarrow> within (job_thread p cfg j) 10"
proof (cases j)
  case (ShortenJob ctx url)
  then show ?thesis by (simp add: within_ending shorten_within job_scan_def cached_scan_within)
next
  case (ResolveJob h)
  then show ?thesis by (auto intro!: within_ending within_more [OF resolve_within])
next
  case (ReportJob h ip reason)
  then show ?thesis by (auto intro!: within_ending within_more [OF report_within])
next
  case (StatsJob h)
  then show ?thesis by (auto intro!: within_ending within_more [OF stats_within])
qed (simp_all add: within_ending within_perform)

text \<open>The steps of the system are runs of the pool in which nothing interrupts a job.\<close>

lemma sys_step_runs:
  assumes "sys_step p cfg w w'"
  shows "\<exists>us. (running p cfg)\<^sup>*\<^sup>* (ts, w) (ts @ us, w')"
proof -
  have job: "\<exists>us. (running p cfg)\<^sup>*\<^sup>* (ts, w) (ts @ us, snd (job_run p cfg j w))" if "starts j" for j w
  proof -
    have "(running p cfg)\<^sup>*\<^sup>* (ts, w) (ts @ [(j, Done (fst (job_run p cfg j w)))], snd (job_run p cfg j w))"
      by (rule run_new) (simp_all add: that job_alone del: job_thread.simps)
    then show ?thesis by blast
  qed
  have time: "\<exists>us. (running p cfg)\<^sup>*\<^sup>* (ts, w) (ts @ us, w')" if "time_passes w w'" for w w'
  proof -
    have "running p cfg (ts, w) (ts, w')" by (rule elapse) (rule that)
    then show ?thesis by (metis append_Nil2 r_into_rtranclp)
  qed
  from assms show ?thesis
  proof (induction rule: sys_step.induct)
    case (shorten w ctx url) then show ?case using job [of "ShortenJob ctx url"] by simp
  next
    case (resolve h w) then show ?case using job [of "ResolveJob h"] by simp
  next
    case (report w h ip reason) then show ?case using job [of "ReportJob h ip reason"] by simp
  next
    case (get_stats w h) then show ?case using job [of "StatsJob h"] by simp
  next
    case (rescan w dl) then show ?case using job [of "RescanJob dl"] by simp
  next
    case (click w c) then show ?case using job [of "ClickJob c"] by simp
  next
    case (accessed w i) then show ?case using job [of "AccessedJob i"] by simp
  next
    case (cleanup w days) then show ?case using job [of "CleanupJob days"] by simp
  next
    case (evict w h) then show ?case using job [of "EvictJob h"] by simp
  next
    case (ping w) then show ?case using job [of PingJob] by simp
  next
    case (later w t)
    then show ?case by (intro time) (simp add: time_passes_def)
  qed
qed

section \<open>The invariant between any two calls\<close>

text \<open>What a finished job promises.\<close>

definition asked :: "platform \<Rightarrow> string \<Rightarrow> string \<Rightarrow> bool" where
  "asked p url x \<longleftrightarrow> (\<exists>n. NormalizeURL (pf_uc p) url = Inr n \<and> same_text (pf_env p) x n)"

definition job_promise :: "platform \<Rightarrow> job \<Rightarrow> answer \<Rightarrow> world \<Rightarrow> bool" where
  "job_promise p j a w = (case (j, a) of
     (ShortenJob ctx url, Shortened x) \<Rightarrow> shortened (world_view p) (asked p url) x w
   | (ResolveJob h, Resolved x) \<Rightarrow> resolver.resolved p h x w
   | _ \<Rightarrow> True)"

abbreviation job_safe :: "platform \<Rightarrow> config \<Rightarrow> ('a \<Rightarrow> world \<Rightarrow> bool) \<Rightarrow> (world, 'a) thread \<Rightarrow> world \<Rightarrow> bool" where
  "job_safe p cfg \<equiv> sys_safe (world_view p) (same_text (pf_env p)) (pf_lib p) (cfg_BaseURL cfg)"

lemma safe_ending:
  assumes "job_safe p cfg Q t w" "\<And>a w. Q a w \<Longrightarrow> P (f a) w"
  shows "job_safe p cfg P (ending t f) w"
  unfolding ending_def by (rule evolving.safe_map [OF assms(1)]) (rule assms(2))

lemma safe_single:
  assumes "\<And>w. keeps (world_view p) w (snd (f w))"
  shows "job_safe p cfg (\<lambda>_ _. True) (perform f) w"
  by (rule safe_perform_keeps) (use assms in auto)

lemma stats_safe: "job_safe p cfg (\<lambda>_ _. True) (stats_thread (analyticsSvc p) h) w"
proof -
  have sel: "uf_FindByHash (as_urlRepo (analyticsSvc p)) = FindByHash (mysql (pf_env p))"
    "cr_CountByURLID (as_clickRepo (analyticsSvc p)) = CountByURLID (mysql (pf_env p))"
    "cr_GroupByDay (as_clickRepo (analyticsSvc p)) = GroupByDay (mysql (pf_env p))"
    "cr_TopUserAgents (as_clickRepo (analyticsSvc p)) = TopUserAgents (mysql (pf_env p))"
    by (simp_all add: analyticsSvc_def NewAnalyticsService_def Let_def)
  show ?thesis
    unfolding stats_thread_def sel
    by (rule safe_keeps [OF reader_keeps(1)])
      (auto split: sum.split intro!: safe_keeps [OF reader_keeps(2)] safe_keeps [OF reader_keeps(3)] safe_keeps [OF reader_keeps(4)])
qed

lemma promise_other: "(\<And>ctx url. j \<noteq> ShortenJob ctx url) \<Longrightarrow> (\<And>h. j \<noteq> ResolveJob h) \<Longrightarrow> job_promise p j a w"
  by (cases j) (fastforce simp: job_promise_def)+

lemma job_safe_thread:
  assumes "starts j" "sys_ok p cfg w"
  shows "job_safe p cfg (job_promise p j) (job_thread p cfg j) w"
proof (cases j)
  case (ShortenJob ctx url)
  show ?thesis unfolding ShortenJob job_thread.simps
  proof (rule safe_ending)
    show "job_safe p cfg (shortened (world_view p) (asked p url))
      (shorten_thread (job_scan p cfg) (pf_lib p) w_clock (shortenerSvc p cfg) ctx url) w"
    proof (rule shortening.shorten_safe [OF shortenerSvc_wired])
      show "job_safe p cfg (\<lambda>(r, _) _. is_verdict (sr_Status r)) (job_scan p cfg (Some dl) url) w" for dl url w
        using scan_cache.cached_scan_safe [of p "same_text (pf_env p)" "pf_lib p" "cfg_BaseURL cfg" cfg "vtCacheTTL cfg" dl url w]
        by (simp add: job_scan_def NewCachedScanner_def scan_cache.cached_def rawCache_def)
    qed (use assms(2) in \<open>auto simp: sys_ok_def asked_def\<close>)
  qed (simp add: job_promise_def)
next
  case (ResolveJob h)
  then have "\<not> same_text (pf_env p) [] h" using assms(1) by (simp add: same_text_def)
  then show ?thesis unfolding ResolveJob job_thread.simps
    by (intro safe_ending [OF resolver.resolve_safe [OF redirectorSvc_wired]]) (simp_all add: job_promise_def)
next
  case (ReportJob h ip reason)
  show ?thesis unfolding ReportJob job_thread.simps reportSvc_service
    by (rule safe_ending [OF reports.report_safe]) (simp add: promise_other)
next
  case (StatsJob h)
  show ?thesis unfolding StatsJob job_thread.simps by (rule safe_ending [OF stats_safe]) (simp add: promise_other)
next
  case (RescanJob dl)
  show ?thesis unfolding RescanJob job_thread.simps
    by (rule safe_ending [OF rescan.cycle_safe [OF rescanner_rescans]]) (simp add: promise_other)
qed (auto simp: promise_other exec_state_keeps cache_Delete_state intro!: safe_ending safe_single keeps_exec keeps_Del keeps_tick)

lemma time_keeps:
  assumes "time_passes w w'" shows "keeps (world_view p) w w'"
proof -
  have w': "w_clock w \<le> w_clock w'" "w' = w\<lparr>w_clock := w_clock w'\<rparr>" using assms by (simp_all add: time_passes_def)
  show ?thesis by (subst w'(2)) (rule keeps_frame, simp_all add: w'(1))
qed

definition pool_inv :: "platform \<Rightarrow> config \<Rightarrow> (job, world, answer) pool \<Rightarrow> bool" where
  "pool_inv p cfg = interference.pool_ok (sys_ok p cfg) (evolves (world_view p)) (job_promise p)"

lemma running_inv:
  assumes "(running p cfg)\<^sup>*\<^sup>* ([], empty_world t) c"
  shows "pool_inv p cfg c"
  using assms
proof (induction rule: rtranclp_induct)
  case base
  show ?case using sys_ok_empty [of p cfg t] by (simp add: pool_inv_def evolving.pool_ok_def sys_ok_def)
next
  case (step c c')
  show ?case
    using evolving.interleave_ok [OF step.hyps(2) step.IH [unfolded pool_inv_def sys_ok_def]]
      job_safe_thread [of _ p cfg] keeps_evolve [OF time_keeps] keeps_sys_ok [OF time_keeps]
    unfolding pool_inv_def sys_ok_def by blast
qed

lemma running_sys_ok: "(running p cfg)\<^sup>*\<^sup>* ([], empty_world t) (ts, w) \<Longrightarrow> sys_ok p cfg w"
  using running_inv [of p cfg t "(ts, w)"] by (simp add: pool_inv_def evolving.pool_ok_def sys_ok_def)

lemma running_promise:
  assumes "(running p cfg)\<^sup>*\<^sup>* ([], empty_world t) (ts, w)" "(j, Done a) \<in> set ts"
  shows "job_promise p j a w"
  using running_inv [OF assms(1)] assms(2) unfolding pool_inv_def sys_ok_def by (rule evolving.finished_ok)

text \<open>Every state of the system of whole requests is one of the interleaved jobs.\<close>

lemma reachable_runs: "reachable p cfg w \<Longrightarrow> \<exists>t ts. (running p cfg)\<^sup>*\<^sup>* ([], empty_world t) (ts, w)"
proof (induction rule: reachable.induct)
  case (step w w')
  then show ?case using sys_step_runs by (meson rtranclp_trans)
qed blast

section \<open>A run\<close>

text \<open>
  A run in which a second client shortens the same URL while the first request waits for the update
  of its hash: the row is there already, its hash is not, and the second answer has an empty hash.
\<close>

lemma ending_and_then: "ending (and_then t k) f = and_then t (\<lambda>a. ending (k a) f)"
  by (simp add: ending_def and_then_assoc)

lemma run_single:
  assumes "alone t w = (a, w')" "u = k a"
  shows "(interleave starts prog env)\<^sup>*\<^sup>* ([(j, and_then t k)], w) ([(j, u)], w')"
  using run_part [of 0 "[(j, and_then t k)]" j t k w a w'] assms by simp

abbreviation demo_running where
  "demo_running \<equiv> running demo_platform demo_config"

definition demo_new :: url where
  "demo_new = zero_url\<lparr>u_OriginalURL := demo_url, u_ExpiresAt := Some (demo_time + 30 * (24 * hour))\<rparr>"

abbreviation demo_creating :: "(world, answer) thread" where
  "demo_creating \<equiv> ending (shorten_create_thread w_clock (shortenerSvc demo_platform demo_config) demo_url
     (status_result ScanClean demo_time)) Shortened"

definition demo_waiting :: "(world, answer) thread" where
  "demo_waiting = ending (shorten_finish_thread (shortenerSvc demo_platform demo_config) demo_url
     (status_result ScanClean demo_time) (demo_new\<lparr>u_ID := 1\<rparr>)) Shortened"

lemma demo_scan_runs:
  "demo_running\<^sup>*\<^sup>* ([(j, job_thread demo_platform demo_config (ShortenJob None demo_url))], demo_start)
     ([(j, demo_creating)], demo_scanned)"
proof -
  let ?svc = "shortenerSvc demo_platform demo_config" and ?scan = "job_scan demo_platform demo_config"
  let ?new = "ending (shorten_new_thread ?scan w_clock ?svc None demo_url) Shortened"
    and ?scanning = "ending (and_then (?scan (Some (demo_time + 10 * second)) demo_url)
      (\<lambda>(r, _). shorten_create_thread w_clock ?svc demo_url r)) Shortened"
  have ctx: "WithTimeout None (w_clock demo_start) (10 * second) = Some (demo_time + 10 * second)"
    by (simp add: WithTimeout_def demo_start_def empty_world_def demo_time_def)
  have find: "demo_running\<^sup>*\<^sup>* ([(j, ending (shorten_thread ?scan (pf_lib demo_platform) w_clock ?svc None demo_url) Shortened)], demo_start)
      ([(j, ?new)], tick demo_start)"
    unfolding shorten_thread_def demo_platform_sel lib.select_convs demo_url_ok shortener_baseURL demo_config_sel
      sum.case ending_and_then
    by (rule run_single [where a = "Inl (Sentinel ErrURLNotFound)"])
      (simp add: find_original_calls demo_start_def empty_world_def, simp)
  have clock: "demo_running\<^sup>*\<^sup>* ([(j, ?new)], tick demo_start) ([(j, ?scanning)], tick demo_start)"
    unfolding shorten_new_thread_def ending_and_then
    by (rule run_single [where a = "w_clock demo_start"]) (simp_all add: ctx)
  have scan: "demo_running\<^sup>*\<^sup>* ([(j, ?scanning)], tick demo_start) ([(j, demo_creating)], demo_scanned)"
    unfolding ending_and_then
    by (rule run_single [where a = "(status_result ScanClean demo_time, None)"]) (simp_all add: job_scan_alone demo_scan)
  show ?thesis
    unfolding job_thread.simps by (rule rtranclp_trans [OF rtranclp_trans [OF find clock] scan])
qed

lemma demo_create_runs: "demo_running\<^sup>*\<^sup>* ([(j, demo_creating)], demo_scanned) ([(j, demo_waiting)], demo_created)"
proof -
  define created where "created = (\<lambda>r :: goerr + url. ending (case r of
      Inl e \<Rightarrow> Done (shorten_err zero_scan_result (Wrapf ''shortener: create: %w'' [] e))
    | Inr u' \<Rightarrow> shorten_finish_thread (shortenerSvc demo_platform demo_config) demo_url (status_result ScanClean demo_time) u')
    Shortened)"
  have "sr_Status (status_result ScanClean demo_time) \<noteq> ScanMalicious" by (simp add: status_result_def scan_status_defs)
  then have c: "demo_creating = and_then (ask_clock w_clock) (\<lambda>t. and_then (perform (Create (mysql demo_env)
      (zero_url\<lparr>u_OriginalURL := demo_url, u_ExpiresAt := Some (AddDate_days t 30)\<rparr>))) created)"
    by (simp only: shorten_create_thread_def if_False Let_def shortenerSvc_sel urlRepository_sel demo_config_sel
        demo_platform_sel ending_and_then created_def)
  have "demo_running\<^sup>*\<^sup>* ([(j, demo_creating)], demo_scanned) ([(j, and_then (perform (Create (mysql demo_env) demo_new)) created)], demo_scanned)"
    unfolding c by (rule run_single [where a = demo_time]) (simp_all add: AddDate_days_def demo_new_def)
  moreover have "demo_running\<^sup>*\<^sup>* ([(j, and_then (perform (Create (mysql demo_env) demo_new)) created)], demo_scanned)
      ([(j, demo_waiting)], demo_created)"
    by (rule run_single [where a = "Inr (demo_new\<lparr>u_ID := 1\<rparr>)"])
      (simp_all add: demo_create [simplified] demo_waiting_def demo_new_def created_def)
  ultimately show ?thesis by (rule rtranclp_trans)
qed

lemma demo_second:
  "job_run demo_platform demo_config (ShortenJob None demo_url) demo_created =
    (Shortened (Some demo_row, zero_scan_result\<lparr>sr_Status := ''pending''\<rparr>, None), tick demo_created)"
proof -
  have "select_urls demo_env (ByOriginalURL demo_url) demo_created = [demo_row]"
    by (simp add: demo_created_def demo_row_def not_expired_def now_def demo_time_def second_def hour_def minute_def)
  then show ?thesis
    by (simp add: Shorten_def demo_url_ok find_original_calls demo_row_def)
qed

lemma demo_unhashed_run:
  "demo_running\<^sup>*\<^sup>* ([], empty_world demo_time)
     ([(ShortenJob None demo_url, demo_waiting),
       (ShortenJob None demo_url, Done (Shortened (Some demo_row, zero_scan_result\<lparr>sr_Status := ''pending''\<rparr>, None)))], tick demo_created)"
proof -
  let ?j = "ShortenJob None demo_url" and ?t = "job_thread demo_platform demo_config (ShortenJob None demo_url)"
  have "demo_running ([], demo_start) ([] @ [(?j, ?t)], demo_start)" by (rule spawn) simp
  then have "demo_running\<^sup>*\<^sup>* ([], demo_start) ([(?j, ?t)], demo_start)" by (simp only: append_Nil r_into_rtranclp)
  from rtranclp_trans [OF rtranclp_trans [OF this demo_scan_runs] demo_create_runs]
  have "demo_running\<^sup>*\<^sup>* ([], demo_start) ([(?j, demo_waiting)], demo_created)" .
  moreover have "demo_running\<^sup>*\<^sup>* ([(?j, demo_waiting)], demo_created) ([(?j, demo_waiting)] @
      [(?j, Done (Shortened (Some demo_row, zero_scan_result\<lparr>sr_Status := ''pending''\<rparr>, None)))], tick demo_created)"
    by (rule run_new) (simp_all only: starts.simps job_alone demo_second)
  ultimately show ?thesis unfolding demo_start_def demo_time_def by (simp only: append.simps rtranclp_trans)
qed

section \<open>Properties\<close>

text \<open>C4: whatever the order in which the calls of concurrent requests, jobs and the clock interleave, and
  whatever faults happen, the invariant of the system holds after every call. A visit that has been
  answered with a URL leads to a stored, validated URL that its hash selects, although reports,
  rescans and other requests ran in between; and a URL that was answered to a client is in the
  table, with the hash that was answered, unless that was still empty.\<close>

theorem interleavings_safe:
  assumes "(running p cfg)\<^sup>*\<^sup>* ([], empty_world t) (ts, w)"
  shows "sys_ok p cfg w \<and>
    (\<forall>h u. (ResolveJob h, Done (Resolved (Some u, None))) \<in> set ts \<longrightarrow>
      (\<exists>r\<in>set (w_urls w). same_text (pf_env p) (u_Hash r) h \<and> u_OriginalURL r = u_OriginalURL u \<and>
        ValidateURL (pf_uc p) (lib_idna (pf_lib p)) (u_OriginalURL u) (cfg_BaseURL cfg) = Inr ())) \<and>
    (\<forall>ctx url u r. (ShortenJob ctx url, Done (Shortened (Some u, r, None))) \<in> set ts \<longrightarrow>
      u_Hash u \<in> {[], Encode (u_ID u)} \<and>
      (\<exists>x\<in>set (w_urls w). u_ID x = u_ID u \<and> u_OriginalURL x = u_OriginalURL u \<and> u_Hash u \<in> {[], u_Hash x}))"
proof (intro conjI allI impI)
  show ok: "sys_ok p cfg w" by (rule running_sys_ok [OF assms])
  fix h u assume "(ResolveJob h, Done (Resolved (Some u, None))) \<in> set ts"
  then have "resolver.answers p w h u"
    using running_promise [OF assms] by (fastforce simp: job_promise_def resolver.resolved_def)
  from resolver.answers_good [OF this] ok show "\<exists>r\<in>set (w_urls w). same_text (pf_env p) (u_Hash r) h \<and>
      u_OriginalURL r = u_OriginalURL u \<and> ValidateURL (pf_uc p) (lib_idna (pf_lib p)) (u_OriginalURL u) (cfg_BaseURL cfg) = Inr ()"
    by (fastforce simp: sys_ok_def row_good_def)
next
  fix ctx url u r assume "(ShortenJob ctx url, Done (Shortened (Some u, r, None))) \<in> set ts"
  then have "recorded (world_view p) w u"
    using running_promise [OF assms] by (fastforce simp: job_promise_def shortened_def)
  then obtain x where x: "x \<in> set (w_urls w)" "row_evolves u x" by (auto simp: recorded_def)
  moreover have "u_Hash x \<in> {[], Encode (u_ID x)}" using running_sys_ok [OF assms] x(1) by (auto simp: sys_ok_iff)
  ultimately show "u_Hash u \<in> {[], Encode (u_ID u)}"
    "\<exists>x\<in>set (w_urls w). u_ID x = u_ID u \<and> u_OriginalURL x = u_OriginalURL u \<and> u_Hash u \<in> {[], u_Hash x}"
    by (auto simp: row_evolves_def)
qed

theorem interleavings_safe_witness:
  "u_Hash demo_row \<in> {[], Encode 1} \<and>
   (\<exists>x\<in>set (w_urls (tick demo_created)). u_ID x = 1 \<and> u_OriginalURL x = ''https://example.org/page'')"
  using interleavings_safe [OF demo_unhashed_run] by (fastforce simp: demo_row_def demo_url_def)

text \<open>A job that no other interrupts answers what the service's function computes, and leaves the state
  that it computes: the functions of the services are what their calls do one after the other.\<close>

theorem jobs_alone: "alone (job_thread p cfg j) w = job_run p cfg j w"
  by (rule job_alone)

text \<open>A request or a write of a click ends after at most ten of its own calls, whatever MySQL, Redis, the
  scanner and the clock answer to them and whatever the others do in between.\<close>

theorem requests_end: "\<not> is_cycle j \<Longrightarrow> within (job_thread p cfg j) 10"
  by (rule job_within)

theorem requests_end_witness: "within (job_thread demo_platform demo_config (ShortenJob None demo_url)) 10"
  by (rule requests_end) simp

end
