(* ===== verification/HandlerThreads.thy ===== *)
theory HandlerThreads
  imports Server Interleavings
begin

text \<open>
  The HTTP handlers as threads, cut at their calls: the limiter, the calls of their service, the clock
  and the hand-over to the dispatcher. The writer of a response belongs to its request alone. A
  request that nothing interrupts does what its handler in \<open>Handlers\<close> does (\<open>endpoint_alone\<close>), in a
  bounded number of calls (\<open>endpoint_within\<close>).
\<close>

section \<open>Handlers over threads\<close>

text \<open>The panic's value, if the handler panics, and the response so far.\<close>

type_synonym reply = "string option \<times> writer"
type_synonym 's handler_thread = "request \<Rightarrow> writer \<Rightarrow> ('s, reply) thread"

abbreviation replies :: "writer \<Rightarrow> ('s, reply) thread" where
  "replies w \<equiv> thread.Done (None, w)"

abbreviation panics :: "string \<Rightarrow> writer \<Rightarrow> ('s, reply) thread" where
  "panics e w \<equiv> thread.Done (Some e, w)"

text \<open>\<open>shorten.go\<close>, with the service as a thread.\<close>

definition shorten_handler_thread ::
  "(ctx \<Rightarrow> string \<Rightarrow> ('s, shorten_result) thread) \<Rightarrow> unicode_tables \<Rightarrow> 's ShortenHandler \<Rightarrow> 's handler_thread" where
  "shorten_handler_thread shorten uc h r w = (case Decode_strict uc ShortenRequest_fields (rq_Body r) [] of
     Inl MaxBytesError \<Rightarrow> replies (WriteError 413 ''request body too large'' ''ERR_BODY_TOO_LARGE'' w)
   | Inl UnknownFieldError \<Rightarrow> replies (WriteError 400 ''unknown fields in request body'' ''ERR_UNKNOWN_FIELDS'' w)
   | Inl InvalidBody \<Rightarrow> replies (WriteError 400 ''invalid request body'' ''ERR_INVALID_BODY'' w)
   | Inr url \<Rightarrow> and_then (shorten (rq_ctx r) url) (\<lambda>(u, result, err). case err of
        Some e \<Rightarrow> replies (shorten_failure uc result e w)
      | None \<Rightarrow>
          let w' = (if sr_Status result = ScanUnverified then Header_Set ''X-Scan-Status'' ''unverified'' w else w)
          in (case u of
                None \<Rightarrow> panics nil_dereference w'
              | Some u \<Rightarrow> replies (WriteJSON 201 (shorten_response (u_Hash u) (hs_baseURL h @ ''/'' @ u_Hash u)) w'))))"

text \<open>\<open>redirect.go\<close>: the click is handed over after the clock has been read for it.\<close>

definition submit_thread ::
  "'s clock \<Rightarrow> 's RedirectHandler \<Rightarrow> request \<Rightarrow> url \<Rightarrow> string \<Rightarrow> writer \<Rightarrow> ('s, reply) thread" where
  "submit_thread clk h r u cleaned w =
     and_then (ask_clock clk) (\<lambda>t.
     and_then (perform (\<lambda>s. case rh_Submit h (click_event (\<lambda>_. t) h r u s) s of
         None \<Rightarrow> (False, s) | Some s' \<Rightarrow> (True, s'))) (\<lambda>sent.
       if sent then replies (redirect_to cleaned w) else panics ''send on closed channel'' w))"

definition redirect_handler_thread ::
  "(string \<Rightarrow> ('s, resolve_result) thread) \<Rightarrow> 's clock \<Rightarrow> 's RedirectHandler \<Rightarrow> 's handler_thread" where
  "redirect_handler_thread resolve clk h r w =
     (let hash = rq_hash r in
      if \<not> hashPattern hash then replies (WriteError 404 ''url not found'' ''ERR_NOT_FOUND'' w)
      else and_then (resolve hash) (\<lambda>(u, err). case err of
        Some e \<Rightarrow> replies (redirect_failure u e w)
      | None \<Rightarrow> (case u of
          None \<Rightarrow> panics nil_dereference w
        | Some u \<Rightarrow>
            let cleaned = sanitizeRedirectURL (u_OriginalURL u) in
            if \<not> valid_scheme cleaned
            then and_then (if_some (rh_cache h) (\<lambda>del. del hash)) (\<lambda>_.
              replies (WriteError 500 ''internal server error'' ''ERR_INTERNAL'' w))
            else submit_thread clk h r u cleaned w)))"

text \<open>\<open>analytics.go\<close>, \<open>report.go\<close> and \<open>health.go\<close>.\<close>

definition analytics_handler_thread :: "(string \<Rightarrow> ('s, goerr + stats) thread) \<Rightarrow> 's handler_thread" where
  "analytics_handler_thread stats r w = and_then (stats (rq_hash r)) (\<lambda>q. case q of
     Inl e \<Rightarrow>
       if err_is e ErrURLNotFound then replies (WriteError 404 ''url not found'' ''ERR_NOT_FOUND'' w)
       else replies (WriteError 500 ''internal server error'' ''ERR_INTERNAL'' w)
   | Inr st \<Rightarrow> replies (WriteJSON 200 (stats_json st) w))"

definition report_handler_thread ::
  "(string \<Rightarrow> string \<Rightarrow> string \<Rightarrow> ('s, goerr option) thread) \<Rightarrow> unicode_tables \<Rightarrow> 's handler_thread" where
  "report_handler_thread report uc r w =
     (let rawIP = (case split_host_port (rq_RemoteAddr r) of Some (host, _) \<Rightarrow> host | None \<Rightarrow> rq_RemoteAddr r) in
      case Decode_strict uc ReportRequest_fields (rq_Body r) [] of
        Inl UnknownFieldError \<Rightarrow> replies (WriteError 400 ''unknown fields in request body'' ''ERR_UNKNOWN_FIELDS'' w)
      | Inl _ \<Rightarrow> replies (WriteError 400 ''invalid request body'' ''ERR_INVALID_BODY'' w)
      | Inr reason \<Rightarrow> and_then (report (rq_hash r) rawIP reason) (\<lambda>err. case err of
           Some e \<Rightarrow> replies (report_failure e w)
         | None \<Rightarrow> replies (WriteJSON 201 (report_response ''report received'') w)))"

definition health_thread :: "'s HealthHandler \<Rightarrow> 's handler_thread" where
  "health_thread h r w =
     and_then (perform (hh_pingMySQL h)) (\<lambda>mysqlOK.
     and_then (perform (hh_pingRedis h)) (\<lambda>redisOK.
       if mysqlOK \<and> redisOK then replies (WriteJSON 200 (JObj [(''status'', JStr ''ok'')]) w)
       else replies (WriteJSON 503 (JObj [(''status'', JStr ''degraded'')]) w)))"

definition health_details_thread :: "'s HealthHandler \<Rightarrow> 's handler_thread" where
  "health_details_thread h r w =
     (if hh_healthSecretKey h = [] then replies (WriteError 404 ''not found'' ''ERR_NOT_FOUND'' w)
      else if header_get (rq_Header r) ''X-Health-Key'' \<noteq> hh_healthSecretKey h
      then replies (WriteError 403 ''forbidden'' ''ERR_FORBIDDEN'' w)
      else and_then (perform (hh_pingMySQL h)) (\<lambda>mysqlOK.
           and_then (perform (hh_pingRedis h)) (\<lambda>redisOK.
             let mysqlStatus = (if mysqlOK then ''up'' else ''down''); redisStatus = (if redisOK then ''up'' else ''down'');
                 down = (mysqlStatus = ''down'' \<or> redisStatus = ''down'')
             in replies (WriteJSON (if down then 503 else 200)
                  (JObj [(''status'', JStr (if down then ''degraded'' else ''ok'')), (''mysql'', JStr mysqlStatus),
                     (''redis'', JStr redisStatus)]) w))))"

text \<open>What a handler of \<open>Handlers\<close> has done, for a comparison.\<close>

definition outcome :: "string option \<times> 's conn \<Rightarrow> reply \<times> 's" where
  "outcome x = ((fst x, cn_w (snd x)), cn_state (snd x))"

lemma outcome_respond [simp]: "outcome (respond f s c) = ((None, f (cn_w c)), s)"
  by (simp add: outcome_def respond_def serve_return_def)

lemma outcome_pair [simp]: "outcome (x, c) = ((x, cn_w c), cn_state c)"
  by (simp add: outcome_def)

text \<open>A handler and its thread agree when nothing runs in between.\<close>

definition imitates :: "'s handler_thread \<Rightarrow> 's handler \<Rightarrow> bool" where
  "imitates t h \<longleftrightarrow> (\<forall>r c. alone (t r (cn_w c)) (cn_state c) = outcome (h r c))"

lemma imitatesD: "imitates t h \<Longrightarrow> alone (t r (cn_w c)) (cn_state c) = outcome (h r c)"
  by (simp add: imitates_def)

lemma shorten_handler_alone:
  assumes "\<And>ctx url s. alone (shorten ctx url) s = hs_Shorten h ctx url s"
  shows "imitates (shorten_handler_thread shorten uc h) (ShortenHandle uc h)"
  by (auto simp: imitates_def shorten_handler_thread_def ShortenHandle_def respond_error_def assms Let_def
      split: sum.split decode_error.split prod.split option.split)

lemma redirect_handler_alone:
  assumes "\<And>hash s. alone (resolve hash) s = rh_Resolve h hash s"
  shows "imitates (redirect_handler_thread resolve clk h) (RedirectHandle clk h)"
proof -
  have ev: "click_event (\<lambda>_. clk s) h r u s' = click_event clk h r u s" for r u s s' by (simp add: click_event_def)
  show ?thesis
    by (auto simp: imitates_def redirect_handler_thread_def submit_thread_def RedirectHandle_def respond_error_def assms ev Let_def
        split: prod.split option.split)
qed

lemma analytics_handler_alone:
  assumes "\<And>hash s. alone (stats hash) s = ha_GetStats h hash s"
  shows "imitates (analytics_handler_thread stats) (AnalyticsHandle h)"
  by (auto simp: imitates_def analytics_handler_thread_def AnalyticsHandle_def respond_error_def assms split: prod.split sum.split)

lemma report_handler_alone:
  assumes "\<And>hash ip reason s. alone (report hash ip reason) s = hr_Report h hash ip reason s"
  shows "imitates (report_handler_thread report uc) (ReportHandle uc h)"
  by (auto simp: imitates_def report_handler_thread_def ReportHandle_def respond_error_def assms Let_def
      split: sum.split decode_error.split prod.split option.split)

lemma health_alone:
  "imitates (health_thread h) (HealthHandle h)"
  "imitates (health_details_thread h) (HandleDetails h)"
  by (auto simp: imitates_def health_thread_def HealthHandle_def health_details_thread_def HandleDetails_def respond_error_def Let_def
      split: prod.split)

section \<open>The endpoints\<close>

text \<open>The middleware of a route; \<open>getEntry\<close> and \<open>Allow\<close> of the limiter are one step.\<close>

definition limited_thread ::
  "('f, 'l) rate_lib \<Rightarrow> 's clock \<Rightarrow> ('s, 'f, 'l) limiter_ref \<Rightarrow> string \<Rightarrow> 's handler_thread \<Rightarrow> 's handler_thread" where
  "limited_thread lib clk ref trustedProxies next r w =
     and_then (perform (\<lambda>s. case allow_ip lib (clk s) (getIP r trustedProxies) (lr_get ref s) of
         (ok, rl) \<Rightarrow> (ok, lr_put ref rl s))) (\<lambda>ok.
       if \<not> ok then replies (too_many_requests w) else next r w)"

definition body_limit_thread :: "int \<Rightarrow> 's handler_thread \<Rightarrow> 's handler_thread" where
  "body_limit_thread maxBytes next r w = next (r\<lparr>rq_Body := MaxBytesReader maxBytes (rq_Body r)\<rparr>) w"

definition require_json_thread :: "unicode_tables \<Rightarrow> 's handler_thread \<Rightarrow> 's handler_thread" where
  "require_json_thread uc next r w =
     (let ct = header_get (rq_Header r) ''Content-Type'' in
      if \<not> str_contains (to_lower uc ct) ''application/json''
      then replies ((Encode_json (error_json ''unsupported media type'' ''ERR_UNSUPPORTED_MEDIA_TYPE'')
             \<circ> WriteHeader 415 \<circ> Header_Set ''Content-Type'' ''application/json'') w)
      else next r w)"

text \<open>A thread on MySQL and Redis in the state of the server.\<close>

primrec in_server :: "(world, 'a) thread \<Rightarrow> (('f, 'l) server, 'a) thread" where
  "in_server (thread.Done a) = thread.Done a"
| "in_server (Await f) = Await (\<lambda>sv. case map_prod in_server id (f (sv_world sv)) of (t, w) \<Rightarrow> (t, sv\<lparr>sv_world := w\<rparr>))"

fun endpoint_thread :: "platform \<Rightarrow> config \<Rightarrow> ('f, 'l) server_lib \<Rightarrow> endpoint \<Rightarrow> ('f, 'l) server handler_thread" where
  "endpoint_thread p cfg lib GetHealth = health_thread (healthHandler p cfg)"
| "endpoint_thread p cfg lib GetHealthDetails = health_details_thread (healthHandler p cfg)"
| "endpoint_thread p cfg lib PostShorten = limited_thread (sl_rate lib) server_now shortenLimiter (cfg_TrustedProxies cfg)
     (body_limit_thread (2 ^ 20) (require_json_thread (pf_uc p) (shorten_handler_thread
       (\<lambda>ctx url. in_server (shorten_thread (job_scan p cfg) (pf_lib p) w_clock (shortenerSvc p cfg) ctx url))
       (pf_uc p) (shortenHandler p cfg))))"
| "endpoint_thread p cfg lib GetAnalytics = limited_thread (sl_rate lib) server_now analyticsLimiter (cfg_TrustedProxies cfg)
     (analytics_handler_thread (\<lambda>h. in_server (stats_thread (analyticsSvc p) h)))"
| "endpoint_thread p cfg lib PostReport = limited_thread (sl_rate lib) server_now reportLimiter (cfg_TrustedProxies cfg)
     (body_limit_thread (2 ^ 20) (require_json_thread (pf_uc p) (report_handler_thread
       (\<lambda>h ip reason. in_server (report_thread (reportSvc p cfg) h ip reason)) (pf_uc p))))"
| "endpoint_thread p cfg lib GetHash = limited_thread (sl_rate lib) server_now redirectLimiter (cfg_TrustedProxies cfg)
     (redirect_handler_thread (\<lambda>h. in_server (resolve_thread w_clock (redirectorSvc p cfg) h)) server_now (redirectHandler p cfg))"

declare in_server.simps(2) [simp del]

lemma in_server_Await [simp]:
  "in_server (Await f) = Await (\<lambda>sv. case f (sv_world sv) of (t, w) \<Rightarrow> (in_server t, sv\<lparr>sv_world := w\<rparr>))"
  by (simp add: in_server.simps map_prod_def split_beta)

lemma alone_in_server [simp]: "alone (in_server t) sv = in_world (alone t) sv"
  by (induction t arbitrary: sv rule: thread_induct) (auto simp: in_world_def split_beta)

lemma within_in_server: "within t n \<Longrightarrow> within (in_server t) n"
  by (induction t arbitrary: n rule: thread_induct) (auto simp: split_beta)

section \<open>Uninterrupted requests\<close>

lemma limited_alone: "imitates t h \<Longrightarrow> imitates (limited_thread lib clk ref tp t) (MiddlewareWithProxies lib clk ref tp h)"
proof -
  assume t: "imitates t h"
  have "alone (t r (cn_w c)) (f (cn_state c)) = outcome (h r (on_state f c))" for r c f
    using imitatesD [OF t, of r "on_state f c"] by simp
  then show ?thesis
    by (auto simp: imitates_def limited_thread_def MiddlewareWithProxies_def serve_return_def Let_def split: prod.split)
qed

lemma body_alone:
  "imitates t h \<Longrightarrow> imitates (body_limit_thread n t) (BodyLimit n h)"
  "imitates t h \<Longrightarrow> imitates (require_json_thread uc t) (RequireJSON uc h)"
  by (auto simp: imitates_def body_limit_thread_def BodyLimit_def require_json_thread_def RequireJSON_def serve_return_def Let_def)

lemmas alone_lemmas = limited_alone body_alone shorten_handler_alone redirect_handler_alone analytics_handler_alone
  report_handler_alone health_alone

lemma endpoint_imitates: "imitates (endpoint_thread p cfg lib e) (endpoint_handler p cfg lib e)"
  by (cases e) (auto simp: limited_def shortenHandler_def NewShortenHandler_def redirectHandler_def SetTrustedProxies_def
      NewRedirectHandlerWithCache_def analyticsHandler_def NewAnalyticsHandler_def reportHandler_def NewReportHandler_def
      in_world_def shorten_alone [OF job_scan_alone] resolve_alone report_alone stats_alone intro!: alone_lemmas)

section \<open>How many calls a request makes\<close>

lemma within_done [calls_within]: "within (thread.Done a) n"
  by simp

text \<open>A handler makes the calls of its service, and those it adds.\<close>

lemma within_service: "within t m \<Longrightarrow> (\<And>a. within (k a) (n - m)) \<Longrightarrow> m \<le> n \<Longrightarrow> within (and_then t k) n"
  using within_and_then [of t m k "n - m"] by simp

lemma limited_within:
  assumes "\<And>r w. within (t r w) n" shows "within (limited_thread lib clk ref tp t r w) (Suc n)"
  unfolding limited_thread_def by (rule within_call) (simp_all add: assms)

lemma body_within:
  "(\<And>r w. within (t r w) n) \<Longrightarrow> within (body_limit_thread k t r w) n"
  "(\<And>r w. within (t r w) n) \<Longrightarrow> within (require_json_thread uc t r w) n"
  by (auto simp: body_limit_thread_def require_json_thread_def Let_def)

lemma shorten_handler_within:
  assumes "\<And>ctx url. within (shorten ctx url) n" shows "within (shorten_handler_thread shorten uc h r w) n"
  by (auto simp: shorten_handler_thread_def Let_def split: sum.split decode_error.split option.split
      intro!: within_service [OF assms])

lemma redirect_handler_within:
  assumes "\<And>hash. within (resolve hash) n" shows "within (redirect_handler_thread resolve clk h r w) (n + 2)"
  by (auto simp: redirect_handler_thread_def submit_thread_def Let_def split: option.split
      intro!: within_service [OF assms] calls_within)

lemma analytics_handler_within:
  assumes "\<And>hash. within (stats hash) n" shows "within (analytics_handler_thread stats r w) n"
  by (auto simp: analytics_handler_thread_def split: sum.split intro!: within_service [OF assms])

lemma report_handler_within:
  assumes "\<And>hash ip reason. within (report hash ip reason) n" shows "within (report_handler_thread report uc r w) n"
  by (auto simp: report_handler_thread_def Let_def split: sum.split decode_error.split option.split
      intro!: within_service [OF assms])

lemma health_within: "within (health_thread h r w) 2" "within (health_details_thread h r w) 2"
  by (auto simp: health_thread_def health_details_thread_def Let_def intro!: calls_within)

lemma endpoint_within:
  fixes lib :: "('f, 'l) server_lib"
  shows "within (endpoint_thread p cfg lib e r w) 11"
proof (cases e)
  case PostShorten
  have s: "within (in_server (shorten_thread (job_scan p cfg) (pf_lib p) w_clock (shortenerSvc p cfg) ctx url) :: (('f, 'l) server, _) thread) 10" for ctx url
    by (rule within_in_server) (simp add: shorten_within job_scan_def cached_scan_within)
  show ?thesis unfolding PostShorten endpoint_thread.simps
    by (rule within_more [OF limited_within [OF body_within(1) [OF body_within(2) [OF shorten_handler_within [OF s]]]]]) simp
next
  case PostReport
  have s: "within (in_server (report_thread (reportSvc p cfg) h ip reason) :: (('f, 'l) server, _) thread) 5" for h ip reason
    by (rule within_in_server) (rule report_within)
  show ?thesis unfolding PostReport endpoint_thread.simps
    by (rule within_more [OF limited_within [OF body_within(1) [OF body_within(2) [OF report_handler_within [OF s]]]]]) simp
next
  case GetAnalytics
  have s: "within (in_server (stats_thread (analyticsSvc p) h) :: (('f, 'l) server, _) thread) 4" for h
    by (rule within_in_server) (rule stats_within)
  show ?thesis unfolding GetAnalytics endpoint_thread.simps
    by (rule within_more [OF limited_within [OF analytics_handler_within [OF s]]]) simp
next
  case GetHash
  have s: "within (in_server (resolve_thread w_clock (redirectorSvc p cfg) h) :: (('f, 'l) server, _) thread) 4" for h
    by (rule within_in_server) (rule resolve_within)
  show ?thesis unfolding GetHash endpoint_thread.simps
    by (rule within_more [OF limited_within [OF redirect_handler_within [OF s]]]) simp
qed (auto intro: within_more [OF health_within(1)] within_more [OF health_within(2)])

end
