(* ===== verification/ClickFrames.thy ===== *)
theory ClickFrames
  imports ClickStore
begin

text \<open>
  The services touch the state only through the calls they are given: a relation that every
  call respects is respected by the service. For the clicks table this leaves the dispatcher as
  the only writer.
\<close>

section \<open>Services under a relation\<close>

definition frames :: "('s \<Rightarrow> 's \<Rightarrow> bool) \<Rightarrow> ('s, 'a) call \<Rightarrow> bool" where
  "frames R f \<longleftrightarrow> (\<forall>s. R s (snd (f s)))"

lemma framesI: "(\<And>s. R s (snd (f s))) \<Longrightarrow> frames R f"
  by (simp add: frames_def)

lemma framesD: "frames R f \<Longrightarrow> R s (snd (f s))"
  by (simp add: frames_def)

lemma frames_step: "frames R f \<Longrightarrow> f s = (x, s') \<Longrightarrow> R s s'"
  by (metis framesD snd_conv)

locale call_frame =
  fixes R :: "'s \<Rightarrow> 's \<Rightarrow> bool"
  assumes R_refl [intro, simp]: "R s s"
    and R_trans: "R s s' \<Longrightarrow> R s' s'' \<Longrightarrow> R s s''"
begin

lemma frames_after: "R s s1 \<Longrightarrow> frames R f \<Longrightarrow> R s (snd (f s1))"
  using R_trans framesD by metis

lemma frames_finish:
  assumes "\<And>i h. frames R (rp_UpdateHash (sh_repo svc) i h)" "\<And>i r. frames R (rp_UpdateVTResult (sh_repo svc) i r)"
    and "\<And>c h orig st i t. sh_cache svc = Some c \<Longrightarrow> frames R (ch_Set c h orig st i t)"
  shows "frames R (shorten_finish svc n r u)"
proof (rule framesI)
  fix s
  obtain a s1 b s2 where 1: "rp_UpdateHash (sh_repo svc) (u_ID u) (Encode (u_ID u)) s = (a, s1)"
    and 2: "rp_UpdateVTResult (sh_repo svc) (u_ID u) r s1 = (b, s2)" by (metis surj_pair)
  have s1: "R s s1" and s2: "R s s2"
    using frames_step [OF assms(1) 1] R_trans [OF _ frames_step [OF assms(2) 2]] by blast+
  show "R s (snd (shorten_finish svc n r u s))"
    using s1 s2 assms(3) by (cases a; cases "sh_cache svc") (auto simp: shorten_finish_def 1 2 Let_def frames_after)
qed

lemma frames_Shorten:
  assumes "\<And>x. frames R (rp_FindByOriginalURL (sh_repo svc) x)" "\<And>ctx x. frames R (sc_Scan (sh_scan svc) ctx x)"
    and "\<And>u. frames R (rp_Create (sh_repo svc) u)" "\<And>n r u. frames R (shorten_finish svc n r u)"
  shows "frames R (Shorten lib clk svc ctx url)"
proof (rule framesI)
  fix s
  have new: "R s (snd (shorten_new clk svc ctx n s))" for n s
  proof -
    obtain r e s1 where 1: "sc_Scan (sh_scan svc) (WithTimeout ctx (clk s) (sh_vtTimeout svc)) n s = ((r, e), s1)" by (metis surj_pair)
    have s1: "R s s1" by (rule frames_step [OF assms(2) 1])
    obtain c s2 where 2: "rp_Create (sh_repo svc) (zero_url\<lparr>u_OriginalURL := n,
        u_ExpiresAt := Some (AddDate_days (clk s1) (sh_urlExpirationDays svc))\<rparr>) s1 = (c, s2)" by (metis surj_pair)
    have s2: "R s s2" by (rule R_trans [OF s1 frames_step [OF assms(3) 2]])
    show ?thesis using s1 s2 assms(4) by (cases c) (auto simp: shorten_new_def 1 2 Let_def frames_after)
  qed
  show "R s (snd (Shorten lib clk svc ctx url s))"
    using frames_step [OF assms(1)] R_trans [OF _ new]
    by (auto simp: Shorten_def split: sum.split prod.split)
qed

lemma frames_resolve_db:
  assumes "\<And>h. frames R (ur_FindByHash (rs_repo svc) h)"
    and "\<And>c h. rs_cache svc = Some c \<Longrightarrow> frames R (ch_Delete c h)"
    and "\<And>c h orig st i t. rs_cache svc = Some c \<Longrightarrow> frames R (ch_Set c h orig st i t)"
  shows "frames R (resolve_db clk svc h)"
proof (rule framesI)
  fix s
  obtain a s1 where 1: "ur_FindByHash (rs_repo svc) h s = (a, s1)" by (metis surj_pair)
  have s1: "R s s1" by (rule frames_step [OF assms(1) 1])
  show "R s (snd (resolve_db clk svc h s))"
    using s1 assms(2,3) by (cases a; cases "rs_cache svc") (auto simp: resolve_db_def 1 frames_after)
qed

lemma frames_Resolve:
  assumes "\<And>h. frames R (resolve_db clk svc h)"
    and "\<And>c h. rs_cache svc = Some c \<Longrightarrow> frames R (ch_Get c h)" "\<And>c h. rs_cache svc = Some c \<Longrightarrow> frames R (ch_Delete c h)"
  shows "frames R (Resolve clk svc h)"
proof (rule framesI)
  fix s
  show "R s (snd (Resolve clk svc h s))"
  proof (cases "rs_cache svc")
    case None
    with assms(1) show ?thesis by (simp add: Resolve_def framesD)
  next
    case (Some c)
    obtain a s1 where 1: "ch_Get c h s = (a, s1)" by (metis surj_pair)
    have s1: "R s s1" by (rule frames_step [OF assms(2) [OF Some] 1])
    show ?thesis using s1 assms(1) assms(3) [OF Some]
      by (cases a) (auto simp: Resolve_def Some 1 frames_after split: prod.split)
  qed
qed

lemma frames_Report:
  assumes "\<And>h. frames R (ru_FindByHash (rt_urlRepo svc) h)" "\<And>r. frames R (rr_Insert (rt_reportRepo svc) r)"
    and "\<And>i. frames R (rr_CountDistinctIPsByURLID (rt_reportRepo svc) i)"
    and "\<And>i st. frames R (ru_UpdateVTStatus (rt_urlRepo svc) i st)" "\<And>h. frames R (rc_Delete (rt_cache svc) h)"
  shows "frames R (Report svc h ip reason)"
proof (rule framesI)
  fix s
  have count: "R s s1 \<Longrightarrow> R s (report_count svc h i s1)" for s s1 i
    using assms(3-5) by (cases "rr_CountDistinctIPsByURLID (rt_reportRepo svc) i s1")
      (auto simp: report_count_def split: sum.split intro!: frames_after intro: R_trans dest: frames_step [OF assms(3)])
  obtain a s1 where 1: "ru_FindByHash (rt_urlRepo svc) h s = (a, s1)" by (metis surj_pair)
  have s1: "R s s1" by (rule frames_step [OF assms(1) 1])
  show "R s (snd (Report svc h ip reason s))"
  proof (cases a)
    case (Inl e)
    with s1 show ?thesis by (simp add: Report_def 1)
  next
    case (Inr u)
    have "R s s2" if "rr_Insert (rt_reportRepo svc) r s1 = (x, s2)" for r x s2
      by (rule R_trans [OF s1 frames_step [OF assms(2) that]])
    with s1 count Inr show ?thesis by (auto simp: Report_def 1 Let_def split: sum.split prod.split)
  qed
qed

lemma frames_GetStats:
  assumes "\<And>h. frames R (uf_FindByHash (as_urlRepo svc) h)" "\<And>i. frames R (cr_CountByURLID (as_clickRepo svc) i)"
    and "\<And>i d. frames R (cr_GroupByDay (as_clickRepo svc) i d)" "\<And>i n. frames R (cr_TopUserAgents (as_clickRepo svc) i n)"
  shows "frames R (GetStats svc h)"
proof (rule framesI)
  fix s
  obtain a s1 b s2 c s3 d s4 where 1: "uf_FindByHash (as_urlRepo svc) h s = (a, s1)"
    and 2: "cr_CountByURLID (as_clickRepo svc) (u_ID (projr a)) s1 = (b, s2)"
    and 3: "cr_GroupByDay (as_clickRepo svc) (u_ID (projr a)) 30 s2 = (c, s3)"
    and 4: "cr_TopUserAgents (as_clickRepo svc) (u_ID (projr a)) 5 s3 = (d, s4)" by (metis surj_pair)
  have s1: "R s s1" by (rule frames_step [OF assms(1) 1])
  have s2: "R s s2" by (rule R_trans [OF s1 frames_step [OF assms(2) 2]])
  have s3: "R s s3" by (rule R_trans [OF s2 frames_step [OF assms(3) 3]])
  have s4: "R s s4" by (rule R_trans [OF s3 frames_step [OF assms(4) 4]])
  show "R s (snd (GetStats svc h s))"
    using s1 s2 s3 s4 2 3 4 by (cases a; cases b; cases c; cases d) (auto simp: GetStats_def 1)
qed

lemma frames_CachedScan:
  assumes "\<And>k. frames R (rw_GetRaw (cs_inner c) k)" "\<And>k v t. frames R (rw_SetRaw (cs_inner c) k v t)"
    and "frames R (sc_Scan (cs_scan c) ctx url)"
  shows "frames R (CachedScan uc c ctx url)"
proof (rule framesI)
  fix s
  have scan: "R s (snd (scan_and_store c ctx url s))" for s
  proof -
    obtain r e s1 where 1: "sc_Scan (cs_scan c) ctx url s = ((r, e), s1)" by (metis surj_pair)
    have "R s s1" by (rule frames_step [OF assms(3) 1])
    then show ?thesis using assms(2) by (auto simp: scan_and_store_def 1 frames_after split: option.split)
  qed
  obtain a s1 where 1: "rw_GetRaw (cs_inner c) (cacheKey url) s = (a, s1)" by (metis surj_pair)
  have "R s s1" by (rule frames_step [OF assms(1) 1])
  then show "R s (snd (CachedScan uc c ctx url s))"
    using R_trans [OF _ scan] by (cases a) (auto simp: CachedScan_def 1 split: option.split)
qed

lemma frames_RunCycle:
  assumes "\<And>st. frames R (rq_FindByVTStatus (re_urlRepo r) st)" "\<And>i x. frames R (rq_UpdateVTResult (re_urlRepo r) i x)"
    and "\<And>url. frames R (sc_Scan (re_scanner r) ctx url)" "\<And>h. frames R (re_cache_Delete r h)" "\<And>d. frames R (tm_wait tm ctx d)"
  shows "R s (RunCycle tm r ctx s)"
proof -
  have one: "R s (processOne tm r ctx u s)" for u s
  proof -
    obtain x e s1 where 1: "sc_Scan (re_scanner r) ctx (u_OriginalURL u) s = ((x, e), s1)" by (metis surj_pair)
    have "R s (snd (rq_UpdateVTResult (re_urlRepo r) (u_ID u) x s1))"
      by (rule frames_after [OF frames_step [OF assms(3) 1] assms(2)])
    then show ?thesis using assms(4,5) by (auto simp: processOne_def 1 Let_def intro!: frames_after)
  qed
  have loop: "R s (rescan_loop tm r ctx us s)" for us s
    by (induction us arbitrary: s) (auto simp: Let_def one intro: R_trans [OF one])
  obtain a s1 where 1: "rq_FindByVTStatus (re_urlRepo r) ScanUnverified s = (a, s1)" by (metis surj_pair)
  have "R s s1" by (rule frames_step [OF assms(1) 1])
  then show ?thesis using R_trans [OF _ loop] by (cases a) (auto simp: RunCycle_def 1)
qed

end

section \<open>The clicks table\<close>

definition same_clicks :: "world \<Rightarrow> world \<Rightarrow> bool" where
  "same_clicks w w' \<longleftrightarrow> w_clicks w' = w_clicks w"

interpretation clicks_kept: call_frame same_clicks
  by unfold_locales (simp_all add: same_clicks_def)

fun writes_clicks :: "stmt \<Rightarrow> bool" where
  "writes_clicks (InsertClick u t ua ip) = True"
| "writes_clicks (DeleteClicks d) = True"
| "writes_clicks st = False"

lemma stmt_clicks: "\<not> writes_clicks st \<Longrightarrow> w_clicks (snd (apply_stmt env st w)) = w_clicks w"
  by (cases st) (auto simp: insert_url_def set_hash_def set_last_accessed_def set_vt_status_def set_vt_result_def
      insert_report_def Let_def update_url_def split: option.splits)

named_theorems click_frames \<open>calls that leave the clicks table alone\<close>

lemma base_clicks [click_frames]:
  "\<not> writes_clicks st \<Longrightarrow> frames same_clicks (mysql_exec env st)"
  "frames same_clicks (mysql_query env sel)"
  "frames same_clicks (redis_Get env k)" "frames same_clicks (redis_MGet env ks)"
  "frames same_clicks (redis_Pipeline env cs)" "frames same_clicks (redis_Del env ks)"
proof -
  have "w_clicks (fold redis_set cs w) = w_clicks w" for cs w by (induction cs arbitrary: w) simp_all
  then show "frames same_clicks (redis_Pipeline env cs)"
    by (auto simp: frames_def same_clicks_def redis_Pipeline_def split: option.split)
qed (auto simp: frames_def same_clicks_def stmt_clicks mysql_exec_def mysql_query_def redis_Get_def redis_MGet_def
    redis_Del_def split: option.split nat.split)

lemma base_steps:
  "mysql_exec env st w = (x, w') \<Longrightarrow> \<not> writes_clicks st \<Longrightarrow> same_clicks w w'"
  "mysql_query env sel w = (rs, w') \<Longrightarrow> same_clicks w w'"
  "redis_Get env k w = (rep, w') \<Longrightarrow> same_clicks w w'" "redis_MGet env ks w = (y, w') \<Longrightarrow> same_clicks w w'"
  "redis_Pipeline env cs w = (z, w') \<Longrightarrow> same_clicks w w'" "redis_Del env ks w = (n, w') \<Longrightarrow> same_clicks w w'"
  using base_clicks frames_step by metis+

lemma repository_clicks [click_frames]:
  "frames same_clicks (Create (mysql env) u)" "frames same_clicks (UpdateHash (mysql env) i h)"
  "frames same_clicks (UpdateVTResult (mysql env) i r)" "frames same_clicks (UpdateVTStatus (mysql env) i st)"
  "frames same_clicks (UpdateLastAccessed (mysql env) i)" "frames same_clicks (Insert_report (mysql env) rep)"
  by (rule framesI, auto simp: Create_def UpdateHash_def UpdateVTResult_def UpdateVTStatus_def UpdateLastAccessed_def
      exec_only_def Insert_report_def split: prod.split sum.split intro: base_steps(1))+

lemma query_clicks [click_frames]:
  "frames same_clicks (FindByHash (mysql env) h)" "frames same_clicks (FindByOriginalURL (mysql env) x)"
  "frames same_clicks (FindByVTStatus (mysql env) st)" "frames same_clicks (CountDistinctIPsByURLID (mysql env) i)"
  "frames same_clicks (CountByURLID (mysql env) i)" "frames same_clicks (GroupByDay (mysql env) i d)"
  "frames same_clicks (TopUserAgents (mysql env) i n)"
  by (rule framesI, auto simp: FindByHash_def FindByOriginalURL_def FindByVTStatus_def CountDistinctIPsByURLID_def
      CountByURLID_def GroupByDay_def TopUserAgents_def split: prod.split intro: base_steps(2))+

lemma cache_clicks [click_frames]:
  "frames same_clicks (cache_Get uc (redis env) h)" "frames same_clicks (cache_Delete (redis env) h)"
  "frames same_clicks (cache_Set (redis env) h orig vt i ttl)"
  "frames same_clicks (GetRaw (redis env) k)" "frames same_clicks (SetRaw (redis env) k v ttl)"
  by (rule framesI, auto simp: cache_Get_state cache_Delete_state GetRaw_state SetRaw_state cache_Set_def framesD click_frames
      split: prod.split sum.split intro: base_steps(5))+

section \<open>The services of the program\<close>

interpretation vt_clicks: vt_effects same_clicks world_timers "world_http p" for p
  by unfold_locales (auto simp: same_clicks_def world_timers_def world_wait_def world_http_def split: option.split)

lemma direct_clicks [click_frames]: "frames same_clicks (sc_Scan (vtScannerDirect p cfg) ctx url)"
proof (rule framesI)
  fix w
  have "same_clicks w (snd y)"
    if "VTScan uc w_clock world_timers (NewVirusTotalScanner k (world_http p) n) ctx url w = Some y" for uc k n y
    using vt_clicks.eff_VTScan [OF NewVirusTotalScanner_client that] by simp
  then show "same_clicks w (snd (sc_Scan (vtScannerDirect p cfg) ctx url w))"
    by (auto simp: vtScannerDirect_def Let_def total_scan_def NoopScan_def split: option.split)
qed

lemma cached_clicks [click_frames]: "frames same_clicks (sc_Scan (cachedScanner p cfg) ctx url)"
  unfolding cachedScanner_def URLScanner.select_convs
  by (rule clicks_kept.frames_CachedScan) (simp_all add: NewCachedScanner_def rawCache_def click_frames)

lemma wait_clicks [click_frames]: "frames same_clicks (tm_wait world_timers ctx d)"
  using vt_clicks.eff_wait by (simp add: frames_def)

text \<open>What a step of the system does to the clicks: only \<open>Insert\<close> adds one.\<close>

definition fewer_clicks :: "world \<Rightarrow> world \<Rightarrow> bool" where
  "fewer_clicks w w' \<longleftrightarrow> click_rows w' \<subseteq># click_rows w"

lemma fewer_clicks_eta: "fewer_clicks = (\<lambda>w w'. click_rows w' \<subseteq># click_rows w)"
  by (simp add: fewer_clicks_def fun_eq_iff)

lemma same_fewer: "same_clicks w w' \<Longrightarrow> fewer_clicks w w'"
  by (simp add: same_clicks_def fewer_clicks_def click_rows_def)

lemma remove_first_subset: "mset (remove_first n P xs) \<subseteq># mset xs"
  by (induction n P xs rule: remove_first.induct) (auto intro: subset_add_mset)

lemma delete_fewer: "fewer_clicks w (snd (DeleteOlderThan (mysql env) d w))"
proof -
  have del: "click_rows (snd (delete_clicks d w)) \<subseteq># click_rows w" for w
    by (simp add: delete_clicks_def Let_def click_rows_def remove_first_subset image_mset_subseteq_mono)
  from this [of "tick w"] show ?thesis
    by (auto simp: fewer_clicks_def exec_state_keeps mysql_exec_def split: option.split nat.split)
qed

lemma shorten_clicks: "frames same_clicks (shorten_step p cfg ctx url)"
  by (rule clicks_kept.frames_Shorten; (rule clicks_kept.frames_finish)?)
    (auto simp: shortenerSvc_def NewShortenerService_def urlRepository_def urlCache_def Let_def click_frames)

lemma resolve_clicks: "frames same_clicks (resolve_step p cfg h)"
  by (rule clicks_kept.frames_Resolve; (rule clicks_kept.frames_resolve_db)?)
    (auto simp: redirectorSvc_def NewRedirectorService_def urlReader_def urlCache_def Let_def click_frames)

lemma report_clicks: "frames same_clicks (Report (reportSvc p cfg) h ip reason)"
  by (rule clicks_kept.frames_Report) (auto simp: reportSvc_def NewReportService_def Let_def click_frames)

lemma stats_clicks: "frames same_clicks (GetStats (analyticsSvc p) h)"
  by (rule clicks_kept.frames_GetStats) (auto simp: analyticsSvc_def NewAnalyticsService_def Let_def click_frames)

lemma rescan_clicks: "same_clicks w (RunCycle world_timers (rescanner p cfg) ctx w)"
  by (rule clicks_kept.frames_RunCycle) (auto simp: rescanner_def NewRescanner_def click_frames)

end
