(* ===== verification/ThreadFrames.thy ===== *)
theory ThreadFrames
  imports ClickFrames ServiceThreads
begin

text \<open>
  Threads all of whose calls respect a relation on states, as \<open>ClickFrames\<close> has it for calls:
  whatever is interleaved with it, a thread of a service leaves the clicks table alone.
\<close>

section \<open>Threads under a relation\<close>

primrec framed :: "('s \<Rightarrow> 's \<Rightarrow> bool) \<Rightarrow> ('s, 'a) thread \<Rightarrow> bool" where
  "framed R (Done a) = True"
| "framed R (Await f) = (\<forall>s. case map_prod (framed R) id (f s) of (P, s') \<Rightarrow> P \<and> R s s')"

declare framed.simps(2) [simp del]

lemma framed_Await [simp]: "framed R (Await f) \<longleftrightarrow> (\<forall>s. framed R (fst (f s)) \<and> R s (snd (f s)))"
  by (simp add: framed.simps map_prod_def split_beta)

lemma framed_and_then: "framed R t \<Longrightarrow> (\<And>a. framed R (k a)) \<Longrightarrow> framed R (and_then t k)"
  by (induction t rule: thread_induct) (auto simp: split_beta)

lemma framed_perform: "frames R f \<Longrightarrow> framed R (perform f)"
  by (auto simp: perform_simps frames_def split_beta)

lemma framed_call: "frames R f \<Longrightarrow> (\<And>a. framed R (k a)) \<Longrightarrow> framed R (and_then (perform f) k)"
  by (rule framed_and_then [OF framed_perform])

context call_frame
begin

lemma framed_clock: "(\<And>t. framed R (k t)) \<Longrightarrow> framed R (and_then (ask_clock clk) k)"
  unfolding ask_clock_def by (rule framed_call) (simp add: frames_def)

lemma framed_if_some:
  "(\<And>x. c = Some x \<Longrightarrow> frames R (f x)) \<Longrightarrow> (\<And>a. framed R (k a)) \<Longrightarrow> framed R (and_then (if_some c f) k)"
  by (cases c) (auto simp: if_some_def intro: framed_call)

end

section \<open>The services\<close>

lemmas clicks_intros = framed_call framed_perform clicks_kept.framed_clock clicks_kept.framed_if_some click_frames

lemma framed_shorten:
  assumes "\<And>ctx url. framed same_clicks (scan ctx url)"
  shows "framed same_clicks (shorten_thread scan lib clk (shortenerSvc p cfg) ctx url)"
proof -
  have sel: "rp_FindByOriginalURL (sh_repo (shortenerSvc p cfg)) = FindByOriginalURL (mysql (pf_env p))"
    "rp_Create (sh_repo (shortenerSvc p cfg)) = Create (mysql (pf_env p))"
    "rp_UpdateHash (sh_repo (shortenerSvc p cfg)) = UpdateHash (mysql (pf_env p))"
    "rp_UpdateVTResult (sh_repo (shortenerSvc p cfg)) = UpdateVTResult (mysql (pf_env p))"
    "sh_cache (shortenerSvc p cfg) = Some (urlCache p)"
    by (simp_all add: shortenerSvc_def NewShortenerService_def urlRepository_def Let_def)
  have set: "ch_Set (urlCache p) = cache_Set (redis (pf_env p))" by (simp add: urlCache_def)
  have create: "framed same_clicks (shorten_create_thread clk (shortenerSvc p cfg) n r)" for n r
    by (auto simp: shorten_create_thread_def shorten_finish_thread_def sel set Let_def intro!: clicks_intros split: sum.split)
  show ?thesis
    unfolding shorten_thread_def shorten_new_thread_def sel
    by (auto simp: create intro!: clicks_intros framed_and_then [OF assms] split: sum.split)
qed

lemma framed_cached_scan: "framed same_clicks (cached_scan_thread uc (NewCachedScanner (vtScannerDirect p cfg) (rawCache p) ttl) ctx url)"
  by (auto simp: cached_scan_thread_def scan_and_store_thread_def NewCachedScanner_def rawCache_def
      intro!: clicks_intros split: sum.split option.split)

lemma framed_resolve: "framed same_clicks (resolve_thread clk (redirectorSvc p cfg) h)"
proof -
  have sel: "ur_FindByHash (rs_repo (redirectorSvc p cfg)) = FindByHash (mysql (pf_env p))"
    "rs_cache (redirectorSvc p cfg) = Some (urlCache p)"
    by (simp_all add: redirectorSvc_def NewRedirectorService_def urlReader_def Let_def)
  have cache: "ch_Get (urlCache p) = cache_Get (pf_uc p) (redis (pf_env p))" "ch_Set (urlCache p) = cache_Set (redis (pf_env p))"
    "ch_Delete (urlCache p) = cache_Delete (redis (pf_env p))"
    by (simp_all add: urlCache_def)
  have db: "framed same_clicks (resolve_db_thread clk (redirectorSvc p cfg) h)"
    by (auto simp: resolve_db_thread_def resolve_row_thread_def sel cache intro!: clicks_intros split: sum.split)
  show ?thesis
    unfolding resolve_thread_def sel option.case cache
    by (auto simp: db intro!: clicks_intros split: sum.split)
qed

lemma framed_report: "framed same_clicks (report_thread (reportSvc p cfg) h ip reason)"
  by (auto simp: report_thread_def report_count_thread_def reportSvc_def NewReportService_def Let_def
      intro!: clicks_intros split: sum.split)

lemma framed_stats: "framed same_clicks (stats_thread (analyticsSvc p) h)"
  by (auto simp: stats_thread_def analyticsSvc_def NewAnalyticsService_def Let_def intro!: clicks_intros split: sum.split)

lemma framed_cycle: "framed same_clicks (cycle_thread world_timers (rescanner p cfg) ctx)"
proof -
  let ?r = "rescanner p cfg"
  have sel: "\<And>st. frames same_clicks (rq_FindByVTStatus (re_urlRepo ?r) st)" "\<And>i x. frames same_clicks (rq_UpdateVTResult (re_urlRepo ?r) i x)"
    "\<And>ctx url. frames same_clicks (sc_Scan (re_scanner ?r) ctx url)" "\<And>h. frames same_clicks (re_cache_Delete ?r h)"
    by (simp_all add: rescanner_def NewRescanner_def click_frames)
  have one: "framed same_clicks (process_thread world_timers ?r ctx u)" for u
    unfolding process_thread_def by (auto intro!: clicks_intros sel split: prod.split)
  have "framed same_clicks (rescan_thread world_timers ?r ctx us)" for us
    by (induction us) (auto intro!: framed_and_then [OF one] framed_call simp: frames_def)
  then show ?thesis
    unfolding cycle_thread_def by (auto intro!: clicks_intros sel split: sum.split)
qed

end
