(* ===== verification/Delivery.thy ===== *)
theory Delivery
  imports ClickStore Demo
begin

text \<open>
  The properties of the click dispatcher, and the run they are applied to: one request submits
  a click of the demo URL, the server shuts down, and the workers drain the channel.
\<close>

lemma demo_config_analytics [simp]:
  "cfg_AnalyticsWorkers demo_config = 4" "cfg_AnalyticsBuffer demo_config = 1000"
  unfolding demo_config_read by code_simp+

definition demo_event :: ClickEvent where
  "demo_event = \<lparr>ev_URLID = 1, ev_AccessedAt = demo_time, ev_UserAgent = ''curl/8.0'', ev_IP = ''203.0.113.0''\<rparr>"

definition demo_dispatcher :: "world Dispatcher" where
  "demo_dispatcher = the (dispatcher demo_platform demo_config)"

lemma demo_dispatcher_started: "dispatcher demo_platform demo_config = Some demo_dispatcher"
  by (simp add: demo_dispatcher_def dispatcher_def started_def NewDispatcher_def)

lemma demo_started:
  "started (clickInserter demo_platform) (lastAccessUpdater demo_platform) (clickCleaner demo_platform)
     (cfg_AnalyticsRetentionDays demo_config) 4 1000 = Some demo_dispatcher"
  using demo_dispatcher_started by (simp add: dispatcher_def)

lemmas demo_dispatcher_sel = started_sel [OF demo_started]

definition demo_closed :: "world pool" where
  "demo_closed = (let x = submitted demo_event (demo_dispatcher\<lparr>ds_events := [demo_event]\<rparr>) (pool_start demo_dispatcher demo_short)
     in x\<lparr>pl_disp := (pl_disp x)\<lparr>ds_closed := True\<rparr>\<rparr>)"

lemma demo_closed_sel:
  "pl_accepted demo_closed = [demo_event]" "ds_closed (pl_disp demo_closed)" "pl_state demo_closed = demo_short"
  by (simp_all add: demo_closed_def submitted_def pool_start_def Let_def buffers_def demo_dispatcher_sel)

lemma demo_closed_run: "pool_run quiet (pool_start demo_dispatcher demo_short) demo_closed"
proof -
  let ?x = "pool_start demo_dispatcher demo_short"
  let ?y = "submitted demo_event (demo_dispatcher\<lparr>ds_events := [demo_event]\<rparr>) ?x"
  have "Submit demo_event (pl_disp ?x) = Some (demo_dispatcher\<lparr>ds_events := [demo_event]\<rparr>)"
    by (simp add: Submit_def pool_start_def demo_dispatcher_sel)
  note submit = pool_step.submit [OF this]
  have "close_events (pl_disp ?y) = Some ((pl_disp ?y)\<lparr>ds_closed := True\<rparr>)"
    by (simp add: close_events_def submitted_def demo_dispatcher_sel)
  note close = pool_step.close [OF this]
  show ?thesis
    unfolding demo_closed_def Let_def by (rule pool_run.step [OF pool_run.step [OF pool_run.refl submit] close])
qed

lemma demo_drained:
  obtains x where "pool_run quiet (pool_start demo_dispatcher demo_short) x" "drained (pl_disp x)" "pl_accepted x = [demo_event]"
  using closed_pool_drains [OF demo_closed_sel(2)] pool_run_trans [OF _ demo_closed_run] demo_closed_sel(1) by metis

lemma demo_storable: "storable demo_event demo_short" "click_room 1 demo_short"
proof -
  have "timestamp demo_time \<noteq> None" "fits 512 ''curl/8.0''" "fits 45 ''203.0.113.0''" by code_simp+
  moreover have "has_url 1 demo_short" by (simp add: has_url_def)
  ultimately show "storable demo_event demo_short" by (simp add: storable_def demo_event_def)
  have "w_next_click demo_short = 1"
    by (simp add: demo_short_def cache_Set_calls redis_set_def demo_stored_def demo_created_def)
  then show "click_room 1 demo_short" by (simp add: click_room_def)
qed

section \<open>Properties\<close>

text \<open>C14: in every interleaving of submitters, workers and the shutdown, an accepted event is queued,
  in the hands of a worker or finished, in the order of acceptance; the queue stays within its
  buffer; and the counters are the numbers of finished and dropped events, wrapped to int64.\<close>

theorem dispatcher_conserves:
  assumes "started clickRepo urlRepo cleaner days numWorkers bufferSize = Some d"
    and "pool_run others (pool_start d s) x"
  shows "pl_accepted x = pl_taken x @ ds_events (pl_disp x) \<and>
    mset (pl_taken x) = in_flight (ds_workers (pl_disp x)) + mset (pl_finished x) \<and>
    QueueLen (pl_disp x) \<le> nat bufferSize \<and> size (in_flight (ds_workers (pl_disp x))) \<le> nat numWorkers \<and>
    Processed (pl_disp x) = int64 (int (length (pl_finished x))) \<and>
    Dropped (pl_disp x) = int64 (int (length (pl_rejected x)))"
  using started_run [OF assms] size_in_flight [of "ds_workers (pl_disp x)"]
  by (simp add: pool_ok_def QueueLen_def Processed_def Dropped_def)

theorem dispatcher_conserves_witness:
  "mset (pl_taken demo_closed) + mset (ds_events (pl_disp demo_closed)) = {#demo_event#} \<and> QueueLen (pl_disp demo_closed) \<le> 1000"
  using dispatcher_conserves [OF demo_started demo_closed_run] demo_closed_sel(1) by (metis mset_append mset_single_iff nat_numeral)

text \<open>C16: the dispatcher refines a bounded bag: each interleaving of its goroutines is a run of a bag that
  accepts while there is room for the buffer and the workers, refuses only when the buffer's
  number of events is pending, and finishes pending events in any order.\<close>

theorem dispatcher_refines_bag:
  assumes "started clickRepo urlRepo cleaner days numWorkers bufferSize = Some d"
    and "pool_run others (pool_start d s) x"
  shows "bag_run (nat bufferSize) (nat numWorkers) empty_bag (bag_of x)"
proof -
  have "bag_of (pool_start d s) = empty_bag"
    by (simp add: bag_of_def empty_bag_def pool_start_def started_sel [OF assms(1)])
  then show ?thesis
    using pool_run_bag [OF assms(2) started_ok [OF assms(1)]] by (simp add: pool_start_def started_sel [OF assms(1)])
qed

theorem dispatcher_refines_bag_witness: "bag_run 1000 4 empty_bag (bag_of demo_closed)"
  using dispatcher_refines_bag [OF demo_started demo_closed_run] by simp

text \<open>C15: shutdown terminates: once the channel is closed every schedule of the workers is finite, with at
  most three moves for an event and one exit for a worker; a schedule of that length, and any
  that cannot be continued, has ended every worker, emptied the channel and finished exactly
  the accepted events.\<close>

theorem shutdown_drains:
  assumes "started clickRepo urlRepo cleaner days numWorkers bufferSize = Some d" "0 < numWorkers"
    and "pool_run others (pool_start d s) x" "ds_closed (pl_disp x)"
    and "run_workers sched (pl_disp x, pl_state x) = Some (d', s')"
  shows "length sched \<le> work_left (pl_disp x) \<and>
    (length sched = work_left (pl_disp x) \<or> (\<forall>i. worker_step i (d', s') = None) \<longrightarrow>
       shutdown_warning d' = None \<and> ds_events d' = [] \<and> Processed d' = int64 (int (length (pl_accepted x))))"
proof -
  note ends = closed_drains [OF assms(4,5)]
  obtain y where y: "pool_run others x y" "pl_disp y = d'" "pl_accepted y = pl_accepted x"
    using run_workers_pool [OF assms(5)] by blast
  note run = started_run [OF assms(1) pool_run_trans [OF y(1) assms(3)]]
  have done_all: "shutdown_warning d' = None \<and> ds_events d' = [] \<and> Processed d' = int64 (int (length (pl_accepted x)))"
    if dr: "drained d'"
  proof -
    have "drained (pl_disp y)" "ds_workers (pl_disp y) \<noteq> []" using dr y(2) run(2) assms(2) by auto
    note all = drained_all [OF run(1) this]
    have "length (pl_finished y) = length (pl_accepted x)" using mset_eq_length [OF all(3)] y(3) by simp
    moreover have "ds_processed (pl_disp y) = int64 (int (length (pl_finished y)))"
      using run(1) unfolding pool_ok_def by blast
    ultimately have "Processed d' = int64 (int (length (pl_accepted x)))" unfolding Processed_def y(2) by simp
    with all(2) y(2) dr show ?thesis by (simp add: shutdown_warning_def)
  qed
  show ?thesis
  proof (intro conjI impI)
    show "length sched \<le> work_left (pl_disp x)" by (rule ends(1))
    assume "length sched = work_left (pl_disp x) \<or> (\<forall>i. worker_step i (d', s') = None)"
    then have "drained d'" using ends(2,3) by blast
    then show "shutdown_warning d' = None" "ds_events d' = []" "Processed d' = int64 (int (length (pl_accepted x)))"
      using done_all by blast+
  qed
qed

theorem shutdown_drains_witness:
  "\<exists>sched d' s'. run_workers sched (pl_disp demo_closed, pl_state demo_closed) = Some (d', s') \<and>
     Processed d' = 1 \<and> ds_events d' = []"
proof -
  obtain sched d' s' where run: "run_workers sched (pl_disp demo_closed, pl_state demo_closed) = Some (d', s')" "drained d'"
    using closed_can_drain [OF demo_closed_sel(2)] by blast
  have "worker_step i (d', s') = None" for i by (rule drained_stops [OF run(2)])
  with shutdown_drains [OF demo_started _ demo_closed_run demo_closed_sel(2) run(1)]
  have "Processed d' = int64 1" "ds_events d' = []" by (simp_all add: demo_closed_sel)
  with run(1) show ?thesis by (auto simp: int64_id)
qed

text \<open>C18: under any faults of the database and whatever the rest of the program does short of adding
  clicks, the clicks table gains no row but those of accepted events, each at most once.\<close>

theorem clicks_from_events:
  assumes "dispatcher p cfg = Some d"
    and "pool_run (\<lambda>w w'. click_rows w' \<subseteq># click_rows w) (pool_start d w) x"
  shows "click_rows (pl_state x) \<subseteq># click_rows w + image_mset event_row (mset (pl_accepted x))"
  using clicks.run_log [OF assms(1)[unfolded dispatcher_def] assms(2)] .

lemma quiet_rows: "pool_run quiet x y \<Longrightarrow> pool_run (\<lambda>w w'. click_rows w' \<subseteq># click_rows w) x y"
proof (induction rule: pool_run.induct)
  case (step y z)
  have "pool_step (\<lambda>w w'. click_rows w' \<subseteq># click_rows w) y z"
    using step.hyps(2)
  proof (cases rule: pool_step.cases)
    case (other s)
    then have "click_rows s = click_rows (pl_state y)" by (intro click_rows_cong) (simp add: quiet_def)
    with other show ?thesis by (auto intro: pool_step.other)
  qed (auto intro: pool_step.intros)
  with step.IH show ?case by (rule pool_run.step)
qed (rule pool_run.refl)

theorem clicks_from_events_witness:
  "click_rows (pl_state demo_closed) \<subseteq># click_rows demo_short + {#event_row demo_event#}"
  using clicks_from_events [OF demo_dispatcher_started quiet_rows [OF demo_closed_run]] by (simp add: demo_closed_sel)




end
