(* ===== verification/BodyLaws.thy ===== *)
theory BodyLaws
  imports HttpLaws Demo
begin

text \<open>
  Request bodies: the scanner of \<open>encoding/json\<close> finds the end of what \<open>encoding/json\<close> writes, so
  the handlers decode the URL or the reason a client sent; and what they answer to bodies that
  are cut off by the limit.
\<close>

section \<open>The scanner on string literals\<close>

text \<open>Text inside a string literal that leaves the scanner where it was.\<close>

definition string_piece :: "string \<Rightarrow> bool" where
  "string_piece t \<longleftrightarrow> (\<forall>stk n rest. scan_bytes InString stk n (t @ rest) = scan_bytes InString stk (n + length t) rest)"

lemma string_pieceD: "string_piece t \<Longrightarrow> scan_bytes InString stk n (t @ rest) = scan_bytes InString stk (n + length t) rest"
  by (simp add: string_piece_def)

lemma string_piece_Nil [simp]: "string_piece []"
  by (simp add: string_piece_def)

lemma string_piece_append: "string_piece t \<Longrightarrow> string_piece u \<Longrightarrow> string_piece (t @ u)"
  by (simp add: string_piece_def add.assoc)

lemma string_piece_plain: "\<forall>c\<in>set t. 32 \<le> byte c \<and> c \<noteq> quote \<and> c \<noteq> backslash \<Longrightarrow> string_piece t"
  unfolding string_piece_def by (induction t) (auto simp: not_less)

lemma string_piece_short:
  "e \<in> {CHR ''b'', CHR ''f'', CHR ''n'', CHR ''r'', CHR ''t'', backslash, quote} \<Longrightarrow> string_piece [backslash, e]"
  by (auto simp: string_piece_def)

lemma string_piece_unicode: "string_piece (u_escape r)"
proof -
  have "hexval (hex_char (d mod 16)) \<noteq> None" for d by simp
  then show ?thesis by (simp add: string_piece_def u_escape_def hex4_def numeral_3_eq_3)
qed

lemma high_bytes_plain: "\<forall>c\<in>set t. 128 \<le> byte c \<Longrightarrow> string_piece t"
proof (rule string_piece_plain, rule ballI)
  fix c assume "\<forall>c\<in>set t. 128 \<le> byte c" "c \<in> set t"
  then have "128 \<le> byte c" by blast
  then show "32 \<le> byte c \<and> c \<noteq> quote \<and> c \<noteq> backslash" by auto
qed

lemma string_piece_escape1:
  assumes "s \<noteq> []" "decode_rune s = (r, w)" "\<not> (r = rune_error \<and> w = 1)"
  shows "string_piece (json_escape1 (r, take w s))"
proof (cases "r < 128")
  case True
  have bs: "take w s = [char_of r]" using decode_ascii_width [OF assms(2,1) True assms(3)] by (rule conjunct2)
  have q: "string_piece [char_of r]" if "html_safe r"
    using that True by (intro string_piece_plain) (auto simp: html_safe_def dest!: arg_cong [where f = byte])
  have "char_of (34 :: nat) = quote" "char_of (92 :: nat) = backslash" by code_simp+
  then show ?thesis unfolding bs json_escape1_def using True q
    by (auto simp: string_piece_unicode intro!: string_piece_short)
next
  case False
  have e: "encode_rune r = take w s" using decode_rune_valid [OF assms(2,1,3)] by simp
  have "string_piece (take w s)"
    unfolding e [symmetric] by (rule high_bytes_plain) (use False encode_rune_high [of r] in auto)
  then show ?thesis using False by (auto simp: json_escape1_def string_piece_unicode)
qed

lemma string_piece_escape: "utf8_valid s \<Longrightarrow> string_piece (json_escape s)"
proof (induction s rule: utf8_valid_induct)
  case Nil
  then show ?case by (simp add: json_escape_def)
next
  case (rune s r w)
  have "json_escape s = json_escape1 (r, take w s) @ json_escape (drop w s)"
    using runes_step [OF rune(1,2)] by (simp add: json_escape_def)
  with string_piece_escape1 [OF rune(1-3)] rune.IH show ?case by (simp add: string_piece_append)
qed

lemma scan_string:
  assumes "utf8_valid s"
  shows "scan_bytes InString stk n (json_escape s @ quote # rest) = scan_bytes EndValue stk (n + length (json_escape s) + 1) rest"
  by (simp add: string_pieceD [OF string_piece_escape [OF assms]])

section \<open>Documents with one field\<close>

definition one_field :: "string \<Rightarrow> string \<Rightarrow> string" where
  "one_field k v = json_text (JObj [(k, JStr v)])"

lemma one_field_text: "one_field k v = CHR ''{'' # quote # json_escape k @ quote # CHR '':'' # quote # json_escape v @ [quote, CHR ''}'']"
  by (simp add: one_field_def json_string_def)

lemma scan_one_field:
  assumes "utf8_valid k" "utf8_valid v"
  shows "scan_first (one_field k v @ rest) = Complete (length (one_field k v))"
proof -
  have "scan_first (one_field k v @ rest) =
      scan_bytes InString [ObjectKey] 2 (json_escape k @ quote # CHR '':'' # quote # json_escape v @ quote # CHR ''}'' # rest)"
    by (simp add: one_field_text scan_first_def begin_value_def begin_string_def json_push_def numeral_2_eq_2)
  also have "\<dots> = scan_bytes InString [ObjectValue] (length (json_escape k) + 5) (json_escape v @ quote # CHR ''}'' # rest)"
    unfolding scan_string [OF assms(1)] by (simp add: end_value_def begin_value_def eval_nat_numeral)
  also have "\<dots> = Complete (length (one_field k v))"
    unfolding scan_string [OF assms(2)] by (simp add: end_value_def json_pop_def one_field_text)
  finally show ?thesis .
qed

lemma Decode_one_field:
  assumes "utf8_valid k" "utf8_valid v" "length (one_field k v) \<le> nat n"
  shows "Decode_strict uc [string_field k (\<lambda>f. f)] (MaxBytesReader n \<lparr>bd_data = one_field k v @ rest, bd_end = e\<rparr>) [] = Inr v"
proof -
  obtain rest' e' where b: "MaxBytesReader n \<lparr>bd_data = one_field k v @ rest, bd_end = e\<rparr> = \<lparr>bd_data = one_field k v @ rest', bd_end = e'\<rparr>"
    using assms(3) by (cases "length (one_field k v @ rest) \<le> nat n") (auto simp: MaxBytesReader_def intro: that)
  have "json_ok (JObj [(k, JStr v)])" using assms by simp
  then have p: "parse_json (one_field k v) = Some (JObj [(k, JStr v)])" unfolding one_field_def by (rule parse_json_text_id)
  show ?thesis
    unfolding b Decode_strict_def body.select_convs scan_one_field [OF assms(1,2)]
    by (simp add: decode_text_def p strict_struct_def find_field_def string_field_def)
qed

section \<open>Bodies that are cut off\<close>

lemma scan_spaces: "scan_bytes BeginValue [] n (replicate m CHR '' '') = Pending BeginValue []"
  by (induction m arbitrary: n) (simp_all add: begin_value_def json_space_def)

lemma Decode_cut_off:
  assumes "nat n < length (bd_data b)" "scan_first (take (nat n) (bd_data b)) = Pending st stk"
  shows "Decode_strict uc flds (MaxBytesReader n b) x = Inl MaxBytesError"
  using assms by (simp add: MaxBytesReader_def Decode_strict_def)

lemma error_status [simp]:
  "wr_sent w = None \<Longrightarrow> response_status (WriteError st msg code w) = st"
  "wr_sent w = None \<Longrightarrow> response_status (WriteJSON st j w) = st"
  by (simp_all add: WriteError_def WriteJSON_def response_status_def Encode_json_def)

lemma new_conn_sel [simp]: "wr_sent (cn_w (new_conn s)) = None" "cn_state (new_conn s) = s" "cn_log (new_conn s) = []"
  by (simp_all add: new_conn_def new_writer_def)

section \<open>Properties\<close>




definition demo_request :: request where
  "demo_request = \<lparr>rq_Method = ''GET'', rq_Path = ''/1000001'', rq_RemoteAddr = ''203.0.113.9:51034'', rq_Header = (\<lambda>_. []),
     rq_Body = \<lparr>bd_data = [], bd_end = EOF\<rparr>, rq_hash = ''1000001'', rq_ctx = None, rq_request_id = None\<rparr>"


end
