(* ===== verification/ServerLaws.thy ===== *)
theory ServerLaws
  imports HttpLaws ClickFrames
begin

text \<open>
  The server as a whole: what its middleware chain guarantees for every request, and that the
  state of MySQL, Redis and the dispatcher follows their own models at every step.
\<close>

section \<open>Parameters\<close>

text \<open>Headers with their values, in the header map and in what has been sent.\<close>

definition hardened :: "(string \<times> string) list \<Rightarrow> writer \<Rightarrow> bool" where
  "hardened vs w \<longleftrightarrow> (\<forall>(k, v)\<in>set vs. header_get (wr_header w) k = v \<and>
     (case wr_sent w of None \<Rightarrow> True | Some (_, h) \<Rightarrow> header_get h k = v))"

lemma writer_keeps_hardened:
  "writer_keeps ks w w' \<Longrightarrow> fst ` set vs \<subseteq> set ks \<Longrightarrow> hardened vs w \<Longrightarrow> hardened vs w'"
proof -
  assume k: "writer_keeps ks w w'" and sub: "fst ` set vs \<subseteq> set ks" and h: "hardened vs w"
  have "header_get (wr_header w') k = v \<and> (case wr_sent w' of None \<Rightarrow> True | Some (_, h) \<Rightarrow> header_get h k = v)"
    if kv: "(k, v) \<in> set vs" for k v
  proof -
    have "k \<in> set ks" using sub kv by force
    moreover have "header_get (wr_header w) k = v" "case wr_sent w of None \<Rightarrow> True | Some (_, h) \<Rightarrow> header_get h k = v"
      using h kv by (auto simp: hardened_def)
    ultimately show ?thesis
      using k by (cases "wr_sent w"; cases "wr_sent w'") (auto simp: writer_keeps_def)
  qed
  then show "hardened vs w'" by (auto simp: hardened_def)
qed

definition security_values :: "(string \<times> string) list" where
  "security_values = [(''X-Content-Type-Options'', ''nosniff''), (''X-Frame-Options'', ''DENY''),
     (''X-XSS-Protection'', ''1; mode=block''), (''Referrer-Policy'', ''no-referrer''),
     (''Content-Security-Policy'', ''default-src '' @ [CHR 0x27] @ ''none'' @ [CHR 0x27])]"

definition request_values :: "string \<Rightarrow> (string \<times> string) list" where
  "request_values i = (''X-Request-ID'', i) # security_values"

lemma kept_values: "fst ` set (request_values i) \<subseteq> set kept_headers" "fst ` set security_values \<subseteq> set security_headers"
  by (auto simp: request_values_def security_values_def kept_headers_def security_headers_def)

text \<open>
  What the server relies on: the CORS handler either answers itself or passes the request on,
  and leaves the security headers alone; the handler of unmatched requests only writes a
  response, without touching them or the request id.
\<close>

definition cors_passes :: "(cors_options \<Rightarrow> 's middleware) \<Rightarrow> bool" where
  "cors_passes cors \<longleftrightarrow> (\<forall>opts next r c. \<exists>w. (hardened security_values (cn_w c) \<longrightarrow> hardened security_values w) \<and>
     (wr_sent (cn_w c) = None \<longrightarrow> cors opts next r c = (None, c\<lparr>cn_w := w\<rparr>) \<or>
        wr_sent w = None \<and> cors opts next r c = next r (c\<lparr>cn_w := w\<rparr>)))"

definition fallback_answers :: "'s handler \<Rightarrow> bool" where
  "fallback_answers h \<longleftrightarrow> (\<forall>r c. \<exists>w. h r c = (None, c\<lparr>cn_w := w\<rparr>) \<and>
     (\<forall>i. hardened (request_values i) (cn_w c) \<longrightarrow> hardened (request_values i) w))"

definition lib_ok :: "('f, 'l) server_lib \<Rightarrow> bool" where
  "lib_ok lib \<longleftrightarrow> cors_passes (sl_cors lib) \<and> fallback_answers (sl_fallback lib)"

section \<open>Headers of every response\<close>

definition hardens :: "(string \<times> string) list \<Rightarrow> 's handler \<Rightarrow> bool" where
  "hardens vs h \<longleftrightarrow> (\<forall>r c. hardened vs (cn_w c) \<longrightarrow> hardened vs (cn_w (snd (h r c))))"

lemma hardensD: "hardens vs h \<Longrightarrow> hardened vs (cn_w c) \<Longrightarrow> hardened vs (cn_w (snd (h r c)))"
  by (simp add: hardens_def)

lemma polite_hardens: "polite kept_headers h \<Longrightarrow> hardens (request_values i) h"
  using writer_keeps_hardened [OF politeD kept_values(1)] by (auto simp: hardens_def)

lemma hardened_ops:
  "canonical_key k \<notin> canonical_key ` fst ` set vs \<Longrightarrow> hardened vs w \<Longrightarrow> hardened vs (Header_Set k v w)"
  "hardened vs w \<Longrightarrow> hardened vs (WriteHeader code w)" "hardened vs w \<Longrightarrow> hardened vs (Encode_json j w)"
  by (auto simp: hardened_def Encode_json_def image_iff split: option.splits prod.splits)

lemma router_hardens:
  fixes lib :: "('f, 'l) server_lib"
  assumes "fallback_answers (sl_fallback lib)" shows "hardens (request_values i) (router p cfg lib)"
  unfolding hardens_def
proof (intro allI impI)
  fix r :: request and c :: "('f, 'l) server conn" assume h: "hardened (request_values i) (cn_w c)"
  show "hardened (request_values i) (cn_w (snd (router p cfg lib r c)))"
  proof (cases "sl_route lib r")
    case None
    obtain w where "sl_fallback lib r c = (None, c\<lparr>cn_w := w\<rparr>)" "hardened (request_values i) w"
      using assms h unfolding fallback_answers_def by meson
    with None show ?thesis by (simp add: router_def)
  next
    case (Some eh)
    with hardensD [OF polite_hardens [OF polite_endpoint] h] show ?thesis by (simp add: router_def split: prod.split)
  qed
qed

lemma chain_hardens:
  fixes lib :: "('f, 'l) server_lib"
  assumes "hardens vs next" "canonical_key ''Content-Type'' \<notin> canonical_key ` fst ` set vs"
  shows "hardens vs (RealIP lib (Recovery stack isDev (Logger clk next)))"
  unfolding hardens_def
proof (intro allI impI)
  fix r :: request and c :: "('f, 'l) server conn" assume h: "hardened vs (cn_w c)"
  obtain x c' where n: "next (sl_realip lib r) c = (x, c')" by (cases "next (sl_realip lib r) c")
  then have "hardened vs (cn_w c')" using hardensD [OF assms(1) h, of "sl_realip lib r"] by simp
  then show "hardened vs (cn_w (snd (RealIP lib (Recovery stack isDev (Logger clk next)) r c)))"
    by (auto simp: RealIP_def Recovery_def Logger_def serve_return_def n Let_def
        intro!: hardened_ops(2,3) hardened_ops(1) [OF assms(2)] split: option.split)
qed

lemma Recovery_returns: "fst (Recovery stack isDev next r c) = None"
  by (simp add: Recovery_def split: prod.split option.split)

lemma inner_chain:
  assumes "fallback_answers (sl_fallback lib)" "hardened security_values (cn_w c)" "wr_sent (cn_w c) = None"
  shows "fst (RequestID rnd (RealIP lib (Recovery stack isDev (Logger clk (router p cfg lib)))) r c) = None"
    and "hardened (request_values (generateRequestID rnd))
      (cn_w (snd (RequestID rnd (RealIP lib (Recovery stack isDev (Logger clk (router p cfg lib)))) r c)))"
proof -
  let ?i = "generateRequestID rnd"
  have "canonical_key ''X-Request-ID'' \<notin> canonical_key ` fst ` set security_values" by code_simp
  then have "hardened (request_values ?i) (Header_Set ''X-Request-ID'' ?i (cn_w c))"
    using hardened_ops(1) [OF _ assms(2), of "''X-Request-ID''" ?i] assms(3)
    by (auto simp: request_values_def hardened_def)
  moreover have "canonical_key ''Content-Type'' \<notin> canonical_key ` fst ` set (request_values ?i)"
    using other_headers(1) kept_values(1) by blast
  ultimately show "hardened (request_values ?i)
      (cn_w (snd (RequestID rnd (RealIP lib (Recovery stack isDev (Logger clk (router p cfg lib)))) r c)))"
    unfolding RequestID_def Let_def by (intro hardensD [OF chain_hardens [OF router_hardens [OF assms(1)]]]) simp_all
  show "fst (RequestID rnd (RealIP lib (Recovery stack isDev (Logger clk (router p cfg lib)))) r c) = None"
    by (simp add: RequestID_def RealIP_def Let_def Recovery_returns)
qed

lemma security_keys:
  "canonical_key ''X-Content-Type-Options'' = ''X-Content-Type-Options''" "canonical_key ''X-Frame-Options'' = ''X-Frame-Options''"
  "canonical_key ''X-XSS-Protection'' = ''X-Xss-Protection''" "canonical_key ''Referrer-Policy'' = ''Referrer-Policy''"
  "canonical_key ''Content-Security-Policy'' = ''Content-Security-Policy''"
  by code_simp+

lemma hardened_start:
  "hardened security_values (cn_w (on_writer
     (Header_Set ''Content-Security-Policy'' (''default-src '' @ [CHR 0x27] @ ''none'' @ [CHR 0x27])
       \<circ> Header_Set ''Referrer-Policy'' ''no-referrer''
       \<circ> Header_Set ''X-XSS-Protection'' ''1; mode=block''
       \<circ> Header_Set ''X-Frame-Options'' ''DENY''
       \<circ> Header_Set ''X-Content-Type-Options'' ''nosniff'') (new_conn s)))"
  by (simp add: hardened_def security_values_def new_conn_def new_writer_def security_keys)

lemma server_response:
  assumes "lib_ok lib"
  shows "fst (server_handler p cfg lib isDev rnd r (new_conn sv)) = None"
    and "hardened security_values (cn_w (snd (server_handler p cfg lib isDev rnd r (new_conn sv))))"
proof -
  let ?inner = "RequestID rnd (RealIP lib (Recovery (sl_stack lib) isDev (Logger server_now (router p cfg lib))))"
  define c where "c = on_writer (Header_Set ''Content-Security-Policy'' (''default-src '' @ [CHR 0x27] @ ''none'' @ [CHR 0x27])
       \<circ> Header_Set ''Referrer-Policy'' ''no-referrer''
       \<circ> Header_Set ''X-XSS-Protection'' ''1; mode=block''
       \<circ> Header_Set ''X-Frame-Options'' ''DENY''
       \<circ> Header_Set ''X-Content-Type-Options'' ''nosniff'') (new_conn sv)"
  have c: "hardened security_values (cn_w c)" "wr_sent (cn_w c) = None"
    using hardened_start [of sv] by (simp_all add: c_def new_conn_def new_writer_def)
  obtain opts where run: "server_handler p cfg lib isDev rnd r (new_conn sv) = sl_cors lib opts ?inner r c"
    by (simp add: server_handler_def SecurityHeaders_def NewCORS_def Let_def c_def)
  obtain w where w: "hardened security_values w" and
    "sl_cors lib opts ?inner r c = (None, c\<lparr>cn_w := w\<rparr>) \<or>
     wr_sent w = None \<and> sl_cors lib opts ?inner r c = ?inner r (c\<lparr>cn_w := w\<rparr>)"
    using assms c unfolding lib_ok_def cors_passes_def by meson
  then have "fst (sl_cors lib opts ?inner r c) = None \<and> hardened security_values (cn_w (snd (sl_cors lib opts ?inner r c)))"
  proof (elim disjE conjE, goal_cases)
    case 1
    with w show ?case by simp
  next
    case 2
    have fb: "fallback_answers (sl_fallback lib)" using assms by (simp add: lib_ok_def)
    have sub: "hardened (request_values i) w' \<Longrightarrow> hardened security_values w'" for i w'
      by (simp add: hardened_def request_values_def)
    have cw: "hardened security_values (cn_w (c\<lparr>cn_w := w\<rparr>))" "wr_sent (cn_w (c\<lparr>cn_w := w\<rparr>)) = None"
      using 2(1,2) by simp_all
    show ?case unfolding 2(3) using inner_chain [OF fb cw] sub by blast
  qed
  then show "fst (server_handler p cfg lib isDev rnd r (new_conn sv)) = None"
    and "hardened security_values (cn_w (snd (server_handler p cfg lib isDev rnd r (new_conn sv))))"
    unfolding run by blast+
qed

section \<open>The state behind every request\<close>

text \<open>
  How a handler may change the server: MySQL and Redis by steps of the system's model, the
  dispatcher by steps of its pool, in which the rest of the program never adds a click.
\<close>

definition moves :: "platform \<Rightarrow> config \<Rightarrow> ('f, 'l) server \<Rightarrow> ('f, 'l) server \<Rightarrow> bool" where
  "moves p cfg sv sv' \<longleftrightarrow> (sys_step p cfg)\<^sup>*\<^sup>* (sv_world sv) (sv_world sv') \<and>
     (\<forall>x. pl_disp x = sv_disp sv \<and> pl_state x = sv_world sv \<longrightarrow>
        (\<exists>y. pool_run fewer_clicks x y \<and> pl_disp y = sv_disp sv' \<and> pl_state y = sv_world sv'))"

lemma moves_refl [simp, intro]: "moves p cfg sv sv"
  by (auto simp: moves_def intro: pool_run.refl)

lemma moves_trans: "moves p cfg sv sv' \<Longrightarrow> moves p cfg sv' sv'' \<Longrightarrow> moves p cfg sv sv''"
  unfolding moves_def by (meson pool_run_trans rtranclp_trans)

text \<open>To the pool, a change of the world that adds no click is a step of its environment.\<close>

lemma world_run:
  assumes "pl_disp x = sv_disp sv" "pl_state x = sv_world sv" "fewer_clicks (sv_world sv) w"
  shows "\<exists>y. pool_run fewer_clicks x y \<and> pl_disp y = sv_disp (sv\<lparr>sv_world := w\<rparr>) \<and> pl_state y = sv_world (sv\<lparr>sv_world := w\<rparr>)"
proof -
  have "pool_run fewer_clicks x (x\<lparr>pl_state := w\<rparr>)"
    by (rule pool_run.step [OF pool_run.refl pool_step.other]) (simp add: assms)
  then show ?thesis using assms(1) by (intro exI [of _ "x\<lparr>pl_state := w\<rparr>"]) simp
qed

lemma moves_world:
  "(sys_step p cfg)\<^sup>*\<^sup>* (sv_world sv) w \<Longrightarrow> fewer_clicks (sv_world sv) w \<Longrightarrow> moves p cfg sv (sv\<lparr>sv_world := w\<rparr>)"
  unfolding moves_def using world_run [of _ sv w] by simp

lemma moves_step: "sys_step p cfg (sv_world sv) w \<Longrightarrow> same_clicks (sv_world sv) w \<Longrightarrow> moves p cfg sv (sv\<lparr>sv_world := w\<rparr>)"
  by (rule moves_world) (auto intro: same_fewer)

lemma moves_disp:
  assumes "\<And>x. pl_disp x = sv_disp sv \<Longrightarrow> \<exists>y. pool_step fewer_clicks x y \<and> pl_disp y = d \<and> pl_state y = pl_state x"
  shows "moves p cfg sv (sv\<lparr>sv_disp := d\<rparr>)"
  unfolding moves_def
proof (intro conjI allI impI)
  fix x :: "world pool" assume x: "pl_disp x = sv_disp sv \<and> pl_state x = sv_world sv"
  then obtain y where "pool_step fewer_clicks x y" "pl_disp y = d" "pl_state y = sv_world sv" using assms by metis
  then show "\<exists>y. pool_run fewer_clicks x y \<and> pl_disp y = sv_disp (sv\<lparr>sv_disp := d\<rparr>) \<and>
      pl_state y = sv_world (sv\<lparr>sv_disp := d\<rparr>)" by (auto intro: pool_run.step [OF pool_run.refl])
qed simp

lemma moves_submit: "submit_click e sv = Some sv' \<Longrightarrow> moves p cfg sv sv'"
proof -
  assume "submit_click e sv = Some sv'"
  then obtain d where d: "Submit e (sv_disp sv) = Some d" "sv' = sv\<lparr>sv_disp := d\<rparr>" by (auto simp: submit_click_def)
  have "\<exists>y. pool_step fewer_clicks x y \<and> pl_disp y = d \<and> pl_state y = pl_state x"
    if "pl_disp x = sv_disp sv" for x :: "world pool"
    using pool_step.submit [of e x d] d(1) that by (intro exI [of _ "submitted e d x"]) (simp add: submitted_def)
  then show ?thesis unfolding d(2) by (rule moves_disp)
qed

lemma in_world_state: "snd (in_world f sv) = sv\<lparr>sv_world := snd (f (sv_world sv))\<rparr>"
  by (simp add: in_world_def split: prod.split)

lemma in_world_result: "in_world f sv = (x, sv') \<Longrightarrow> sv' = sv\<lparr>sv_world := snd (f (sv_world sv))\<rparr>"
  using in_world_state [of f sv] by simp

text \<open>A handler all of whose runs move the state so.\<close>

definition lawful :: "platform \<Rightarrow> config \<Rightarrow> ('f, 'l) server handler \<Rightarrow> bool" where
  "lawful p cfg h \<longleftrightarrow> (\<forall>r c. moves p cfg (cn_state c) (cn_state (snd (h r c))))"

lemma lawfulI: "(\<And>r c. moves p cfg (cn_state c) (cn_state (snd (h r c)))) \<Longrightarrow> lawful p cfg h"
  by (simp add: lawful_def)

lemma lawfulD: "lawful p cfg h \<Longrightarrow> moves p cfg (cn_state c) (cn_state (snd (h r c)))"
  by (simp add: lawful_def)

lemma moves_call:
  assumes "in_world f sv = (x, sv')" "\<And>w. sys_step p cfg w (snd (f w))" "frames same_clicks f"
  shows "moves p cfg sv sv'"
  unfolding in_world_result [OF assms(1)] by (rule moves_step [OF assms(2) framesD [OF assms(3)]])

lemma lawful_shorten: "lawful p cfg (ShortenHandle uc (shortenHandler p cfg))"
proof (rule lawfulI)
  fix r :: request and c :: "('f, 'l) server conn"
  have "moves p cfg (cn_state c) sv" if "hs_Shorten (shortenHandler p cfg) (rq_ctx r) url (cn_state c) = (x, sv)" for url x sv
    using that unfolding shortenHandler_def NewShortenHandler_def ShortenHandler.select_convs by (rule moves_call) (rule sys_step.shorten shorten_clicks)+
  then show "moves p cfg (cn_state c) (cn_state (snd (ShortenHandle uc (shortenHandler p cfg) r c)))"
    by (auto simp: ShortenHandle_def Let_def split: sum.split decode_error.split prod.split option.split)
qed

lemma lawful_analytics: "lawful p cfg (AnalyticsHandle (analyticsHandler p))"
proof (rule lawfulI)
  fix r :: request and c :: "('f, 'l) server conn"
  have "moves p cfg (cn_state c) sv" if "ha_GetStats (analyticsHandler p) (rq_hash r) (cn_state c) = (x, sv)" for x sv
    using that unfolding analyticsHandler_def NewAnalyticsHandler_def AnalyticsHandler.select_convs by (rule moves_call) (rule sys_step.get_stats stats_clicks)+
  then show "moves p cfg (cn_state c) (cn_state (snd (AnalyticsHandle (analyticsHandler p) r c)))"
    by (auto simp: AnalyticsHandle_def split: prod.split sum.split)
qed

lemma lawful_report: "lawful p cfg (ReportHandle uc (reportHandler p cfg))"
proof (rule lawfulI)
  fix r :: request and c :: "('f, 'l) server conn"
  have "moves p cfg (cn_state c) sv" if "hr_Report (reportHandler p cfg) (rq_hash r) ip reason (cn_state c) = (x, sv)" for ip reason x sv
    using that unfolding reportHandler_def NewReportHandler_def ReportHandler.select_convs by (rule moves_call) (rule sys_step.report report_clicks)+
  then show "moves p cfg (cn_state c) (cn_state (snd (ReportHandle uc (reportHandler p cfg) r c)))"
    by (auto simp: ReportHandle_def Let_def split: sum.split decode_error.split prod.split option.split)
qed

lemma lawful_health: "lawful p cfg (HealthHandle (healthHandler p cfg))" "lawful p cfg (HandleDetails (healthHandler p cfg))"
proof -
  have ping: "moves p cfg sv sv'" if "in_world (ping (pf_env p)) sv = (x, sv')" for x and sv sv' :: "('f, 'l) server"
    using that by (rule moves_call) (simp_all add: ping_def sys_step.ping frames_def same_clicks_def)
  have pings: "moves p cfg sv sv2" if "in_world (ping (pf_env p)) sv = (x, sv1)" "in_world (ping (pf_env p)) sv1 = (y, sv2)"
    for x y and sv sv1 sv2 :: "('f, 'l) server"
    using ping [OF that(1)] ping [OF that(2)] by (rule moves_trans)
  show "lawful p cfg (HealthHandle (healthHandler p cfg :: ('f, 'l) server HealthHandler))"
    by (rule lawfulI) (auto simp: HealthHandle_def healthHandler_def NewHealthHandlerWithSecret_def intro: pings split: prod.split)
  show "lawful p cfg (HandleDetails (healthHandler p cfg :: ('f, 'l) server HealthHandler))"
    by (rule lawfulI) (auto simp: HandleDetails_def healthHandler_def NewHealthHandlerWithSecret_def Let_def intro: pings split: prod.split)
qed

lemma lawful_redirect:
  fixes clk :: "('f, 'l) server \<Rightarrow> time" shows "lawful p cfg (RedirectHandle clk (redirectHandler p cfg))"
proof (rule lawfulI)
  fix r :: request and c :: "('f, 'l) server conn"
  let ?h = "redirectHandler p cfg :: ('f, 'l) server RedirectHandler"
  have sel: "rh_Resolve ?h = (\<lambda>h. in_world (Resolve w_clock (redirectorSvc p cfg) h))" "rh_Submit ?h = submit_click"
    "rh_cache ?h = Some (\<lambda>h. in_world (cache_Delete (redis (pf_env p)) h))"
    by (simp_all add: redirectHandler_def SetTrustedProxies_def NewRedirectHandlerWithCache_def)
  have res: "moves p cfg (cn_state c) sv" if "hashPattern h" "in_world (Resolve w_clock (redirectorSvc p cfg) h) (cn_state c) = (x, sv)" for h x sv
  proof -
    have "h \<noteq> []" using that(1) by (auto simp: hashPattern_def)
    then show ?thesis using moves_call [OF that(2) _ resolve_clicks] sys_step.resolve by blast
  qed
  have del: "moves p cfg sv (snd (in_world (cache_Delete (redis (pf_env p)) h) sv))" for h and sv :: "('f, 'l) server"
    unfolding in_world_state by (rule moves_step [OF sys_step.evict framesD [OF cache_clicks(2)]])
  show "moves p cfg (cn_state c) (cn_state (snd (RedirectHandle clk ?h r c)))"
    by (auto simp: RedirectHandle_def sel Let_def split: prod.split option.split
        intro: res moves_trans [OF res del] moves_trans [OF res moves_submit])
qed

lemma moves_limiter: "sv_world sv' = sv_world sv \<Longrightarrow> sv_disp sv' = sv_disp sv \<Longrightarrow> moves p cfg sv sv'"
  by (auto simp: moves_def intro: pool_run.refl)

lemma lawful_limited:
  fixes lib :: "('f, 'l) server_lib"
  assumes "lawful p cfg next" "\<And>rl sv. sv_world (lr_put ref rl sv) = sv_world sv" "\<And>rl sv. sv_disp (lr_put ref rl sv) = sv_disp sv"
  shows "lawful p cfg (limited cfg lib ref next)"
proof (rule lawfulI)
  fix r :: request and c :: "('f, 'l) server conn"
  have put: "moves p cfg (cn_state c) (lr_put ref rl (cn_state c))" for rl by (rule moves_limiter) (simp_all add: assms)
  have go: "moves p cfg (cn_state c) (cn_state (snd (next r (on_state (lr_put ref rl) c))))" for rl
    using moves_trans [OF put] lawfulD [OF assms(1), of "on_state (lr_put ref rl) c" r] by simp
  show "moves p cfg (cn_state c) (cn_state (snd (limited cfg lib ref next r c)))"
    by (auto simp: limited_def MiddlewareWithProxies_def Let_def put go split: prod.split)
qed

lemma lawful_body: "lawful p cfg next \<Longrightarrow> lawful p cfg (BodyLimit n (RequireJSON uc next))"
  by (auto simp: lawful_def BodyLimit_def RequireJSON_def Let_def)

lemma lawful_endpoint: "lawful p cfg (endpoint_handler p cfg lib e)"
  by (cases e) (auto simp: shortenLimiter_def redirectLimiter_def analyticsLimiter_def reportLimiter_def
      intro!: lawful_limited lawful_body lawful_shorten lawful_redirect lawful_analytics lawful_report lawful_health)

lemma lawful_router:
  fixes lib :: "('f, 'l) server_lib"
  assumes "fallback_answers (sl_fallback lib)" shows "lawful p cfg (router p cfg lib)"
proof (rule lawfulI)
  fix r :: request and c :: "('f, 'l) server conn"
  obtain w where fb: "sl_fallback lib r c = (None, c\<lparr>cn_w := w\<rparr>)"
    using assms unfolding fallback_answers_def by meson
  show "moves p cfg (cn_state c) (cn_state (snd (router p cfg lib r c)))"
  proof (cases "sl_route lib r")
    case None
    with fb show ?thesis by (simp add: router_def)
  next
    case (Some eh)
    obtain e h where eh: "eh = (e, h)" by (cases eh)
    show ?thesis using lawfulD [OF lawful_endpoint] by (simp add: router_def Some eh)
  qed
qed

lemma lawful_chain:
  fixes lib :: "('f, 'l) server_lib"
  assumes "lawful p cfg next" shows "lawful p cfg (RealIP lib (Recovery stack isDev (Logger clk next)))"
proof (rule lawfulI)
  fix r :: request and c :: "('f, 'l) server conn"
  from assms have "moves p cfg (cn_state c) (cn_state (snd (next (sl_realip lib r) c)))" by (rule lawfulD)
  then show "moves p cfg (cn_state c) (cn_state (snd (RealIP lib (Recovery stack isDev (Logger clk next)) r c)))"
    by (auto simp: RealIP_def Recovery_def Logger_def serve_return_def Let_def split: option.split prod.split)
qed

lemma lawful_RequestID: "lawful p cfg next \<Longrightarrow> lawful p cfg (RequestID rnd next)"
  unfolding lawful_def RequestID_def Let_def by (metis on_sel(2))

lemma request_moves:
  fixes lib :: "('f, 'l) server_lib"
  assumes "lib_ok lib"
  shows "moves p cfg sv (cn_state (snd (server_handler p cfg lib isDev rnd r (new_conn sv))))"
proof -
  let ?inner = "RequestID rnd (RealIP lib (Recovery (sl_stack lib) isDev (Logger server_now (router p cfg lib))))"
  have inner: "lawful p cfg ?inner"
    using assms lawful_RequestID [OF lawful_chain [OF lawful_router]] unfolding lib_ok_def by blast
  obtain opts c where run: "server_handler p cfg lib isDev rnd r (new_conn sv) = sl_cors lib opts ?inner r c"
    and c: "cn_state c = sv" "wr_sent (cn_w c) = None"
    by (simp add: server_handler_def SecurityHeaders_def NewCORS_def Let_def new_conn_def new_writer_def)
  obtain w where "sl_cors lib opts ?inner r c = (None, c\<lparr>cn_w := w\<rparr>) \<or> sl_cors lib opts ?inner r c = ?inner r (c\<lparr>cn_w := w\<rparr>)"
    using assms c(2) unfolding lib_ok_def cors_passes_def by meson
  then show ?thesis unfolding run using lawfulD [OF inner, of "c\<lparr>cn_w := w\<rparr>" r] c(1) by auto
qed

section \<open>Runs of the server\<close>

text \<open>Every state of the server: MySQL and Redis are in a reachable state of the system, and the
  dispatcher is where a run of its pool leads.\<close>

definition dispatched :: "platform \<Rightarrow> config \<Rightarrow> ('f, 'l) server \<Rightarrow> bool" where
  "dispatched p cfg sv \<longleftrightarrow> (\<exists>d t x. dispatcher p cfg = Some d \<and> pool_run fewer_clicks (pool_start d (empty_world t)) x \<and>
        pl_disp x = sv_disp sv \<and> pl_state x = sv_world sv)"

definition server_inv :: "platform \<Rightarrow> config \<Rightarrow> ('f, 'l) server \<Rightarrow> bool" where
  "server_inv p cfg sv \<longleftrightarrow> reachable p cfg (sv_world sv) \<and> dispatched p cfg sv"

lemma dispatched_run:
  assumes "dispatched p cfg sv"
    and "\<And>x. pl_disp x = sv_disp sv \<Longrightarrow> pl_state x = sv_world sv \<Longrightarrow>
      \<exists>y. pool_run fewer_clicks x y \<and> pl_disp y = sv_disp sv' \<and> pl_state y = sv_world sv'"
  shows "dispatched p cfg sv'"
  using assms unfolding dispatched_def by (meson pool_run_trans)

lemma dispatched_moves: "moves p cfg sv sv' \<Longrightarrow> dispatched p cfg sv \<Longrightarrow> dispatched p cfg sv'"
  unfolding moves_def by (meson dispatched_run)

lemma dispatched_world:
  "dispatched p cfg sv \<Longrightarrow> fewer_clicks (sv_world sv) w \<Longrightarrow> dispatched p cfg (sv\<lparr>sv_world := w\<rparr>)"
  by (erule dispatched_run) (rule world_run)

lemma reachable_steps: "(sys_step p cfg)\<^sup>*\<^sup>* w w' \<Longrightarrow> reachable p cfg w \<Longrightarrow> reachable p cfg w'"
  by (induction rule: rtranclp_induct) (auto intro: reachable.step)

lemma server_inv_moves: "moves p cfg sv sv' \<Longrightarrow> server_inv p cfg sv \<Longrightarrow> server_inv p cfg sv'"
  unfolding server_inv_def moves_def by (meson reachable_steps dispatched_run)

lemma dispatched_repos:
  assumes "dispatched p cfg sv"
  shows "ds_clickRepo (sv_disp sv) = clickInserter p" "ds_urlRepo (sv_disp sv) = lastAccessUpdater p"
proof -
  obtain d t x where x: "dispatcher p cfg = Some d" "pool_run fewer_clicks (pool_start d (empty_world t)) x" "pl_disp x = sv_disp sv"
    using assms by (auto simp: dispatched_def)
  have "same_config d (sv_disp sv)" using pool_run_config [OF x(2)] x(3) by (simp add: pool_start_def)
  then show "ds_clickRepo (sv_disp sv) = clickInserter p" "ds_urlRepo (sv_disp sv) = lastAccessUpdater p"
    using started_sel [OF x(1)[unfolded dispatcher_def]] by (simp_all add: same_config_def)
qed

lemma worker_moves:
  assumes repos: "ds_clickRepo (sv_disp sv) = clickInserter p" "ds_urlRepo (sv_disp sv) = lastAccessUpdater p"
    and step: "worker_step i (sv_disp sv, sv_world sv) = Some (d, w)"
  shows "moves p cfg sv (sv\<lparr>sv_disp := d, sv_world := w\<rparr>)"
proof -
  have "w = sv_world sv \<or> sys_step p cfg (sv_world sv) w"
    using step
    by (cases rule: worker_step_cases)
      (auto simp: repos clickInserter_def lastAccessUpdater_def sys_step.click sys_step.accessed)
  moreover have "\<exists>y. pool_run fewer_clicks x y \<and> pl_disp y = d \<and> pl_state y = w"
    if "pl_disp x = sv_disp sv" "pl_state x = sv_world sv" for x :: "world pool"
  proof -
    have "pool_step fewer_clicks x (worked i (d, w) x)" by (rule pool_step.work) (simp add: that step)
    then show ?thesis
      by (intro exI [of _ "worked i (d, w) x"] conjI pool_run.step [OF pool_run.refl]) (simp_all add: worked_def)
  qed
  ultimately show ?thesis by (auto simp: moves_def)
qed

lemma moves_close: "close_events (sv_disp sv) = Some d \<Longrightarrow> moves p cfg sv (sv\<lparr>sv_disp := d\<rparr>)"
proof (rule moves_disp)
  fix x :: "world pool" assume "close_events (sv_disp sv) = Some d" "pl_disp x = sv_disp sv"
  then have "pool_step fewer_clicks x (x\<lparr>pl_disp := d\<rparr>)" by (auto intro: pool_step.close)
  then show "\<exists>y. pool_step fewer_clicks x y \<and> pl_disp y = d \<and> pl_state y = pl_state x" by force
qed

lemma cleanup_steps:
  "(sys_step p cfg)\<^sup>*\<^sup>* w (cleanupLoop (clickCleaner p) days es w)"
proof (induction "clickCleaner p" days es w rule: cleanupLoop.induct)
  case (3 days es w)
  have "sys_step p cfg w (snd (cl_DeleteOlderThan (clickCleaner p) days w))"
    by (simp add: clickCleaner_def sys_step.cleanup)
  with 3 show ?case by (simp add: converse_rtranclp_into_rtranclp)
qed simp_all

lemma cleanup_fewer: "fewer_clicks w (cleanupLoop (clickCleaner p) days es w)"
proof (induction "clickCleaner p" days es w rule: cleanupLoop.induct)
  case (3 days es w)
  have "fewer_clicks w (snd (cl_DeleteOlderThan (clickCleaner p) days w))" by (simp add: clickCleaner_def delete_fewer)
  with 3 show ?case by (auto simp: fewer_clicks_def intro: subset_mset.order_trans)
qed (simp_all add: fewer_clicks_def)

lemma server_step_inv:
  fixes lib :: "('f, 'l) server_lib"
  assumes "lib_ok lib"
  shows "server_step p cfg lib isDev sv sv' \<Longrightarrow> server_inv p cfg sv \<Longrightarrow> server_inv p cfg sv'"
proof (induction rule: server_step.induct)
  case (request sv rnd r)
  then show ?case using server_inv_moves [OF request_moves [OF assms]] by blast
next
  case (worker i sv d w)
  then show ?case using server_inv_moves [OF worker_moves] dispatched_repos unfolding server_inv_def by blast
next
  case (rescan sv dl)
  then show ?case using server_inv_moves [OF moves_step [OF sys_step.rescan rescan_clicks]] by blast
next
  case (retention sv ticks)
  then show ?case using server_inv_moves [OF moves_world [OF cleanup_steps cleanup_fewer]] by blast
next
  case (evict sv)
  show ?case by (rule server_inv_moves [OF moves_limiter evict]) simp_all
next
  case (later sv t)
  then show ?case using server_inv_moves [OF moves_step [OF sys_step.later]] by (simp add: server_now_def same_clicks_def)
next
  case (shutdown sv d)
  show ?case by (rule server_inv_moves [OF moves_close [OF shutdown(1)] shutdown(2)])
qed

lemma server_start_inv: "server_start p cfg lib t = Some sv \<Longrightarrow> server_inv p cfg sv"
  by (auto simp: server_start_def server_inv_def dispatched_def pool_start_def intro!: exI pool_run.refl reachable.start)

lemma server_reachable_inv:
  fixes lib :: "('f, 'l) server_lib"
  assumes "lib_ok lib" shows "server_reachable p cfg lib isDev sv \<Longrightarrow> server_inv p cfg sv"
  by (induction rule: server_reachable.induct) (auto intro: server_start_inv server_step_inv [OF assms])

end
