(* ===== verification/Requests.thy ===== *)
theory Requests
  imports Delivery BodyLaws ServerLaws RateLimitLaws
begin

text \<open>
  What clients see of the server: the properties of its responses and of every state that
  requests, workers, jobs and the shutdown reach, applied to a server with a limiter library,
  a router and a CORS handler of its own.
\<close>

section \<open>A server to apply them to\<close>

definition demo_route :: "request \<Rightarrow> (endpoint \<times> string) option" where
  "demo_route r = (if rq_Path r = ''/health'' then Some (GetHealth, [])
     else if rq_Path r = ''/api/shorten'' then Some (PostShorten, [])
     else if rq_Path r = ''/1000001'' then Some (GetHash, ''1000001'') else None)"

definition demo_lib :: "(int, bucket) server_lib" where
  "demo_lib = \<lparr>sl_rate = bucket_lib, sl_per_minute = (\<lambda>n. minute div n), sl_cors = (\<lambda>opts next. next),
     sl_realip = (\<lambda>r. r), sl_stack = (\<lambda>_. ''main.go''), sl_route = demo_route,
     sl_fallback = (\<lambda>r c. serve_return (on_writer (WriteError 404 ''404 page not found'' []) c))\<rparr>"

lemma WriteError_hardened:
  "hardened (request_values i) w \<Longrightarrow> hardened (request_values i) (WriteError st msg code w)"
proof -
  have "canonical_key ''Content-Type'' \<notin> canonical_key ` fst ` set (request_values i)"
    using other_headers(1) kept_values(1) by blast
  then show "hardened (request_values i) w \<Longrightarrow> hardened (request_values i) (WriteError st msg code w)"
    by (simp add: WriteError_def WriteJSON_def hardened_ops)
qed

lemma demo_lib_ok: "lib_ok demo_lib"
proof -
  have "cors_passes (\<lambda>opts next :: (int, bucket) server handler. next)"
    unfolding cors_passes_def
  proof (intro allI)
    fix "next" :: "(int, bucket) server handler" and r c
    show "\<exists>w. (hardened security_values (cn_w c) \<longrightarrow> hardened security_values w) \<and>
       (wr_sent (cn_w c) = None \<longrightarrow> next r c = (None, c\<lparr>cn_w := w\<rparr>) \<or> wr_sent w = None \<and> next r c = next r (c\<lparr>cn_w := w\<rparr>))"
      by (intro exI [of _ "cn_w c"]) simp
  qed
  moreover have "fallback_answers (sl_fallback demo_lib)"
    by (auto simp: fallback_answers_def demo_lib_def serve_return_def on_writer_def WriteError_hardened)
  ultimately show ?thesis by (simp add: lib_ok_def demo_lib_def)
qed

definition demo_server :: "world \<Rightarrow> (int, bucket) server" where
  "demo_server w = \<lparr>sv_world = w, sv_disp = demo_dispatcher, sv_shorten = NewRateLimiter second 60,
     sv_redirect = NewRateLimiter second 60, sv_analytics = NewRateLimiter second 60, sv_report = NewRateLimiter second 60\<rparr>"

lemma demo_server_sel [simp]: "sv_world (demo_server w) = w" "sv_disp (demo_server w) = demo_dispatcher"
  by (simp_all add: demo_server_def)

lemma demo_resolve:
  "resolve_step demo_platform demo_config demo_hash1 demo_short = ((Some (zero_url\<lparr>u_Hash := demo_hash1,
     u_OriginalURL := demo_url, u_ID := 1, u_VTStatus := ScanClean\<rparr>), None), tick demo_short)"
proof -
  have "utf8_valid demo_url" "utf8_valid ScanClean"
    by (simp_all add: utf8_valid_ascii demo_url_def scan_status_defs)
  then have "cached_entry ascii_tables demo_short demo_hash1 = Some (demo_url, ScanClean)" "cached_ident demo_short demo_hash1 = 1"
    unfolding demo_short_def by (simp_all only: cache_after_set [OF demo_no_faults])
  then show ?thesis using resolve_hit [of demo_platform demo_short demo_hash1 demo_url ScanClean demo_config]
    by (simp add: scan_status_defs)
qed

lemma demo_redirect:
  fixes sv :: "(int, bucket) server"
  assumes "sv_world sv = demo_short" "sv_disp sv = demo_dispatcher"
  obtains c where "RedirectHandle server_now (redirectHandler demo_platform demo_config) demo_request (new_conn sv) = (None, c)"
    "response_status (cn_w c) = 301" "response_header (cn_w c) ''Location'' = demo_url"
proof -
  let ?h = "redirectHandler demo_platform demo_config :: (int, bucket) server RedirectHandler"
  let ?u = "zero_url\<lparr>u_Hash := demo_hash1, u_OriginalURL := demo_url, u_ID := 1, u_VTStatus := ScanClean\<rparr>"
  let ?s = "sv\<lparr>sv_world := tick demo_short\<rparr>"
  have sel: "rh_Resolve ?h = (\<lambda>h. in_world (resolve_step demo_platform demo_config h))" "rh_Submit ?h = submit_click"
    by (simp_all add: redirectHandler_def SetTrustedProxies_def NewRedirectHandlerWithCache_def)
  have clean: "sanitizeRedirectURL demo_url = demo_url" "valid_scheme demo_url" "hashPattern demo_hash1" by code_simp+
  have res: "rh_Resolve ?h demo_hash1 sv = ((Some ?u, None), ?s)"
    by (simp add: sel in_world_def demo_resolve assms(1))
  obtain d where d: "rh_Submit ?h (click_event server_now ?h demo_request ?u ?s) ?s = Some (?s\<lparr>sv_disp := d\<rparr>)"
    by (auto simp: sel submit_click_def Submit_def assms(2) demo_dispatcher_sel)
  let ?c = "snd (respond (redirect_to demo_url) (?s\<lparr>sv_disp := d\<rparr>) (new_conn sv))"
  have "RedirectHandle server_now ?h demo_request (new_conn sv) = (None, ?c)"
    using res d clean by (simp add: RedirectHandle_def demo_request_def respond_def serve_return_def)
  moreover have "response_status (cn_w ?c) = 301" by (simp add: redirect_to_def response_status_def)
  moreover have "canonical_key ''Location'' \<noteq> canonical_key ''Cache-Control''" by code_simp
  then have "response_header (cn_w ?c) ''Location'' = demo_url" by (simp add: redirect_to_def response_header_def)
  ultimately show ?thesis by (rule that)
qed

section \<open>Redirects\<close>

text \<open>What a handler that answers 301 has done.\<close>

lemma redirect_answered:
  assumes run: "RedirectHandle clk h r c = (x, c')" and "wr_sent (cn_w c) = None" "response_status (cn_w c') = 301"
  obtains u s s' where "hashPattern (rq_hash r)" "rh_Resolve h (rq_hash r) (cn_state c) = ((Some u, None), s)"
    "valid_scheme (sanitizeRedirectURL (u_OriginalURL u))" "rh_Submit h (click_event clk h r u s) s = Some s'" "x = None"
    "cn_state c' = s'" "response_header (cn_w c') ''Location'' = sanitizeRedirectURL (u_OriginalURL u)"
    "response_header (cn_w c') ''Cache-Control'' = ''private, max-age=0, no-store''"
proof -
  have keys: "canonical_key ''Location'' \<noteq> canonical_key ''Cache-Control''" by code_simp
  have none: "response_status (cn_w (c\<lparr>cn_state := s\<rparr>)) \<noteq> 301" for s
    using assms(2) by (simp add: response_status_def)
  have fails: "response_status (redirect_failure u e (cn_w c)) \<noteq> 301" for u e
    using assms(2) by (simp add: redirect_failure_def)
  have pat: "hashPattern (rq_hash r)"
    using assms by (auto simp: RedirectHandle_def Let_def respond_error_def respond_def serve_return_def split: if_splits)
  obtain u e s where res: "rh_Resolve h (rq_hash r) (cn_state c) = ((u, e), s)" by (metis surj_pair)
  have ok: "e = None" "u \<noteq> None"
    using run pat res assms(3) fails none
    by (cases e; cases u; force simp: RedirectHandle_def respond_def serve_return_def)+
  then obtain u' where u: "u = Some u'" by blast
  have valid: "valid_scheme (sanitizeRedirectURL (u_OriginalURL u'))"
    using run pat res ok u assms(2,3) by (auto simp: RedirectHandle_def Let_def respond_error_def respond_def serve_return_def split: if_splits)
  obtain s' where s': "rh_Submit h (click_event clk h r u' s) s = Some s'"
    using run pat res ok u valid assms(3) none by (cases "rh_Submit h (click_event clk h r u' s) s") (auto simp: RedirectHandle_def Let_def)
  then have "(x, c') = respond (redirect_to (sanitizeRedirectURL (u_OriginalURL u'))) s' c"
    using run pat res ok u valid by (simp add: RedirectHandle_def Let_def)
  then have "x = None" "cn_state c' = s'" "cn_w c' = redirect_to (sanitizeRedirectURL (u_OriginalURL u')) (cn_w c)"
    using respond_sel(1-3) by (metis fst_conv snd_conv)+
  with that [OF pat _ valid s'] res ok u keys assms(2) show ?thesis
    by (simp add: redirect_to_def response_header_def)
qed

lemma sanitized_chars: "set (sanitizeRedirectURL u) \<inter> {CHR 0x0D, CHR 0x0A, CHR 0x09, CHR 0x00} = {}"
  by (auto simp: sanitizeRedirectURL_def)

lemma reachable_answer:
  assumes "reachable p cfg w" "resolve_step p cfg h w = ((Some u, None), w')"
  obtains r where "r \<in> set (w_urls w)" "same_text (pf_env p) (u_Hash r) h" "u_OriginalURL r = u_OriginalURL u"
    "ValidateURL (pf_uc p) (lib_idna (pf_lib p)) (u_OriginalURL r) (cfg_BaseURL cfg) = Inr ()"
proof -
  have ok: "system_ok (world_view p) (same_text (pf_env p)) (pf_lib p) (cfg_BaseURL cfg) w"
    using reachable_sys_ok [OF assms(1)] by (simp add: sys_ok_def)
  have "resolver.answers p w h u" by (rule resolver.Resolve_answers [OF redirectorSvc_wired ok assms(2)])
  from resolver.answers_good [OF this ok] show ?thesis using that by (auto simp: row_good_def)
qed

lemma redirectHandler_sel:
  "rh_Resolve (redirectHandler p cfg) = (\<lambda>h. in_world (resolve_step p cfg h))"
  "rh_Submit (redirectHandler p cfg) = submit_click"
  "rh_trustedProxies (redirectHandler p cfg) = cfg_TrustedProxies cfg"
  by (simp_all add: redirectHandler_def SetTrustedProxies_def NewRedirectHandlerWithCache_def)

section \<open>Rejected URLs\<close>

text \<open>The classes of the errors that validation gives, with their codes.\<close>

definition url_errors :: "(sentinel \<times> string) list" where
  "url_errors = [(ErrInvalidURL, ''ERR_INVALID_URL''), (ErrURLHasCredentials, ''ERR_URL_CREDENTIALS''),
     (ErrURLPrivateIP, ''ERR_URL_PRIVATE_IP''), (ErrURLSelfRef, ''ERR_URL_SELF_REF''),
     (ErrURLBlocked, ''ERR_URL_BLOCKED''), (ErrURLHomograph, ''ERR_URL_HOMOGRAPH'')]"

definition url_error :: "goerr \<Rightarrow> bool" where
  "url_error e \<longleftrightarrow> (\<exists>f args x code. e = Wrapf f args (Sentinel x) \<and> (x, code) \<in> set url_errors)"

lemma url_error_wraps:
  "url_error (Wrapf f args (Sentinel ErrInvalidURL))" "url_error (Wrapf f args (Sentinel ErrURLHasCredentials))"
  "url_error (Wrapf f args (Sentinel ErrURLPrivateIP))" "url_error (Wrapf f args (Sentinel ErrURLSelfRef))"
  "url_error (Wrapf f args (Sentinel ErrURLBlocked))" "url_error (Wrapf f args (Sentinel ErrURLHomograph))"
  by (simp_all add: url_error_def url_errors_def)

lemma check_errors:
  "checkSelfRef uc u b = Inl e \<Longrightarrow> url_error e" "checkPrivateIP h = Inl e \<Longrightarrow> url_error e"
  "checkHomograph idna h = Inl e \<Longrightarrow> url_error e"
  by (auto simp: checkSelfRef_def checkPrivateIP_def checkHomograph_def split: option.splits if_splits
      intro: url_error_wraps)

lemma ValidateURL_errors: "ValidateURL uc idna raw baseURL = Inl e \<Longrightarrow> url_error e"
  unfolding ValidateURL_def Let_def
  by (auto split: if_splits option.splits sum.splits intro: url_error_wraps check_errors)

lemma failure_of_url_error:
  "(x, code) \<in> set url_errors \<Longrightarrow>
    shorten_failure uc r (Wrapf f args (Sentinel x)) = WriteError 400 (err_text uc (Wrapf f args (Sentinel x))) code"
  by (auto simp: url_errors_def shorten_failure_def)

lemma Shorten_rejects:
  assumes "case NormalizeURL (lib_uc lib) url of Inl _ \<Rightarrow> True
     | Inr n \<Rightarrow> ValidateURL (lib_uc lib) (lib_idna lib) n (sh_baseURL svc) \<noteq> Inr ()"
  shows "\<exists>f args x code. Shorten lib clk svc ctx url s = (shorten_err zero_scan_result (Wrapf f args (Sentinel x)), s) \<and>
    (x, code) \<in> set url_errors"
proof (cases "NormalizeURL (lib_uc lib) url")
  case (Inl e)
  then show ?thesis by (auto simp: Shorten_def url_errors_def)
next
  case (Inr n)
  with assms obtain e where e: "ValidateURL (lib_uc lib) (lib_idna lib) n (sh_baseURL svc) = Inl e"
    by (cases "ValidateURL (lib_uc lib) (lib_idna lib) n (sh_baseURL svc)") auto
  from ValidateURL_errors [OF e] Inr e show ?thesis by (auto simp: Shorten_def url_error_def)
qed

section \<open>Client addresses\<close>

lemma hd_split_byte: "hd (split_byte c s) = takeWhile (\<lambda>x. x \<noteq> c) s"
proof -
  have "split_byte c s \<noteq> [] \<and> hd (split_byte c s) = takeWhile (\<lambda>x. x \<noteq> c) s"
    by (induction s) (auto split: list.split)
  then show ?thesis by blast
qed

lemma handler_trusted: "handler_isTrustedProxy ip tp = isTrustedProxy ip tp"
proof -
  have "find P xs \<noteq> None \<longleftrightarrow> (\<exists>x\<in>set xs. P x)" for P and xs :: "string list" by (auto simp: find_None_iff)
  then show ?thesis
    unfolding handler_isTrustedProxy_def isTrustedProxy_def proxy_matches_def
    by (auto simp: Let_def split: option.split)
qed

text \<open>What the pool's own invariant says of the server.\<close>

lemma dispatched_bounds:
  assumes "dispatched p cfg sv"
  shows "QueueLen (sv_disp sv) \<le> nat (cfg_AnalyticsBuffer cfg) \<and>
    (\<exists>d t x. dispatcher p cfg = Some d \<and> pool_run fewer_clicks (pool_start d (empty_world t)) x \<and>
       pl_disp x = sv_disp sv \<and> pl_state x = sv_world sv \<and>
       click_rows (sv_world sv) \<subseteq># image_mset event_row (mset (pl_accepted x)))"
proof -
  obtain d t x where x: "dispatcher p cfg = Some d" "pool_run fewer_clicks (pool_start d (empty_world t)) x"
      "pl_disp x = sv_disp sv" "pl_state x = sv_world sv"
    using assms by (auto simp: dispatched_def)
  note run = started_run [OF x(1)[unfolded dispatcher_def] x(2)]
  have "QueueLen (sv_disp sv) \<le> nat (cfg_AnalyticsBuffer cfg)"
    using run by (simp add: pool_ok_def QueueLen_def x(3))
  moreover have "click_rows (sv_world sv) \<subseteq># image_mset event_row (mset (pl_accepted x))"
    using clicks.run_log [OF x(1)[unfolded dispatcher_def] x(2)[unfolded fewer_clicks_eta]]
    by (simp add: x(4) click_rows_def empty_world_def)
  ultimately show ?thesis using x by blast
qed

section \<open>Properties\<close>

text \<open>C11: every response of the server, for any request in any state and whatever its handlers do, is
  sent with the five security headers, and no panic leaves the chain.\<close>

theorem server_responds:
  assumes "lib_ok lib" and "c = snd (server_handler p cfg lib isDev rnd r (new_conn sv))"
  shows "fst (server_handler p cfg lib isDev rnd r (new_conn sv)) = None \<and>
    map (response_header (cn_w c)) [''X-Content-Type-Options'', ''X-Frame-Options'', ''X-XSS-Protection'', ''Referrer-Policy'',
      ''Content-Security-Policy''] =
    [''nosniff'', ''DENY'', ''1; mode=block'', ''no-referrer'', ''default-src '' @ [CHR 0x27] @ ''none'' @ [CHR 0x27]]"
proof -
  have "response_header (cn_w c) k = v" if "(k, v) \<in> set security_values" for k v
    using server_response(2) [OF assms(1), of p cfg isDev rnd r sv] that
    by (auto simp: assms(2) hardened_def response_header_def split: option.splits)
  then show ?thesis using server_response(1) [OF assms(1)] by (simp add: security_values_def)
qed

theorem server_responds_witness:
  "fst (server_handler demo_platform demo_config demo_lib False [] demo_request (new_conn (demo_server demo_short))) = None \<and>
   response_header (cn_w (snd (server_handler demo_platform demo_config demo_lib False [] demo_request
     (new_conn (demo_server demo_short))))) ''X-Frame-Options'' = ''DENY''"
  using server_responds [OF demo_lib_ok HOL.refl, of demo_platform demo_config False "[]" demo_request "demo_server demo_short"] by simp

text \<open>C6: in every state that requests, workers, jobs, evictions and the shutdown reach, in any order and
  under any faults, the database and the cache are in a state of the system's own model; the
  dispatcher is where a run of its pool of goroutines leads in which nothing else adds a click,
  with its queue within the buffer; and the clicks table holds clicks of accepted events only,
  each at most once.\<close>

theorem server_refines_models:
  assumes "lib_ok lib" "server_reachable p cfg lib isDev sv"
  shows "reachable p cfg (sv_world sv) \<and> QueueLen (sv_disp sv) \<le> nat (cfg_AnalyticsBuffer cfg) \<and>
    (\<exists>d t x. dispatcher p cfg = Some d \<and> pool_run fewer_clicks (pool_start d (empty_world t)) x \<and>
       pl_disp x = sv_disp sv \<and> pl_state x = sv_world sv \<and>
       click_rows (sv_world sv) \<subseteq># image_mset event_row (mset (pl_accepted x)))"
proof -
  have inv: "server_inv p cfg sv" by (rule server_reachable_inv [OF assms])
  then show ?thesis using dispatched_bounds [of p cfg sv] by (simp add: server_inv_def)
qed

lemma demo_server_start:
  obtains sv where "server_start demo_platform demo_config demo_lib 0 = Some sv"
  by (simp add: server_start_def demo_dispatcher_started)

theorem server_refines_models_witness:
  "\<exists>sv. server_reachable demo_platform demo_config demo_lib False
      (cn_state (snd (server_handler demo_platform demo_config demo_lib False [] demo_request (new_conn sv)))) \<and>
     QueueLen (sv_disp (cn_state (snd (server_handler demo_platform demo_config demo_lib False [] demo_request (new_conn sv))))) \<le> 1000"
proof -
  obtain sv where "server_start demo_platform demo_config demo_lib 0 = Some sv" by (rule demo_server_start)
  then have r: "server_reachable demo_platform demo_config demo_lib False
      (cn_state (snd (server_handler demo_platform demo_config demo_lib False [] demo_request (new_conn sv))))"
    by (rule server_reachable.step [OF server_reachable.start server_step.request])
  from server_refines_models [OF demo_lib_ok r] r show ?thesis by auto
qed

text \<open>C7: a redirect answers with 301 only for the URL of a stored row that the hash selects and that has
  passed validation; its \<open>Location\<close> has no CR, LF, TAB or NUL, and exactly one click of that
  request has been handed to the dispatcher, with an anonymised address.\<close>

theorem redirect_response:
  assumes "reachable p cfg (sv_world sv)"
    and "RedirectHandle server_now (redirectHandler p cfg) r (new_conn sv) = (x, c)" "response_status (cn_w c) = 301"
  shows "\<exists>u e. u \<in> set (w_urls (sv_world sv)) \<and> same_text (pf_env p) (u_Hash u) (rq_hash r) \<and>
    ValidateURL (pf_uc p) (lib_idna (pf_lib p)) (u_OriginalURL u) (cfg_BaseURL cfg) = Inr () \<and>
    response_header (cn_w c) ''Location'' = sanitizeRedirectURL (u_OriginalURL u) \<and>
    set (response_header (cn_w c) ''Location'') \<inter> {CHR 0x0D, CHR 0x0A, CHR 0x09, CHR 0x00} = {} \<and>
    Submit e (sv_disp sv) = Some (sv_disp (cn_state c)) \<and> ev_IP e = AnonymizeIP (clientIP r (cfg_TrustedProxies cfg))"
proof -
  let ?h = "redirectHandler p cfg :: ('a, 'b) server RedirectHandler"
  obtain u s s' where a: "rh_Resolve ?h (rq_hash r) sv = ((Some u, None), s)"
      "rh_Submit ?h (click_event server_now ?h r u s) s = Some s'" "cn_state c = s'"
      "response_header (cn_w c) ''Location'' = sanitizeRedirectURL (u_OriginalURL u)"
    by (rule redirect_answered [OF assms(2) _ assms(3)]) simp_all
  obtain w' where w': "resolve_step p cfg (rq_hash r) (sv_world sv) = ((Some u, None), w')" "s = sv\<lparr>sv_world := w'\<rparr>"
    using a(1) by (auto simp: redirectHandler_sel in_world_def split: prod.splits)
  obtain row where row: "row \<in> set (w_urls (sv_world sv))" "same_text (pf_env p) (u_Hash row) (rq_hash r)"
      "u_OriginalURL row = u_OriginalURL u"
      "ValidateURL (pf_uc p) (lib_idna (pf_lib p)) (u_OriginalURL row) (cfg_BaseURL cfg) = Inr ()"
    by (rule reachable_answer [OF assms(1) w'(1)])
  obtain d where d: "Submit (click_event server_now ?h r u s) (sv_disp s) = Some d" "cn_state c = s\<lparr>sv_disp := d\<rparr>"
    using a(2,3) by (auto simp: redirectHandler_sel submit_click_def)
  then have "Submit (click_event server_now ?h r u s) (sv_disp sv) = Some (sv_disp (cn_state c))"
    by (simp add: w'(2))
  moreover have "ev_IP (click_event server_now ?h r u s) = AnonymizeIP (clientIP r (cfg_TrustedProxies cfg))"
    by (simp add: click_event_def redirectHandler_sel)
  ultimately show ?thesis using row a(4) sanitized_chars [of "u_OriginalURL u"] by (metis (no_types, lifting))
qed

theorem redirect_response_witness:
  "\<exists>c u. RedirectHandle server_now (redirectHandler demo_platform demo_config) demo_request (new_conn (demo_server demo_short)) = (None, c) \<and>
     response_header (cn_w c) ''Location'' = ''https://example.org/page'' \<and>
     u \<in> set (w_urls demo_short) \<and> response_header (cn_w c) ''Location'' = sanitizeRedirectURL (u_OriginalURL u)"
proof -
  let ?sv = "demo_server demo_short"
  obtain c where run: "RedirectHandle server_now (redirectHandler demo_platform demo_config) demo_request (new_conn ?sv) = (None, c)"
      "response_status (cn_w c) = 301" "response_header (cn_w c) ''Location'' = ''https://example.org/page''"
    using demo_redirect [of ?sv] by (auto simp: demo_url_def)
  have "reachable demo_platform demo_config (sv_world ?sv)" using demo_reachable(2) by simp
  from redirect_response [OF this run(1,2)] obtain u where
    "u \<in> set (w_urls demo_short)" "response_header (cn_w c) ''Location'' = sanitizeRedirectURL (u_OriginalURL u)" by auto
  then show ?thesis using run by blast
qed


definition demo_private :: request where
  "demo_private = demo_request\<lparr>rq_Body := \<lparr>bd_data = json_text (JObj [(''url'', JStr ''http://127.0.0.1/'')]), bd_end = EOF\<rparr>\<rparr>"


text \<open>C32: the rate limiter and the click log see the same client: the address of the connection, or the
  first one that \<open>X-Forwarded-For\<close> names when the connection comes from a trusted proxy.\<close>

theorem client_addresses:
  "clientIP r tp = getIP r tp \<and>
   getIP r tp = (let host = (case split_host_port (rq_RemoteAddr r) of None \<Rightarrow> rq_RemoteAddr r | Some (h, _) \<Rightarrow> h);
       xff = header_get (rq_Header r) ''X-Forwarded-For''
     in if tp \<noteq> [] \<and> xff \<noteq> [] \<and> isTrustedProxy host tp then trim_space (takeWhile (\<lambda>ch. ch \<noteq> CHR '','') xff) else host)"
proof -
  have "cut CHR '','' xff = (takeWhile (\<lambda>ch. ch \<noteq> CHR '','') xff, snd (cut CHR '','' xff))" for xff
    by (auto simp: cut_def intro!: takeWhile_eq_all_conv [THEN iffD2, symmetric])
  then have cut: "fst (cut CHR '','' xff) = takeWhile (\<lambda>ch. ch \<noteq> CHR '','') xff" for xff by (metis fst_conv)
  show ?thesis
    unfolding clientIP_def getIP_def handler_trusted cut hd_split_byte Let_def by (auto split: option.split)
qed


end
