(* ===== verification/ConcurrentServer.thy ===== *)
theory ConcurrentServer
  imports HandlerThreads ThreadFrames Requests
begin

text \<open>
  The running server with every request in a goroutine of its own: the calls of all requests, of the
  rescanner and of the retention job interleave with each other, with the workers of the dispatcher,
  the eviction of idle limiters, the clock and the shutdown. The invariant is that of MySQL and Redis
  with the one of the dispatcher's pool; every goroutine keeps it, and what a request has answered is
  true ever after.
\<close>

section \<open>Goroutines of the server\<close>

text \<open>
  A request as the router passes it on: \<open>RealIP\<close> and \<open>RequestID\<close> have made it what it is, and the outer
  middleware may have set headers on its writer, but nothing of the response has been sent.
\<close>

datatype server_job = Serve endpoint request writer | Background job

datatype served = Responded "string option" writer | Ended

fun server_thread :: "platform \<Rightarrow> config \<Rightarrow> ('f, 'l) server_lib \<Rightarrow> server_job \<Rightarrow> (('f, 'l) server, served) thread" where
  "server_thread p cfg lib (Serve e r w0) =
     and_then (endpoint_thread p cfg lib e r w0) (\<lambda>(x, w). thread.Done (Responded x w))"
| "server_thread p cfg lib (Background j) = and_then (in_server (job_thread p cfg j)) (\<lambda>_. thread.Done Ended)"

text \<open>In the background run cycles of the rescanner and the deletion of old clicks.\<close>

fun server_starts :: "config \<Rightarrow> server_job \<Rightarrow> bool" where
  "server_starts cfg (Serve e r w0) = (wr_sent w0 = None \<and> wr_body w0 = [])"
| "server_starts cfg (Background (RescanJob dl)) = True"
| "server_starts cfg (Background (CleanupJob days)) = (days = cfg_AnalyticsRetentionDays cfg)"
| "server_starts cfg (Background _) = False"

definition server_limiters :: "(('f, 'l) server, 'f, 'l) limiter_ref list" where
  "server_limiters = [shortenLimiter, redirectLimiter, analyticsLimiter, reportLimiter]"

text \<open>What happens besides: a worker's step, the eviction of one limiter, time, and the closing of the channel.\<close>

inductive server_env :: "('f, 'l) server \<Rightarrow> ('f, 'l) server \<Rightarrow> bool" where
  worker: "worker_step i (sv_disp sv, sv_world sv) = Some (d, w) \<Longrightarrow> server_env sv (sv\<lparr>sv_disp := d, sv_world := w\<rparr>)"
| evict: "ref \<in> set server_limiters \<Longrightarrow> server_env sv (lr_put ref (rate_cleanup (server_now sv) (lr_get ref sv)) sv)"
| later: "time_passes (sv_world sv) w \<Longrightarrow> server_env sv (sv\<lparr>sv_world := w\<rparr>)"
| shutdown: "close_events (sv_disp sv) = Some d \<Longrightarrow> server_env sv (sv\<lparr>sv_disp := d\<rparr>)"

abbreviation serving ::
  "platform \<Rightarrow> config \<Rightarrow> ('f, 'l) server_lib \<Rightarrow> (server_job, ('f, 'l) server, served) pool \<Rightarrow>
   (server_job, ('f, 'l) server, served) pool \<Rightarrow> bool" where
  "serving p cfg lib \<equiv> interleave (server_starts cfg) (server_thread p cfg lib) server_env"

section \<open>The invariant\<close>

definition serve_ok :: "platform \<Rightarrow> config \<Rightarrow> ('f, 'l) server \<Rightarrow> bool" where
  "serve_ok p cfg sv \<longleftrightarrow> sys_ok p cfg (sv_world sv) \<and> dispatched p cfg sv"

text \<open>Rows stay, and a channel that was closed stays closed.\<close>

definition serve_rel :: "platform \<Rightarrow> ('f, 'l) server \<Rightarrow> ('f, 'l) server \<Rightarrow> bool" where
  "serve_rel p sv sv' \<longleftrightarrow> evolves (world_view p) (sv_world sv) (sv_world sv') \<and>
     (ds_closed (sv_disp sv) \<longrightarrow> ds_closed (sv_disp sv'))"

interpretation serves: interference "serve_ok p cfg" "serve_rel p" for p cfg
proof
  show "serve_rel p sv sv" for sv :: "('a, 'b) server"
    using evolving.rely_refl by (simp add: serve_rel_def)
  show "serve_rel p sv sv''" if "serve_rel p sv sv'" "serve_rel p sv' sv''" for sv sv' sv'' :: "('a, 'b) server"
    using that evolves_trans [of "world_view p" "sv_world sv" "sv_world sv'" "sv_world sv''"] by (simp add: serve_rel_def)
qed

abbreviation serve_safe where
  "serve_safe p cfg \<equiv> safe (serve_ok p cfg) (serve_rel p)"

text \<open>What leaves MySQL, Redis and the dispatcher alone.\<close>

lemma serve_same:
  assumes "sv_world sv' = sv_world sv" "sv_disp sv' = sv_disp sv" "serve_ok p cfg sv"
  shows "serve_ok p cfg sv' \<and> serve_rel p sv sv'"
  using assms evolving.rely_refl by (simp add: serve_ok_def serve_rel_def dispatched_def)

text \<open>A change of MySQL and Redis that adds no click.\<close>

lemma serve_world:
  assumes "serve_ok p cfg sv" "sys_ok p cfg w" "evolves (world_view p) (sv_world sv) w" "fewer_clicks (sv_world sv) w"
  shows "serve_ok p cfg (sv\<lparr>sv_world := w\<rparr>) \<and> serve_rel p sv (sv\<lparr>sv_world := w\<rparr>)"
  using assms dispatched_world [of p cfg sv w] by (simp add: serve_ok_def serve_rel_def)

text \<open>A thread of the system that adds no click is a safe thread of the server.\<close>

lemma safe_in_server:
  fixes sv :: "('f, 'l) server" and t :: "(world, 'a) thread"
  assumes "job_safe p cfg Q t (sv_world sv)" "framed fewer_clicks t"
  shows "serve_safe p cfg (\<lambda>a sv. Q a (sv_world sv)) (in_server t) sv"
  using assms
proof (induction t arbitrary: sv rule: thread_induct)
  case (Done a)
  then show ?case by (simp add: serve_ok_def serve_rel_def sys_ok_def)
next
  case (Await f)
  show ?case unfolding in_server_Await
  proof (rule safe_AwaitI)
    fix sv' sv'' :: "('f, 'l) server" and u :: "(('f, 'l) server, 'a) thread" assume sv': "serve_rel p sv sv'" "serve_ok p cfg sv'"
      and u: "(case f (sv_world sv') of (t, w) \<Rightarrow> (in_server t, sv'\<lparr>sv_world := w\<rparr>)) = (u, sv'')"
    obtain t w where f: "f (sv_world sv') = (t, w)" by (metis surj_pair)
    have eq: "u = in_server t" "sv'' = sv'\<lparr>sv_world := w\<rparr>" using u f by simp_all
    have step: "system_ok (world_view p) (same_text (pf_env p)) (pf_lib p) (cfg_BaseURL cfg) w \<and>
        evolves (world_view p) (sv_world sv') w \<and> job_safe p cfg Q t w"
      by (rule safe_AwaitD [OF Await.prems(1) _ _ f]) (use sv' in \<open>simp_all add: serve_rel_def serve_ok_def sys_ok_def\<close>)
    have fr: "framed fewer_clicks t" "fewer_clicks (sv_world sv') w"
      using Await.prems(2) f unfolding framed_Await by (metis fst_conv, metis snd_conv)
    have "serve_safe p cfg (\<lambda>a sv. Q a (sv_world sv)) (in_server (fst (f (sv_world sv')))) sv''"
      by (rule Await.IH) (use step fr f eq in simp_all)
    moreover have "serve_ok p cfg sv'' \<and> serve_rel p sv' sv''"
      unfolding eq by (rule serve_world [OF sv'(2)]) (use step fr in \<open>simp_all add: sys_ok_def\<close>)
    ultimately show "serve_ok p cfg sv'' \<and> serve_rel p sv' sv'' \<and> serve_safe p cfg (\<lambda>a sv. Q a (sv_world sv)) u sv''"
      using f eq by simp
  qed
qed

lemma framed_mono: "framed R t \<Longrightarrow> (\<And>s s'. R s s' \<Longrightarrow> R' s s') \<Longrightarrow> framed R' t"
  by (induction t rule: thread_induct) auto

text \<open>A service of the system that keeps the clicks, followed by what the handler does with its answer.\<close>

lemma safe_service:
  assumes "job_safe p cfg P t (sv_world sv)" "framed same_clicks t" "serve_ok p cfg sv"
    and "\<And>a sv'. serve_rel p sv sv' \<Longrightarrow> serve_ok p cfg sv' \<Longrightarrow> P a (sv_world sv') \<Longrightarrow> serve_safe p cfg Q (k a) sv'"
  shows "serve_safe p cfg Q (and_then (in_server t) k) sv"
  by (rule serves.safe_and_then [OF safe_in_server [OF assms(1) framed_mono [OF assms(2), of fewer_clicks]] _ assms(3)])
    (fact same_fewer, rule assms(4))

text \<open>Calls of the program on MySQL and Redis alone, as handlers make them.\<close>

lemma safe_in_world:
  assumes "\<And>w. keeps (world_view p) w (snd (f w))" "frames same_clicks f" "serve_ok p cfg sv"
    and "\<And>a sv'. serve_ok p cfg sv' \<Longrightarrow> serve_safe p cfg Q (k a) sv'"
  shows "serve_safe p cfg Q (and_then (perform (in_world f)) k) sv"
proof -
  have eq: "perform (in_world f) = in_server (perform f)"
    by (simp add: perform_simps in_world_def split_beta fun_eq_iff)
  show ?thesis unfolding eq
    by (rule safe_service [OF safe_single [OF assms(1)] framed_perform [OF assms(2)] assms(3)]) (rule assms(4))
qed

section \<open>Handlers\<close>

text \<open>What a redirect promises: it leads to the sanitized URL of a row that the hash selects; it panics
  when it cannot hand its click over, because the channel is closed, and for no other reason.\<close>

fun redirect_promise :: "platform \<Rightarrow> string \<Rightarrow> reply \<Rightarrow> ('f, 'l) server \<Rightarrow> bool" where
  "redirect_promise p h (Some e, w) sv \<longleftrightarrow> e = ''send on closed channel'' \<and> ds_closed (sv_disp sv)"
| "redirect_promise p h (None, w) sv \<longleftrightarrow> (response_status w = 301 \<longrightarrow> hashPattern h \<and>
     (\<exists>u. resolver.answers p (sv_world sv) h u \<and> response_header w ''Location'' = sanitizeRedirectURL (u_OriginalURL u)))"

lemma pattern_distinct: "hashPattern h \<Longrightarrow> \<not> same_text env [] h"
  by (auto simp: hashPattern_def same_text_def)

lemma redirect_done:
  assumes "redirect_promise p h a sv" shows "serve_safe p cfg (redirect_promise p h) (thread.Done a) sv"
proof (cases a)
  case (Pair x w)
  with assms show ?thesis
    by (cases x) (auto simp: serve_rel_def intro: resolver.answers_stable [OF _ _ pattern_distinct])
qed

lemma redirect_reply: "response_status w \<noteq> 301 \<Longrightarrow> serve_safe p cfg (redirect_promise p h) (replies w) sv"
  by (simp add: redirect_done)

lemma failure_status: "wr_sent w = None \<Longrightarrow> response_status (redirect_failure u e w) \<noteq> 301"
  by (simp add: redirect_failure_def)

lemma redirect_to_sel:
  assumes "wr_sent w = None" shows "response_header (redirect_to cleaned w) ''Location'' = cleaned"
proof -
  have "canonical_key ''Location'' \<noteq> canonical_key ''Cache-Control''" by code_simp
  with assms show ?thesis by (simp add: redirect_to_def response_header_def)
qed

lemma Submit_closed: "Submit e d = None \<longleftrightarrow> ds_closed d" "Submit e d = Some d' \<Longrightarrow> ds_closed d' = ds_closed d"
  by (auto simp: Submit_def split: if_splits option.splits)

lemma submit_safe:
  fixes sv :: "('f, 'l) server"
  assumes "hashPattern h" "resolver.answers p (sv_world sv) h u" "wr_sent w = None"
  shows "serve_safe p cfg (redirect_promise p h)
    (submit_thread clk (redirectHandler p cfg) r u (sanitizeRedirectURL (u_OriginalURL u)) w) sv"
  unfolding submit_thread_def
proof (rule serves.safe_clock, rule serves.safe_call)
  fix sv1 sv2 sv3 :: "('f, 'l) server" and sent
  assume sv1: "serve_rel p sv sv1" and sv2: "serve_rel p sv1 sv2" "serve_ok p cfg sv2"
    and f: "(case rh_Submit (redirectHandler p cfg) (click_event (\<lambda>_. clk sv1) (redirectHandler p cfg) r u sv2) sv2 of
      None \<Rightarrow> (False, sv2) | Some s' \<Rightarrow> (True, s')) = (sent, sv3)"
  define e where "e = click_event (\<lambda>_. clk sv1) (redirectHandler p cfg) r u sv2"
  have sub: "rh_Submit (redirectHandler p cfg) e = submit_click e" by (simp add: redirectHandler_sel)
  have ans: "resolver.answers p (sv_world sv2) h u"
    using resolver.answers_stable [OF resolver.answers_stable [OF assms(2) _ pattern_distinct] _ pattern_distinct]
      sv1 sv2(1) assms(1) unfolding serve_rel_def by blast
  show "serve_ok p cfg sv3 \<and> serve_rel p sv2 sv3 \<and> serve_safe p cfg (redirect_promise p h)
    (if sent then replies (redirect_to (sanitizeRedirectURL (u_OriginalURL u)) w) else panics ''send on closed channel'' w) sv3"
  proof (cases "submit_click e sv2")
    case None
    then have "ds_closed (sv_disp sv2)" by (simp add: submit_click_def Submit_closed)
    then have "serve_safe p cfg (redirect_promise p h) (panics ''send on closed channel'' w) sv2"
      by (intro redirect_done) simp
    with None show ?thesis using f sv2(2) serves.rely_refl [of p sv2] unfolding e_def [symmetric] sub by auto
  next
    case (Some sv')
    then have eq: "sent" "sv3 = sv'" using f unfolding e_def [symmetric] sub by simp_all
    have same: "sv_world sv' = sv_world sv2" "ds_closed (sv_disp sv') = ds_closed (sv_disp sv2)"
      using Some by (auto simp: submit_click_def Submit_closed(2))
    have "dispatched p cfg sv'" by (rule dispatched_moves [OF moves_submit [OF Some]]) (use sv2(2) in \<open>simp add: serve_ok_def\<close>)
    moreover have "serve_safe p cfg (redirect_promise p h) (replies (redirect_to (sanitizeRedirectURL (u_OriginalURL u)) w)) sv'"
      by (rule redirect_done) (use ans same assms redirect_to_sel in auto)
    ultimately show ?thesis
      using sv2(2) same evolving.rely_refl by (simp add: eq serve_ok_def serve_rel_def)
  qed
qed

lemma redirect_handler_safe:
  fixes sv :: "('f, 'l) server"
  assumes "serve_ok p cfg sv" "wr_sent w = None"
  shows "serve_safe p cfg (redirect_promise p (rq_hash r)) (redirect_handler_thread
    (\<lambda>h. in_server (resolve_thread w_clock (redirectorSvc p cfg) h)) server_now (redirectHandler p cfg) r w) sv"
proof (cases "hashPattern (rq_hash r)")
  case False
  then show ?thesis using assms(2) by (simp add: redirect_handler_thread_def redirect_reply)
next
  case True
  let ?safe = "serve_safe p cfg (redirect_promise p (rq_hash r))"
  have pattern: "(\<not> hashPattern (rq_hash r)) = False" using True by simp
  have cache: "rh_cache (redirectHandler p cfg) = Some (\<lambda>h. in_world (cache_Delete (redis (pf_env p)) h))"
    by (simp add: redirectHandler_def SetTrustedProxies_def NewRedirectHandlerWithCache_def)
  have del: "?safe (and_then (if_some (rh_cache (redirectHandler p cfg)) (\<lambda>del. del (rq_hash r)))
      (\<lambda>_. replies (WriteError 500 ''internal server error'' ''ERR_INTERNAL'' w))) sv'"
    if "serve_ok p cfg sv'" for sv' :: "('f, 'l) server"
    unfolding cache if_some_def option.case
    by (rule safe_in_world [OF cache.del_keeps cache_clicks(2) that]) (simp add: redirect_reply assms(2))
  have fail: "?safe (replies (redirect_failure u e w)) sv'" for u e and sv' :: "('f, 'l) server"
    by (rule redirect_reply [OF failure_status [OF assms(2)]])
  have sub: "?safe (submit_thread server_now (redirectHandler p cfg) r u (sanitizeRedirectURL (u_OriginalURL u)) w) sv'"
    if "resolver.answers p (sv_world sv') (rq_hash r) u" for u and sv' :: "('f, 'l) server"
    by (rule submit_safe [OF True that assms(2)])
  show ?thesis
    unfolding redirect_handler_thread_def Let_def pattern if_False
  proof (rule safe_service [OF resolver.resolve_safe [OF redirectorSvc_wired pattern_distinct [OF True]] framed_resolve assms(1)])
    fix a and sv' :: "('f, 'l) server"
    assume "serve_ok p cfg sv'" and res: "resolver.resolved p (rq_hash r) a (sv_world sv')"
    then show "?safe (case a of (u, err) \<Rightarrow> case err of
        Some e \<Rightarrow> replies (redirect_failure u e w)
      | None \<Rightarrow> (case u of
          None \<Rightarrow> panics nil_dereference w
        | Some u \<Rightarrow>
            if \<not> valid_scheme (sanitizeRedirectURL (u_OriginalURL u))
            then and_then (if_some (rh_cache (redirectHandler p cfg)) (\<lambda>del. del (rq_hash r)))
              (\<lambda>_. replies (WriteError 500 ''internal server error'' ''ERR_INTERNAL'' w))
            else submit_thread server_now (redirectHandler p cfg) r u (sanitizeRedirectURL (u_OriginalURL u)) w)) sv'"
      using fail del sub
      by (auto simp: resolver.resolved_def simp del: safe.simps split: prod.split option.split)
  qed
qed

text \<open>What \<open>POST /shorten\<close> promises: a 201 names the hash of a stored row (or none yet) for the URL that was
  asked for; and it never panics.\<close>

definition shorten_promise :: "platform \<Rightarrow> config \<Rightarrow> body \<Rightarrow> reply \<Rightarrow> ('f, 'l) server \<Rightarrow> bool" where
  "shorten_promise p cfg body a sv \<longleftrightarrow> fst a = None \<and> (response_status (snd a) = 201 \<longrightarrow>
     (\<exists>url u. Decode_strict (pf_uc p) ShortenRequest_fields body [] = Inr url \<and> asked p url (u_OriginalURL u) \<and>
        recorded (world_view p) (sv_world sv) u \<and>
        wr_body (snd a) = json_text (shorten_response (u_Hash u) (cfg_BaseURL cfg @ ''/'' @ u_Hash u)) @ [CHR 0x0A]))"

lemma shorten_done:
  "shorten_promise p cfg body a sv \<Longrightarrow> serve_safe p cfg (shorten_promise p cfg body) (thread.Done a) sv"
  using recorded_stable by (fastforce simp: shorten_promise_def serve_rel_def)

lemma shorten_reply:
  "response_status w \<noteq> 201 \<Longrightarrow> serve_safe p cfg (shorten_promise p cfg body) (replies w) sv"
  by (simp add: shorten_done shorten_promise_def)

lemma shorten_failure_status: "wr_sent w = None \<Longrightarrow> response_status (shorten_failure uc r e w) \<noteq> 201"
  by (simp add: shorten_failure_def)

lemma job_scan_safe:
  "job_safe p cfg (\<lambda>(r, _) _. is_verdict (sr_Status r)) (job_scan p cfg (Some dl) url) w"
  using scan_cache.cached_scan_safe [of p "same_text (pf_env p)" "pf_lib p" "cfg_BaseURL cfg" cfg "vtCacheTTL cfg" dl url w]
  by (simp add: job_scan_def NewCachedScanner_def scan_cache.cached_def rawCache_def)

lemma created_safe:
  fixes sv :: "('f, 'l) server"
  assumes "shortened (world_view p) (asked p url) (u, result, err) (sv_world sv)" "wr_sent w = None" "wr_body w = []"
    and "Decode_strict (pf_uc p) ShortenRequest_fields body [] = Inr url"
  shows "serve_safe p cfg (shorten_promise p cfg body) (case err of
      Some e \<Rightarrow> replies (shorten_failure uc result e w)
    | None \<Rightarrow>
        let w' = (if sr_Status result = ScanUnverified then Header_Set ''X-Scan-Status'' ''unverified'' w else w)
        in (case u of
              None \<Rightarrow> panics nil_dereference w'
            | Some u \<Rightarrow> replies (WriteJSON 201 (shorten_response (u_Hash u) (cfg_BaseURL cfg @ ''/'' @ u_Hash u)) w'))) sv"
proof (cases err)
  case (Some e)
  then show ?thesis using shorten_reply [OF shorten_failure_status [OF assms(2)]] by simp
next
  case None
  then obtain v where v: "u = Some v" "recorded (world_view p) (sv_world sv) v" "asked p url (u_OriginalURL v)"
    using assms(1) by (cases u) (auto simp: shortened_def)
  then have "shorten_promise p cfg body (None, WriteJSON 201 (shorten_response (u_Hash v) (cfg_BaseURL cfg @ ''/'' @ u_Hash v)) w') sv"
    if "wr_sent w' = None" "wr_body w' = []" for w'
    using that assms(4) by (auto simp: shorten_promise_def WriteJSON_def Encode_json_def)
  then show ?thesis using None v(1) assms(2,3) by (simp add: Let_def shorten_done del: safe.simps)
qed

lemma shorten_handler_safe:
  fixes sv :: "('f, 'l) server"
  assumes "serve_ok p cfg sv" "wr_sent w = None" "wr_body w = []"
  shows "serve_safe p cfg (shorten_promise p cfg (rq_Body r)) (shorten_handler_thread
    (\<lambda>ctx url. in_server (shorten_thread (job_scan p cfg) (pf_lib p) w_clock (shortenerSvc p cfg) ctx url))
    (pf_uc p) (shortenHandler p cfg) r w) sv"
proof (cases "Decode_strict (pf_uc p) ShortenRequest_fields (rq_Body r) []")
  case (Inl e)
  then show ?thesis
    by (cases e) (simp_all add: shorten_handler_thread_def shorten_reply assms(2) del: safe.simps)
next
  case (Inr url)
  have base: "hs_baseURL (shortenHandler p cfg :: ('f, 'l) server ShortenHandler) = cfg_BaseURL cfg"
    by (simp add: shortenHandler_def NewShortenHandler_def)
  have safe: "job_safe p cfg (shortened (world_view p) (asked p url))
      (shorten_thread (job_scan p cfg) (pf_lib p) w_clock (shortenerSvc p cfg) (rq_ctx r) url) (sv_world sv)"
    by (rule shortening.shorten_safe [OF shortenerSvc_wired])
      (use assms(1) in \<open>auto simp: serve_ok_def sys_ok_def asked_def job_scan_safe\<close>)
  have fr: "framed same_clicks (shorten_thread (job_scan p cfg) (pf_lib p) w_clock (shortenerSvc p cfg) (rq_ctx r) url)"
    by (rule framed_shorten) (simp add: job_scan_def framed_cached_scan)
  show ?thesis
    unfolding shorten_handler_thread_def Inr sum.case base
  proof (rule safe_service [OF safe fr assms(1)], split prod.split, intro allI impI, split prod.split, intro allI impI)
    fix a x result err and u :: "url option" and sv' :: "('f, 'l) server"
    assume "shortened (world_view p) (asked p url) a (sv_world sv')" "a = (u, x)" "x = (result, err)"
    then have "shortened (world_view p) (asked p url) (u, result, err) (sv_world sv')" by simp
    note created_safe [OF this assms(2,3) Inr, of cfg "pf_uc p"]
    then show "serve_safe p cfg (shorten_promise p cfg (rq_Body r)) (case err of
        Some e \<Rightarrow> replies (shorten_failure (pf_uc p) result e w)
      | None \<Rightarrow>
          let w' = (if sr_Status result = ScanUnverified then Header_Set ''X-Scan-Status'' ''unverified'' w else w)
          in (case u of
                None \<Rightarrow> panics nil_dereference w'
              | Some u \<Rightarrow> replies (WriteJSON 201 (shorten_response (u_Hash u) (cfg_BaseURL cfg @ ''/'' @ u_Hash u)) w'))) sv'" .
  qed
qed

text \<open>The other handlers promise not to panic.\<close>

abbreviation quiet_promise :: "reply \<Rightarrow> ('f, 'l) server \<Rightarrow> bool" where
  "quiet_promise \<equiv> \<lambda>a _. fst a = None"

lemma analytics_safe:
  assumes "serve_ok p cfg sv"
  shows "serve_safe p cfg quiet_promise (analytics_handler_thread (\<lambda>h. in_server (stats_thread (analyticsSvc p) h)) r w) sv"
  unfolding analytics_handler_thread_def
  by (rule safe_service [OF stats_safe framed_stats assms]) (simp split: sum.split)

lemma report_handler_safe:
  assumes "serve_ok p cfg sv"
  shows "serve_safe p cfg quiet_promise (report_handler_thread
    (\<lambda>h ip reason. in_server (report_thread (reportSvc p cfg) h ip reason)) uc r w) sv"
proof -
  have safe: "job_safe p cfg (\<lambda>_ _. True) (report_thread (reportSvc p cfg) h ip reason) (sv_world sv)" for h ip reason
    unfolding reportSvc_service by (rule reports.report_safe)
  show ?thesis
    by (auto simp: report_handler_thread_def Let_def split: sum.split decode_error.split option.split
        intro!: safe_service [OF safe framed_report assms])
qed

lemma ping_calls: "keeps (world_view p) w (snd (ping env w))" "frames same_clicks (ping env)"
  by (simp_all add: ping_def keeps_tick frames_def same_clicks_def)

lemma health_safe:
  assumes "serve_ok p cfg sv"
  shows "serve_safe p cfg quiet_promise (health_thread (healthHandler p cfg) r w) sv"
    "serve_safe p cfg quiet_promise (health_details_thread (healthHandler p cfg) r w) sv"
  by (auto simp: health_thread_def health_details_thread_def healthHandler_def NewHealthHandlerWithSecret_def Let_def assms
      intro!: safe_in_world [OF ping_calls])

lemma limiter_same:
  "ref \<in> set server_limiters \<Longrightarrow> sv_world (lr_put ref rl sv) = sv_world sv"
  "ref \<in> set server_limiters \<Longrightarrow> sv_disp (lr_put ref rl sv) = sv_disp sv"
  by (auto simp: server_limiters_def shortenLimiter_def redirectLimiter_def analyticsLimiter_def reportLimiter_def)

lemma limited_safe:
  assumes ref: "ref \<in> set server_limiters"
    and reject: "\<And>sv. serve_safe p cfg Q (replies (too_many_requests w)) sv"
    and "next": "\<And>sv. serve_ok p cfg sv \<Longrightarrow> serve_safe p cfg Q (t r w) sv"
  shows "serve_safe p cfg Q (limited_thread lib clk ref tp t r w) sv"
  unfolding limited_thread_def
proof (rule serves.safe_call)
  fix sv1 sv2 and ok
  assume sv1: "serve_ok p cfg sv1"
    and f: "(case allow_ip lib (clk sv1) (getIP r tp) (lr_get ref sv1) of (ok, rl) \<Rightarrow> (ok, lr_put ref rl sv1)) = (ok, sv2)"
  obtain rl where "sv2 = lr_put ref rl sv1" using f by (auto split: prod.splits)
  then have "serve_ok p cfg sv2 \<and> serve_rel p sv1 sv2"
    using serve_same [OF limiter_same [OF ref] sv1] by simp
  then show "serve_ok p cfg sv2 \<and> serve_rel p sv1 sv2 \<and>
      serve_safe p cfg Q (if \<not> ok then replies (too_many_requests w) else t r w) sv2"
    using reject "next" by simp
qed

lemma json_body_safe:
  assumes "\<And>sv. serve_safe p cfg Q (replies ((Encode_json (error_json ''unsupported media type'' ''ERR_UNSUPPORTED_MEDIA_TYPE'')
             \<circ> WriteHeader 415 \<circ> Header_Set ''Content-Type'' ''application/json'') w)) sv"
    and "serve_safe p cfg Q (t (r\<lparr>rq_Body := MaxBytesReader n (rq_Body r)\<rparr>) w) sv"
  shows "serve_safe p cfg Q (body_limit_thread n (require_json_thread uc t) r w) sv"
  using assms by (simp add: body_limit_thread_def require_json_thread_def Let_def del: safe.simps)

definition serve_promise :: "platform \<Rightarrow> config \<Rightarrow> endpoint \<Rightarrow> request \<Rightarrow> reply \<Rightarrow> ('f, 'l) server \<Rightarrow> bool" where
  "serve_promise p cfg e r = (case e of
     GetHash \<Rightarrow> redirect_promise p (rq_hash r)
   | PostShorten \<Rightarrow> shorten_promise p cfg (MaxBytesReader (2 ^ 20) (rq_Body r))
   | _ \<Rightarrow> quiet_promise)"

lemma refusals:
  "wr_sent w = None \<Longrightarrow> response_status (too_many_requests w) = 429"
  "wr_sent w = None \<Longrightarrow> response_status ((Encode_json (error_json m c) \<circ> WriteHeader st
     \<circ> Header_Set ''Content-Type'' ''application/json'') w) = st"
  by (simp_all add: too_many_requests_def response_status_def Encode_json_def)

lemma endpoint_safe:
  fixes sv :: "('f, 'l) server"
  assumes "serve_ok p cfg sv" "wr_sent w = None" "wr_body w = []"
  shows "serve_safe p cfg (serve_promise p cfg e r) (endpoint_thread p cfg lib e r w) sv"
proof (cases e)
  case PostShorten
  have "rq_Body (r\<lparr>rq_Body := MaxBytesReader (2 ^ 20) (rq_Body r)\<rparr>) = MaxBytesReader (2 ^ 20) (rq_Body r)" by simp
  note safe = shorten_handler_safe [of p cfg _ w "r\<lparr>rq_Body := MaxBytesReader (2 ^ 20) (rq_Body r)\<rparr>", OF _ assms(2,3), unfolded this]
  show ?thesis unfolding PostShorten serve_promise_def endpoint_thread.simps endpoint.case
  proof (rule limited_safe)
    fix sv :: "('f, 'l) server"
    show "serve_safe p cfg (shorten_promise p cfg (MaxBytesReader (2 ^ 20) (rq_Body r))) (replies (too_many_requests w)) sv"
      by (rule shorten_reply) (simp add: refusals assms(2))
    assume ok: "serve_ok p cfg sv"
    show "serve_safe p cfg (shorten_promise p cfg (MaxBytesReader (2 ^ 20) (rq_Body r)))
      (body_limit_thread (2 ^ 20) (require_json_thread (pf_uc p) (shorten_handler_thread
       (\<lambda>ctx url. in_server (shorten_thread (job_scan p cfg) (pf_lib p) w_clock (shortenerSvc p cfg) ctx url))
       (pf_uc p) (shortenHandler p cfg))) r w) sv"
      by (rule json_body_safe, rule shorten_reply, simp add: refusals(2) [OF assms(2)] del: o_apply, rule safe [OF ok])
  qed (simp add: server_limiters_def)
next
  case GetHash
  show ?thesis unfolding GetHash serve_promise_def endpoint_thread.simps endpoint.case
    by (rule limited_safe)
      (simp add: server_limiters_def, rule redirect_reply, simp add: refusals assms(2), rule redirect_handler_safe, simp_all add: assms(2))
next
  case GetAnalytics
  show ?thesis unfolding GetAnalytics serve_promise_def endpoint_thread.simps endpoint.case
    by (rule limited_safe) (simp_all add: server_limiters_def analytics_safe del: safe.simps(2))
next
  case PostReport
  show ?thesis unfolding PostReport serve_promise_def endpoint_thread.simps endpoint.case
    by (rule limited_safe) (simp_all add: server_limiters_def json_body_safe report_handler_safe)
qed (simp_all add: serve_promise_def health_safe assms(1))

section \<open>Every interleaving\<close>

fun server_promise :: "platform \<Rightarrow> config \<Rightarrow> server_job \<Rightarrow> served \<Rightarrow> ('f, 'l) server \<Rightarrow> bool" where
  "server_promise p cfg (Serve e r w0) (Responded x w) sv = serve_promise p cfg e r (x, w) sv"
| "server_promise p cfg _ _ sv = True"

lemma promise_background: "server_promise p cfg (Background j) a sv"
  by (cases a) simp_all

lemma framed_background:
  assumes "server_starts cfg (Background j)" shows "framed fewer_clicks (job_thread p cfg j)"
proof (cases j)
  case (RescanJob dl)
  have "framed same_clicks (job_thread p cfg j)"
    unfolding RescanJob job_thread.simps ending_def by (rule framed_and_then [OF framed_cycle]) simp
  then show ?thesis by (rule framed_mono) (rule same_fewer)
next
  case (CleanupJob days)
  then show ?thesis by (auto simp: ending_def intro!: framed_call framesI delete_fewer)
qed (use assms in simp_all)

lemma server_thread_safe:
  assumes "server_starts cfg j" "serve_ok p cfg sv"
  shows "serve_safe p cfg (server_promise p cfg j) (server_thread p cfg lib j) sv"
proof (cases j)
  case (Serve e r w0)
  have k: "(\<lambda>(x, w). thread.Done (Responded x w)) = (\<lambda>a. thread.Done (Responded (fst a) (snd a)))"
    by (simp add: fun_eq_iff split_beta)
  show ?thesis unfolding Serve server_thread.simps k
    by (rule serves.safe_map [OF endpoint_safe [OF assms(2)]]) (use assms(1) Serve in simp_all)
next
  case (Background j')
  then have "starts j'" using assms(1) by (cases j') simp_all
  then have "job_safe p cfg (job_promise p j') (job_thread p cfg j') (sv_world sv)"
    by (rule job_safe_thread) (use assms(2) in \<open>simp add: serve_ok_def\<close>)
  from safe_in_server [OF this framed_background] assms(1) show ?thesis
    unfolding Background server_thread.simps by (intro serves.safe_map) (simp_all add: promise_background)
qed

lemma server_env_ok:
  fixes sv :: "('f, 'l) server"
  assumes "server_env sv sv'" "serve_ok p cfg sv" shows "serve_ok p cfg sv' \<and> serve_rel p sv sv'"
  using assms
proof (induction rule: server_env.induct)
  case (worker i sv d w)
  have repos: "ds_clickRepo (sv_disp sv) = clickInserter p" "ds_urlRepo (sv_disp sv) = lastAccessUpdater p"
    using dispatched_repos worker(2) by (auto simp: serve_ok_def)
  have "keeps (world_view p) (sv_world sv) w \<and> ds_closed d = ds_closed (sv_disp sv)"
    using worker(1)
    by (cases rule: worker_step_cases) (auto simp: repos clickInserter_def lastAccessUpdater_def set_worker_def
        exec_state_keeps keeps_exec intro: keeps_frame)
  moreover have "dispatched p cfg (sv\<lparr>sv_disp := d, sv_world := w\<rparr>)"
    using dispatched_moves [OF worker_moves [OF repos worker(1)]] worker(2) by (simp add: serve_ok_def)
  ultimately show ?case
    using worker(2) keeps_sys_ok keeps_evolve by (auto simp: serve_ok_def serve_rel_def)
next
  case (evict ref sv)
  show ?case by (rule serve_same [OF limiter_same [OF evict(1)] evict(2)])
next
  case (later sv w)
  have k: "keeps (world_view p) (sv_world sv) w" by (rule time_keeps [OF later(1)])
  have "w = (sv_world sv)\<lparr>w_clock := w_clock w\<rparr>" using later(1) by (simp add: time_passes_def)
  then have "w_clicks w = w_clicks ((sv_world sv)\<lparr>w_clock := w_clock w\<rparr>)" by (rule arg_cong)
  then have "same_clicks (sv_world sv) w" by (simp add: same_clicks_def)
  then show ?case
    by (intro serve_world) (use later(2) keeps_sys_ok [OF k] keeps_evolve [OF k] same_fewer in \<open>auto simp: serve_ok_def\<close>)
next
  case (shutdown sv d)
  have "dispatched p cfg (sv\<lparr>sv_disp := d\<rparr>)"
    using dispatched_moves [OF moves_close [OF shutdown(1)]] shutdown(2) by (simp add: serve_ok_def)
  moreover have "ds_closed d" using shutdown(1) by (auto simp: close_events_def split: if_splits)
  ultimately show ?case using shutdown(2) evolving.rely_refl by (simp add: serve_ok_def serve_rel_def)
qed

lemma server_start_ok: "server_start p cfg lib t = Some sv \<Longrightarrow> serve_ok p cfg sv"
  using server_start_inv [of p cfg lib t sv] by (auto simp: serve_ok_def server_inv_def reachable_sys_ok)

lemma serving_inv:
  assumes "server_start p cfg lib t = Some sv0" "(serving p cfg lib)\<^sup>*\<^sup>* ([], sv0) c"
  shows "serves.pool_ok p cfg (server_promise p cfg) c"
  using assms(2)
proof (induction rule: rtranclp_induct)
  case base
  show ?case using server_start_ok [OF assms(1)] by (simp add: serves.pool_ok_def)
next
  case (step c c')
  show ?case
    by (rule serves.interleave_ok [OF step.hyps(2) step.IH server_thread_safe server_env_ok])
qed

lemma serving_ok:
  assumes "server_start p cfg lib t = Some sv0" "(serving p cfg lib)\<^sup>*\<^sup>* ([], sv0) (ts, sv)"
  shows "serve_ok p cfg sv" "(j, thread.Done a) \<in> set ts \<Longrightarrow> server_promise p cfg j a sv"
  using serving_inv [OF assms] serves.finished_ok [OF serving_inv [OF assms]] by (auto simp: serves.pool_ok_def)

section \<open>A run\<close>

text \<open>A client shortens a URL and visits it: two requests of the run in which nothing interrupts them.\<close>

lemma serve_alone:
  "alone (server_thread p cfg lib (Serve e r new_writer)) sv =
    (case outcome (endpoint_handler p cfg lib e r (new_conn sv)) of ((x, w), sv') \<Rightarrow> (Responded x w, sv'))"
  using imitatesD [OF endpoint_imitates, of p cfg lib e r "new_conn sv"] by (simp add: new_conn_def split: prod.split)

lemma first_allowed:
  assumes "0 < b" "0 \<le> period"
  obtains rl where "allow_ip bucket_lib t ip (NewRateLimiter period b) = (True, rl)"
proof -
  have "period \<le> b * period" using assms mult_right_mono [of 1 b period] by simp
  then show ?thesis using that by (simp add: allow_ip_def getEntry_def NewRateLimiter_def bucket_ops Let_def)
qed

definition demo_post :: request where
  "demo_post = demo_request\<lparr>rq_Header := header_set ''Content-Type'' ''application/json'' (\<lambda>_. []),
     rq_Body := \<lparr>bd_data = json_text (JObj [(''url'', JStr demo_url)]), bd_end = EOF\<rparr>\<rparr>"

lemma demo_post_ok:
  "Decode_strict ascii_tables ShortenRequest_fields (MaxBytesReader (2 ^ 20) (rq_Body demo_post)) [] = Inr demo_url"
  "str_contains (to_lower ascii_tables (header_get (rq_Header demo_post) ''Content-Type'')) ''application/json''"
  "rq_ctx demo_post = None"
  by code_simp+

lemma demo_rates:
  "0 < cfg_RateLimitShorten demo_config" "0 < cfg_RateLimitRedirect demo_config"
  unfolding demo_config_read by code_simp+

lemma demo_limited:
  assumes "lr_get ref sv = new_limiter demo_lib n" "0 < n"
  obtains rl where "limited cfg demo_lib ref next r (new_conn sv) = next r (new_conn (lr_put ref rl sv))"
proof -
  have "0 \<le> minute div n" using assms(2) by (simp add: minute_def second_def pos_imp_zdiv_nonneg_iff)
  then obtain rl where "allow_ip bucket_lib (server_now sv) (getIP r (cfg_TrustedProxies cfg)) (lr_get ref sv) = (True, rl)"
    using first_allowed [OF assms(2)] unfolding assms(1) new_limiter_def demo_lib_def by (metis server_lib.select_convs(2))
  then have "limited cfg demo_lib ref next r (new_conn sv) = next r (new_conn (lr_put ref rl sv))"
    by (simp add: limited_def MiddlewareWithProxies_def demo_lib_def on_state_def new_conn_def)
  then show ?thesis by (rule that)
qed

lemma demo_posted:
  fixes sv :: "(int, bucket) server"
  assumes "sv_world sv = demo_start"
  shows "outcome (ShortenHandle ascii_tables (shortenHandler demo_platform demo_config)
      (demo_post\<lparr>rq_Body := MaxBytesReader (2 ^ 20) (rq_Body demo_post)\<rparr>) (new_conn sv)) =
    ((None, WriteJSON 201 (shorten_response ''1000001'' ''https://snip.io/1000001'') new_writer), sv\<lparr>sv_world := demo_short\<rparr>)"
proof -
  note shorten = demo_shorten [unfolded demo_platform_sel]
  have size: "(2 :: int) ^ 20 = 1048576" by simp
  have clean: "sr_Status (status_result ScanClean t) \<noteq> ScanUnverified" for t by (simp add: status_result_def scan_status_defs)
  have "hs_Shorten (shortenHandler demo_platform demo_config) None demo_url sv =
    (fst (shorten_step demo_platform demo_config None demo_url demo_start), sv\<lparr>sv_world := demo_short\<rparr>)"
    by (simp add: shortenHandler_def NewShortenHandler_def in_world_def assms shorten)
  then show ?thesis
    by (simp add: ShortenHandle_def demo_post_ok(3) demo_post_ok(1) [unfolded size] shorten clean shortenHandler_def NewShortenHandler_def new_conn_def)
qed

abbreviation demo_created_writer :: writer where
  "demo_created_writer \<equiv> WriteJSON 201 (shorten_response ''1000001'' ''https://snip.io/1000001'') new_writer"

lemma demo_post_served:
  fixes sv :: "(int, bucket) server"
  assumes "sv_world sv = demo_start" "lr_get shortenLimiter sv = new_limiter demo_lib (cfg_RateLimitShorten demo_config)"
  obtains rl where "alone (server_thread demo_platform demo_config demo_lib (Serve PostShorten demo_post new_writer)) sv =
    (Responded None demo_created_writer, (lr_put shortenLimiter rl sv)\<lparr>sv_world := demo_short\<rparr>)"
proof -
  let ?next = "BodyLimit (2 ^ 20) (RequireJSON ascii_tables (ShortenHandle ascii_tables (shortenHandler demo_platform demo_config)))"
  obtain rl where "limited demo_config demo_lib shortenLimiter ?next demo_post (new_conn sv) =
      ?next demo_post (new_conn (lr_put shortenLimiter rl sv))"
    by (rule demo_limited [OF assms(2) demo_rates(1)])
  then have post: "endpoint_handler demo_platform demo_config demo_lib PostShorten demo_post (new_conn sv) =
      ShortenHandle ascii_tables (shortenHandler demo_platform demo_config)
      (demo_post\<lparr>rq_Body := MaxBytesReader (2 ^ 20) (rq_Body demo_post)\<rparr>) (new_conn (lr_put shortenLimiter rl sv))"
    using demo_post_ok(2) by (simp add: BodyLimit_def RequireJSON_def Let_def)
  have w: "sv_world (lr_put shortenLimiter rl sv) = demo_start" by (simp add: shortenLimiter_def assms(1))
  show ?thesis by (rule that [of rl]) (unfold serve_alone post demo_posted [OF w], simp)
qed

lemma demo_get_served:
  fixes sv :: "(int, bucket) server"
  assumes "sv_world sv = demo_short" "sv_disp sv = demo_dispatcher"
    and "lr_get redirectLimiter sv = new_limiter demo_lib (cfg_RateLimitRedirect demo_config)"
  obtains w sv' where "alone (server_thread demo_platform demo_config demo_lib (Serve GetHash demo_request new_writer)) sv =
    (Responded None w, sv')" "response_status w = 301" "response_header w ''Location'' = demo_url"
proof -
  obtain rl where get: "endpoint_handler demo_platform demo_config demo_lib GetHash demo_request (new_conn sv) =
      RedirectHandle server_now (redirectHandler demo_platform demo_config) demo_request (new_conn (lr_put redirectLimiter rl sv))"
    unfolding endpoint_handler.simps by (rule demo_limited [OF assms(3) demo_rates(2)])
  have "sv_world (lr_put redirectLimiter rl sv) = demo_short" "sv_disp (lr_put redirectLimiter rl sv) = demo_dispatcher"
    by (simp_all add: redirectLimiter_def assms)
  then obtain c where "endpoint_handler demo_platform demo_config demo_lib GetHash demo_request (new_conn sv) = (None, c)"
      "response_status (cn_w c) = 301" "response_header (cn_w c) ''Location'' = demo_url"
    unfolding get by (rule demo_redirect)
  moreover from this(1) have "alone (server_thread demo_platform demo_config demo_lib (Serve GetHash demo_request new_writer)) sv =
      (Responded None (cn_w c), cn_state c)" unfolding serve_alone by simp
  ultimately show ?thesis using that by blast
qed

lemma demo_serving:
  obtains sv0 sv w1 w2 where "server_start demo_platform demo_config demo_lib demo_time = Some sv0"
    "(serving demo_platform demo_config demo_lib)\<^sup>*\<^sup>* ([], sv0) ([(Serve PostShorten demo_post new_writer, thread.Done (Responded None w1)),
       (Serve GetHash demo_request new_writer, thread.Done (Responded None w2))], sv)"
    "response_status w1 = 201" "response_status w2 = 301" "response_header w2 ''Location'' = demo_url"
proof -
  let ?serving = "serving demo_platform demo_config demo_lib"
  let ?post = "(Serve PostShorten demo_post new_writer, thread.Done (Responded None demo_created_writer))"
  obtain sv0 where start: "server_start demo_platform demo_config demo_lib demo_time = Some sv0"
    by (simp add: server_start_def demo_dispatcher_started)
  then have sv0: "sv_world sv0 = demo_start" "sv_disp sv0 = demo_dispatcher"
    "lr_get shortenLimiter sv0 = new_limiter demo_lib (cfg_RateLimitShorten demo_config)"
    "lr_get redirectLimiter sv0 = new_limiter demo_lib (cfg_RateLimitRedirect demo_config)"
    by (auto simp: server_start_def demo_dispatcher_started shortenLimiter_def redirectLimiter_def demo_start_def demo_time_def)
  have unsent: "wr_sent new_writer = None" "wr_body new_writer = []" by (simp_all add: new_writer_def)
  obtain rl where post: "alone (server_thread demo_platform demo_config demo_lib (Serve PostShorten demo_post new_writer)) sv0 =
      (Responded None demo_created_writer, (lr_put shortenLimiter rl sv0)\<lparr>sv_world := demo_short\<rparr>)"
    by (rule demo_post_served [OF sv0(1,3)])
  let ?sv1 = "(lr_put shortenLimiter rl sv0)\<lparr>sv_world := demo_short\<rparr>"
  obtain w sv where get: "alone (server_thread demo_platform demo_config demo_lib (Serve GetHash demo_request new_writer)) ?sv1 =
      (Responded None w, sv)" "response_status w = 301" "response_header w ''Location'' = demo_url"
    by (rule demo_get_served [of ?sv1]) (use sv0 in \<open>simp_all add: shortenLimiter_def redirectLimiter_def\<close>)
  have run1: "?serving\<^sup>*\<^sup>* ([], sv0) ([] @ [?post], ?sv1)"
    by (intro run_new) (simp_all add: unsent post del: server_thread.simps)
  have run2: "?serving\<^sup>*\<^sup>* ([] @ [?post], ?sv1) (([] @ [?post]) @ [(Serve GetHash demo_request new_writer, thread.Done (Responded None w))], sv)"
    by (intro run_new) (simp_all add: unsent get(1) del: server_thread.simps)
  have "?serving\<^sup>*\<^sup>* ([], sv0) ([?post, (Serve GetHash demo_request new_writer, thread.Done (Responded None w))], sv)"
    using rtranclp_trans [OF run1 run2] by (simp only: append.simps)
  moreover have "response_status demo_created_writer = 201" using unsent by simp
  ultimately show ?thesis using that start get(2,3) by blast
qed

section \<open>Properties\<close>

text \<open>C1: whatever the order in which the calls of concurrent requests and jobs, the steps of the workers, the
  eviction of limiters, the clock and the shutdown interleave, and whatever faults happen, MySQL and
  Redis satisfy the invariant of the system after every call, the queue of clicks stays within its
  buffer, and the clicks table holds clicks of accepted events only, each at most once.\<close>

theorem concurrent_server:
  assumes "server_start p cfg lib t = Some sv0" "(serving p cfg lib)\<^sup>*\<^sup>* ([], sv0) (ts, sv)"
  shows "sys_ok p cfg (sv_world sv) \<and> QueueLen (sv_disp sv) \<le> nat (cfg_AnalyticsBuffer cfg) \<and>
    (\<exists>d t x. dispatcher p cfg = Some d \<and> pool_run fewer_clicks (pool_start d (empty_world t)) x \<and>
       pl_disp x = sv_disp sv \<and> pl_state x = sv_world sv \<and>
       click_rows (sv_world sv) \<subseteq># image_mset event_row (mset (pl_accepted x)))"
  using serving_ok(1) [OF assms] dispatched_bounds [of p cfg sv] by (auto simp: serve_ok_def)

theorem concurrent_server_witness:
  "\<exists>sv ts r w0 w. (Serve PostShorten r w0, thread.Done (Responded None w)) \<in> set ts \<and> response_status w = 201 \<and>
     (\<exists>sv0. (serving demo_platform demo_config demo_lib)\<^sup>*\<^sup>* ([], sv0) (ts, sv)) \<and>
     sys_ok demo_platform demo_config (sv_world sv) \<and> QueueLen (sv_disp sv) \<le> nat (cfg_AnalyticsBuffer demo_config)"
proof -
  obtain sv0 sv w1 w2 where start: "server_start demo_platform demo_config demo_lib demo_time = Some sv0"
    and run: "(serving demo_platform demo_config demo_lib)\<^sup>*\<^sup>* ([], sv0) ([(Serve PostShorten demo_post new_writer, thread.Done (Responded None w1)),
       (Serve GetHash demo_request new_writer, thread.Done (Responded None w2))], sv)" and "response_status w1 = 201"
    by (rule demo_serving)
  moreover have "(Serve PostShorten demo_post new_writer, thread.Done (Responded None w1)) \<in> set [(Serve PostShorten demo_post new_writer,
      thread.Done (Responded None w1)), (Serve GetHash demo_request new_writer, thread.Done (Responded None w2))]" by simp
  ultimately show ?thesis using concurrent_server [OF start run] run by blast
qed




end
