(* ===== verification/Startup.thy ===== *)
theory Startup
  imports GoErrors ClickStore Demo
begin

text \<open>
  The two programs from the outside: \<open>run\<close> and \<open>main\<close> of \<open>cmd/api/main.go\<close>, with the migrations and
  the connections of \<open>internal/repository\<close>, and \<open>cmd/migrate/main.go\<close>. What the MySQL driver, the
  migration library, Redis and the HTTP server answer is a parameter; the model gives the result
  and the order of the stages that are passed, deferred calls included.
\<close>

section \<open>What the libraries answer\<close>

record redis_options =
  ro_Addr :: string
  ro_Password :: string
  ro_DB :: int

record db_pool =
  sd_dsn :: string
  sd_MaxOpenConns :: int
  sd_MaxIdleConns :: int
  sd_ConnMaxLifetime :: duration
  sd_ConnMaxIdleTime :: duration

text \<open>\<open>None\<close> is a nil error; \<open>su_serve\<close> is what ends the \<open>select\<close> after the start: a signal, or the
  error of \<open>ListenAndServe\<close>; \<open>su_drained\<close> whether the workers end within the timeout.\<close>

record startup =
  su_getenv :: getenv
  su_sql_Open :: "string \<Rightarrow> goerr option"
  su_WithInstance :: "goerr option"
  su_NewMigrate :: "string \<Rightarrow> goerr option"
  su_Up :: "goerr option"
  su_Steps :: "int \<Rightarrow> goerr option"
  su_is_no_change :: "goerr \<Rightarrow> bool"
  su_PingMySQL :: "db_pool \<Rightarrow> goerr option"
  su_PingRedis :: "redis_options \<Rightarrow> goerr option"
  su_serve :: "string \<Rightarrow> goerr option"

datatype stage =
    Opened string | ClosedDB string | MigrateOpened | MigrateClosed | Migrated | SteppedDown
  | MySQLReady db_pool | RedisReady redis_options | RedisClosed
  | WorkersStarted int | RescannerStarted duration | Serving string
  | HTTPShutdown duration | DispatcherShutdown duration

section \<open>\<open>runMigrations\<close>\<close>

definition file_source :: string where "file_source = ''file://migrations''"

definition runMigrations :: "startup \<Rightarrow> string \<Rightarrow> goerr option \<times> stage list" where
  "runMigrations env dsn = (case su_sql_Open env dsn of
     Some e \<Rightarrow> (Some (Wrapf ''migrate: open: %w'' [] e), [])
   | None \<Rightarrow> (case su_WithInstance env of
       Some e \<Rightarrow> (Some (Wrapf ''migrate: driver: %w'' [] e), [Opened dsn, ClosedDB dsn])
     | None \<Rightarrow> (case su_NewMigrate env file_source of
         Some e \<Rightarrow> (Some (Wrapf ''migrate: init: %w'' [] e), [Opened dsn, ClosedDB dsn])
       | None \<Rightarrow> (case su_Up env of
           Some e \<Rightarrow>
             if \<not> su_is_no_change env e
             then (Some (Wrapf ''migrate: up: %w'' [] e), [Opened dsn, MigrateOpened, MigrateClosed, ClosedDB dsn])
             else (None, [Opened dsn, MigrateOpened, Migrated, MigrateClosed, ClosedDB dsn])
         | None \<Rightarrow> (None, [Opened dsn, MigrateOpened, Migrated, MigrateClosed, ClosedDB dsn])))))"

section \<open>Connections\<close>

definition NewMySQLDB :: "startup \<Rightarrow> string \<Rightarrow> int \<Rightarrow> int \<Rightarrow> (goerr + db_pool) \<times> stage list" where
  "NewMySQLDB env dsn maxOpen maxIdle = (case su_sql_Open env dsn of
     Some e \<Rightarrow> (Inl (Wrapf ''mysql: open: %w'' [] e), [])
   | None \<Rightarrow>
       let db = \<lparr>sd_dsn = dsn, sd_MaxOpenConns = maxOpen, sd_MaxIdleConns = maxIdle,
                 sd_ConnMaxLifetime = 5 * minute, sd_ConnMaxIdleTime = 2 * minute\<rparr>
       in case su_PingMySQL env db of
            Some e \<Rightarrow> (Inl (Wrapf ''mysql: ping: %w'' [] e), [Opened dsn, ClosedDB dsn])
          | None \<Rightarrow> (Inr db, [Opened dsn, MySQLReady db]))"

definition NewRedisClient :: "startup \<Rightarrow> config \<Rightarrow> (goerr + redis_options) \<times> stage list" where
  "NewRedisClient env cfg =
     (let client = \<lparr>ro_Addr = cfg_RedisHost cfg @ '':'' @ cfg_RedisPort cfg, ro_Password = cfg_RedisPassword cfg, ro_DB = cfg_RedisDB cfg\<rparr>
      in case su_PingRedis env client of
           Some e \<Rightarrow> (Inl (Wrapf ''redis: ping: %w'' [] e), [])
         | None \<Rightarrow> (Inr client, [RedisReady client]))"

section \<open>\<open>run\<close>\<close>

text \<open>The errors of \<open>run\<close>: of the configuration, or one of the others; a negative buffer size panics in
  \<open>make\<close>, a rescan interval that is not positive in \<open>NewTicker\<close>, which ends the process.\<close>

datatype run_result = Stopped | ConfigFailed config_error | Failed goerr | Panicked | Crashed

definition listen_addr :: "config \<Rightarrow> string" where
  "listen_addr cfg = CHR '':'' # cfg_AppPort cfg"

text \<open>Lines 180 to 209, once everything is built: the deferred closing follows in \<open>run\<close>.\<close>

definition serve :: "startup \<Rightarrow> config \<Rightarrow> run_result \<times> stage list" where
  "serve env cfg =
     (let started = [WorkersStarted (cfg_AnalyticsWorkers cfg), RescannerStarted (rescanInterval cfg)] in
      if rescanInterval cfg \<le> 0 then (Crashed, started)
      else case su_serve env (listen_addr cfg) of
             Some e \<Rightarrow> (Failed (Wrapf ''server: %w'' [] e), started @ [Serving (listen_addr cfg)])
           | None \<Rightarrow> (Stopped, started @ [Serving (listen_addr cfg), HTTPShutdown (10 * second), DispatcherShutdown (5 * second)]))"

definition run_connected :: "startup \<Rightarrow> platform \<Rightarrow> config \<Rightarrow> run_result \<times> stage list" where
  "run_connected env p cfg = (case dispatcher p cfg of
     None \<Rightarrow> (Panicked, [])
   | Some _ \<Rightarrow> serve env cfg)"

definition run :: "startup \<Rightarrow> platform \<Rightarrow> run_result \<times> stage list" where
  "run env p = (case LoadConfig (su_getenv env) of
     Inl e \<Rightarrow> (ConfigFailed e, [])
   | Inr cfg \<Rightarrow>
       if cfg_AppEnv cfg = ''production'' \<and> cfg_RedisPassword cfg = []
       then (Failed (Plain ''config: REDIS_PASSWORD is required in production''), [])
       else if cfg_VTEnabled cfg \<and> cfg_VTAPIKey cfg = []
       then (Failed (Plain ''config: VIRUSTOTAL_API_KEY is required when VT_ENABLED=true''), [])
       else case runMigrations env (MigrationDSN cfg) of
         (Some e, tr1) \<Rightarrow> (Failed e, tr1)
       | (None, tr1) \<Rightarrow> (case NewMySQLDB env (DSN cfg) (cfg_MySQLMaxOpenConns cfg) (cfg_MySQLMaxIdleConns cfg) of
           (Inl e, tr2) \<Rightarrow> (Failed e, tr1 @ tr2)
         | (Inr db, tr2) \<Rightarrow> (case NewRedisClient env cfg of
             (Inl e, tr3) \<Rightarrow> (Failed e, tr1 @ tr2 @ tr3 @ [ClosedDB (DSN cfg)])
           | (Inr client, tr3) \<Rightarrow> (case run_connected env p cfg of
               (res, tr4) \<Rightarrow> (res, tr1 @ tr2 @ tr3 @ tr4 @
                 (if res = Crashed then [] else [RedisClosed, ClosedDB (DSN cfg)]))))))"

text \<open>\<open>main\<close>: the exit code of the process; 2 is the Go runtime's for a panic.\<close>

definition api_exit :: "run_result \<Rightarrow> int" where
  "api_exit res = (case res of Stopped \<Rightarrow> 0 | ConfigFailed _ \<Rightarrow> 1 | Failed _ \<Rightarrow> 1 | Panicked \<Rightarrow> 2 | Crashed \<Rightarrow> 2)"

section \<open>\<open>cmd/migrate\<close>\<close>

text \<open>Exit code, text on the standard error and output, stages; \<open>os.Exit\<close> skips the deferred calls. The
  text of a configuration error is left to \<open>config_text\<close>.\<close>

record exit_state =
  ex_code :: int
  ex_stderr :: string
  ex_stdout :: string
  ex_stages :: "stage list"

definition die :: "string \<Rightarrow> stage list \<Rightarrow> exit_state" where
  "die msg tr = \<lparr>ex_code = 1, ex_stderr = msg @ [CHR 0x0A], ex_stdout = [], ex_stages = tr\<rparr>"

definition migrate_main :: "unicode_tables \<Rightarrow> (config_error \<Rightarrow> string) \<Rightarrow> startup \<Rightarrow> string list \<Rightarrow> exit_state" where
  "migrate_main uc config_text env args =
     (if length args < 2 then die ''usage: migrate <up|down> [N]'' []
      else case LoadConfig (su_getenv env) of
        Inl e \<Rightarrow> die (''config: '' @ config_text e) []
      | Inr cfg \<Rightarrow>
          let dsn = MigrationDSN cfg; cmd = args ! 1 in
          case su_sql_Open env dsn of
            Some e \<Rightarrow> die (''open: '' @ err_text uc e) []
          | None \<Rightarrow> (case su_WithInstance env of
              Some e \<Rightarrow> die (''driver: '' @ err_text uc e) [Opened dsn]
            | None \<Rightarrow> (case su_NewMigrate env file_source of
                Some e \<Rightarrow> die (''init: '' @ err_text uc e) [Opened dsn]
              | None \<Rightarrow>
                  if cmd \<noteq> ''up'' \<and> cmd \<noteq> ''down'' then die (''unknown command: '' @ cmd) [Opened dsn, MigrateOpened]
                  else let err = (if cmd = ''up'' then su_Up env else su_Steps env (- 1)) in
                    (case err of
                       Some e \<Rightarrow> if \<not> su_is_no_change env e
                         then die (''migrate '' @ cmd @ '': '' @ err_text uc e) [Opened dsn, MigrateOpened]
                         else \<lparr>ex_code = 0, ex_stderr = [], ex_stdout = ''migrate '' @ cmd @ '': ok'' @ [CHR 0x0A],
                            ex_stages = [Opened dsn, MigrateOpened, if cmd = ''up'' then Migrated else SteppedDown, MigrateClosed, ClosedDB dsn]\<rparr>
                     | None \<Rightarrow> \<lparr>ex_code = 0, ex_stderr = [], ex_stdout = ''migrate '' @ cmd @ '': ok'' @ [CHR 0x0A],
                            ex_stages = [Opened dsn, MigrateOpened, if cmd = ''up'' then Migrated else SteppedDown, MigrateClosed, ClosedDB dsn]\<rparr>))))"

section \<open>What a start needs\<close>

definition mysql_pool :: "config \<Rightarrow> db_pool" where
  "mysql_pool cfg = \<lparr>sd_dsn = DSN cfg, sd_MaxOpenConns = cfg_MySQLMaxOpenConns cfg, sd_MaxIdleConns = cfg_MySQLMaxIdleConns cfg,
     sd_ConnMaxLifetime = 5 * minute, sd_ConnMaxIdleTime = 2 * minute\<rparr>"

definition redis_client :: "config \<Rightarrow> redis_options" where
  "redis_client cfg = \<lparr>ro_Addr = cfg_RedisHost cfg @ '':'' @ cfg_RedisPort cfg, ro_Password = cfg_RedisPassword cfg, ro_DB = cfg_RedisDB cfg\<rparr>"

definition migrates :: "startup \<Rightarrow> string \<Rightarrow> bool" where
  "migrates env dsn \<longleftrightarrow> su_sql_Open env dsn = None \<and> su_WithInstance env = None \<and> su_NewMigrate env file_source = None \<and>
     (case su_Up env of None \<Rightarrow> True | Some e \<Rightarrow> su_is_no_change env e)"

definition bootable :: "startup \<Rightarrow> config \<Rightarrow> bool" where
  "bootable env cfg \<longleftrightarrow> LoadConfig (su_getenv env) = Inr cfg \<and>
     \<not> (cfg_AppEnv cfg = ''production'' \<and> cfg_RedisPassword cfg = []) \<and> \<not> (cfg_VTEnabled cfg \<and> cfg_VTAPIKey cfg = []) \<and>
     migrates env (MigrationDSN cfg) \<and> su_sql_Open env (DSN cfg) = None \<and> su_PingMySQL env (mysql_pool cfg) = None \<and>
     su_PingRedis env (redis_client cfg) = None \<and> 0 \<le> cfg_AnalyticsBuffer cfg \<and> 0 < rescanInterval cfg"

lemma runMigrations_result:
  "fst (runMigrations env dsn) = None \<longleftrightarrow> migrates env dsn"
  "migrates env dsn \<Longrightarrow> runMigrations env dsn = (None, [Opened dsn, MigrateOpened, Migrated, MigrateClosed, ClosedDB dsn])"
  "Serving a \<notin> set (snd (runMigrations env dsn))"
  by (auto simp: runMigrations_def migrates_def split: option.splits)

lemma NewMySQLDB_result:
  "NewMySQLDB env (DSN cfg) (cfg_MySQLMaxOpenConns cfg) (cfg_MySQLMaxIdleConns cfg) = (case su_sql_Open env (DSN cfg) of
     Some e \<Rightarrow> (Inl (Wrapf ''mysql: open: %w'' [] e), [])
   | None \<Rightarrow> (case su_PingMySQL env (mysql_pool cfg) of
       Some e \<Rightarrow> (Inl (Wrapf ''mysql: ping: %w'' [] e), [Opened (DSN cfg), ClosedDB (DSN cfg)])
     | None \<Rightarrow> (Inr (mysql_pool cfg), [Opened (DSN cfg), MySQLReady (mysql_pool cfg)])))"
  by (simp only: NewMySQLDB_def mysql_pool_def Let_def)

lemma NewRedisClient_result:
  "NewRedisClient env cfg = (case su_PingRedis env (redis_client cfg) of
     Some e \<Rightarrow> (Inl (Wrapf ''redis: ping: %w'' [] e), []) | None \<Rightarrow> (Inr (redis_client cfg), [RedisReady (redis_client cfg)]))"
  by (simp only: NewRedisClient_def redis_client_def Let_def)

lemma dispatcher_made: "dispatcher p cfg = None \<longleftrightarrow> cfg_AnalyticsBuffer cfg < 0"
  by (auto simp: dispatcher_def started_def NewDispatcher_def)

definition boot_stages :: "config \<Rightarrow> stage list" where
  "boot_stages cfg = [Opened (MigrationDSN cfg), MigrateOpened, Migrated, MigrateClosed, ClosedDB (MigrationDSN cfg),
     Opened (DSN cfg), MySQLReady (mysql_pool cfg), RedisReady (redis_client cfg),
     WorkersStarted (cfg_AnalyticsWorkers cfg), RescannerStarted (rescanInterval cfg), Serving (listen_addr cfg)]"

lemma run_booted:
  assumes "bootable env cfg"
  shows "run env p = (case su_serve env (listen_addr cfg) of
     None \<Rightarrow> (Stopped, boot_stages cfg @ [HTTPShutdown (10 * second), DispatcherShutdown (5 * second), RedisClosed, ClosedDB (DSN cfg)])
   | Some e \<Rightarrow> (Failed (Wrapf ''server: %w'' [] e), boot_stages cfg @ [RedisClosed, ClosedDB (DSN cfg)]))"
proof -
  obtain d where "dispatcher p cfg = Some d" using assms dispatcher_made [of p cfg] by (cases "dispatcher p cfg") (auto simp: bootable_def)
  with assms show ?thesis
    by (simp add: bootable_def run_def runMigrations_result(2) NewMySQLDB_result NewRedisClient_result run_connected_def
        serve_def boot_stages_def split: option.split)
qed

lemma run_not_booted:
  assumes "\<And>cfg. \<not> bootable env cfg"
  shows "Serving a \<notin> set (snd (run env p)) \<and> api_exit (fst (run env p)) \<noteq> 0"
proof (cases "LoadConfig (su_getenv env)")
  case (Inr cfg)
  obtain r1 tr1 where m: "runMigrations env (MigrationDSN cfg) = (r1, tr1)" by (cases "runMigrations env (MigrationDSN cfg)")
  have no: "Serving a \<notin> set tr1" using runMigrations_result(3) [of a env "MigrationDSN cfg"] m by simp
  show ?thesis
  proof (cases "cfg_AppEnv cfg = ''production'' \<and> cfg_RedisPassword cfg = [] \<or> cfg_VTEnabled cfg \<and> cfg_VTAPIKey cfg = [] \<or> r1 \<noteq> None")
    case True
    then show ?thesis using no by (auto simp: run_def Inr m api_exit_def)
  next
    case False
    then have "migrates env (MigrationDSN cfg)" using runMigrations_result(1) [of env "MigrationDSN cfg"] m by simp
    with False Inr assms [of cfg] have
      "su_sql_Open env (DSN cfg) \<noteq> None \<or> su_PingMySQL env (mysql_pool cfg) \<noteq> None \<or> su_PingRedis env (redis_client cfg) \<noteq> None \<or>
       cfg_AnalyticsBuffer cfg < 0 \<or> rescanInterval cfg \<le> 0" unfolding bootable_def by auto
    then show ?thesis using no False dispatcher_made [of p cfg]
      by (auto simp: run_def Inr m NewMySQLDB_result NewRedisClient_result run_connected_def serve_def api_exit_def
          split: option.split)
  qed
qed (simp add: run_def api_exit_def)

section \<open>Properties\<close>


definition demo_startup :: startup where
  "demo_startup = \<lparr>su_getenv = demo_getenv,
     su_sql_Open = (\<lambda>_. None), su_WithInstance = None, su_NewMigrate = (\<lambda>_. None), su_Up = Some (Plain ''no change''),
     su_Steps = (\<lambda>_. None), su_is_no_change = (\<lambda>e. e = Plain ''no change''), su_PingMySQL = (\<lambda>_. None),
     su_PingRedis = (\<lambda>_. None), su_serve = (\<lambda>_. None)\<rparr>"

lemma demo_loads: "LoadConfig demo_getenv = Inr demo_config"
proof -
  have "missing_vars demo_getenv = []" "parse_errors demo_getenv = []" by code_simp+
  moreover have "\<not> cfg_MySQLMaxOpenConns (read_config demo_getenv) < cfg_MySQLMaxIdleConns (read_config demo_getenv)" by code_simp
  ultimately show ?thesis unfolding demo_config_read by (simp add: LoadConfig_def Let_def)
qed

lemma demo_boots: "bootable demo_startup demo_config"
proof -
  have "cfg_AppEnv demo_config \<noteq> ''production''" "0 \<le> cfg_AnalyticsBuffer demo_config" "0 < rescanInterval demo_config"
    unfolding demo_config_read by code_simp+
  then show ?thesis by (simp add: bootable_def migrates_def demo_startup_def demo_loads)
qed


text \<open>C40: the migration command succeeds exactly for \<open>up\<close> and \<open>down\<close> on a complete configuration when the
  library reports no error or no change; it then closes what it opened, after a failure it
  closes nothing and exits with 1.\<close>

theorem migrate_exit:
  "(ex_code (migrate_main uc ct env args) = 0 \<longleftrightarrow> 2 \<le> length args \<and>
      (\<exists>cfg. LoadConfig (su_getenv env) = Inr cfg \<and> su_sql_Open env (MigrationDSN cfg) = None \<and> su_WithInstance env = None \<and>
        su_NewMigrate env file_source = None \<and>
        (args ! 1 = ''up'' \<and> pred_option (su_is_no_change env) (su_Up env) \<or>
         args ! 1 = ''down'' \<and> pred_option (su_is_no_change env) (su_Steps env (- 1))))) \<and>
   ex_code (migrate_main uc ct env args) \<in> {0, 1} \<and>
   (ex_code (migrate_main uc ct env args) = 0 \<longleftrightarrow> MigrateClosed \<in> set (ex_stages (migrate_main uc ct env args))) \<and>
   (ex_code (migrate_main uc ct env args) = 0 \<longleftrightarrow> ex_stderr (migrate_main uc ct env args) = [])"
  unfolding migrate_main_def die_def Let_def
  by (cases "LoadConfig (su_getenv env)") (auto split: option.splits if_splits)

end
