(* ===== verification/Shortfalls.thy ===== *)
theory Shortfalls
  imports Requests Interleavings
begin

text \<open>
  Where the code falls short of what it means to do: inputs and orders of steps on which the
  model shows the shortfall.
\<close>

section \<open>Hashes in the table\<close>

text \<open>A row that waits for its hash, or has lost it to a failed update, blocks every insert.\<close>

lemma create_blocked:
  assumes "u \<in> set (w_urls w)" "u_Hash u = []"
  shows "\<exists>e. fst (insert_url env [] orig expires w) = Inl e"
  using assms by (auto simp: insert_url_def Let_def split: option.split)

text \<open>Hashes that differ in case are the same key for a collation that ignores it.\<close>

lemma hash_case_collision:
  "Encode 10 = ''100000A''" "Encode 36 = ''100000a''" "same_text demo_env (Encode 10) (Encode 36)"
proof -
  show e: "Encode 10 = ''100000A''" "Encode 36 = ''100000a''" by code_simp+
  have "ascii_lower CHR ''A'' = ascii_lower CHR ''a''" by code_simp
  then show "same_text demo_env (Encode 10) (Encode 36)"
    unfolding e by (simp add: same_text_def collate_def demo_env_def)
qed

lemma second_hash_refused:
  assumes "u \<in> set (w_urls w)" "u_Hash u = Encode 10" "u_ID u \<noteq> 36" "has_url 36 w"
  shows "\<exists>e. fst (set_hash demo_env (Encode 36) 36 w) = Inl e"
proof -
  have "\<exists>u\<in>set (w_urls w). u_ID u \<noteq> 36 \<and> collate demo_env (u_Hash u) = collate demo_env (Encode 36)"
    using assms hash_case_collision(3) by (auto simp: same_text_def)
  then show ?thesis using assms(4) by (simp add: set_hash_def)
qed

section \<open>Columns that are too short\<close>

lemma permalink_too_long:
  "has_url i w \<Longrightarrow> \<not> fits 512 p \<Longrightarrow> \<exists>e. set_vt_result env st t n p i w = (Inl e, w)"
  by (auto simp: set_vt_result_def split: option.split)

lemma click_lost:
  "\<not> fits 512 ua \<Longrightarrow> \<exists>e. insert_click u t ua ip w = (Inl e, w)"
  "\<not> has_url u w \<Longrightarrow> \<exists>e. fst (insert_click u t ua ip w) = Inl e"
  by (auto simp: insert_click_def Let_def split: option.split)

section \<open>The redirect cache\<close>

text \<open>A hit does not look at the row: an expired URL is served as long as its entry lives.\<close>

lemma expired_from_cache:
  assumes "no_faults (pf_env p)" "cached_entry (pf_uc p) w h = Some (orig, st)" "st \<noteq> ScanMalicious"
  shows "\<exists>u w'. resolve_step p cfg h w = ((Some u, None), w') \<and> u_OriginalURL u = orig"
  using resolve_hit [OF assms] by simp

text \<open>A redirector that has read the row before it was blocked, and sets the cache entry after
  it was deleted, undoes the block: the row is malicious and visitors are redirected.\<close>

lemma stale_set_redirects:
  assumes "no_faults (pf_env p)" "utf8_valid orig"
    and "row_of (pf_env p) w h = Some u" "u_VTStatus u = ScanMalicious"
    and w': "w' = snd (cache_Set (redis (pf_env p)) h orig ScanClean i ttl w)"
  shows "row_of (pf_env p) w' h = Some u \<and> (\<exists>v w''. resolve_step p cfg h w' = ((Some v, None), w'') \<and> u_OriginalURL v = orig)"
proof
  show "row_of (pf_env p) w' h = Some u"
    using assms(3) by (simp add: w' cache_Set_calls [OF assms(1)] row_of_def)
  have "cached_entry (pf_uc p) w' h = Some (orig, ScanClean)"
    unfolding w' by (rule cache_after_set(1) [OF assms(1,2)]) (simp add: verdict_utf8 is_verdict_def)
  then show "\<exists>v w''. resolve_step p cfg h w' = ((Some v, None), w'') \<and> u_OriginalURL v = orig"
    by (rule expired_from_cache [OF assms(1)]) (simp add: scan_status_defs)
qed

text \<open>Such a run: a visitor misses the cache and reads the row, a report blocks the URL and deletes the
  cache entry, and then the visitor's entry is set. The report has been answered, the row is
  malicious, and the next visitor is redirected.\<close>

lemma block_undone:
  assumes nf: "no_faults (pf_env p)" and ok: "sys_ok p cfg w" and h: "h \<noteq> []"
    and u: "row_of (pf_env p) w h = Some u" "u_VTStatus u = ScanClean"
    and miss: "cached_entry (pf_uc p) w h = None"
    and serves: "\<not> (case u_ExpiresAt u of None \<Rightarrow> False | Some exp \<Rightarrow> exp < w_clock w)"
      "\<exists>parsed. parse_url (u_OriginalURL u) = Some parsed \<and> url_Scheme parsed \<in> {''http'', ''https''}"
    and rep: "Report (reportSvc p cfg) h ip reason (tick (tick w)) = (None, w1)"
    and blocked: "row_of (pf_env p) w1 h = Some u'" "u_VTStatus u' = ScanMalicious"
  obtains ts w' v w'' where "(running p cfg)\<^sup>*\<^sup>* ([], w) (ts, w')" "(ReportJob h ip reason, Done (Reported None)) \<in> set ts"
    "row_of (pf_env p) w' h = Some u'" "resolve_step p cfg h w' = ((Some v, None), w'')" "u_OriginalURL v = u_OriginalURL u"
proof -
  let ?j = "ResolveJob h" and ?svc = "redirectorSvc p cfg"
  let ?db = "ending (resolve_db_thread w_clock ?svc h) Resolved" and ?row = "ending (resolve_row_thread w_clock ?svc h u) Resolved"
  define set where "set = if_some (Some (urlCache p)) (\<lambda>c. ch_Set c h (u_OriginalURL u) (u_VTStatus u) (u_ID u) (rs_cacheTTL ?svc))"
  let ?fin = "\<lambda>_. ending (Done (Some u, None)) Resolved"
  have ok': "db_ok (pf_env p) w" using ok by (simp add: sys_ok_iff)
  have "running p cfg ([], w) ([] @ [(?j, job_thread p cfg ?j)], w)" by (rule spawn) (simp add: h)
  then have start: "(running p cfg)\<^sup>*\<^sup>* ([], w) ([(?j, job_thread p cfg ?j)], w)" by (simp only: append_Nil r_into_rtranclp)
  have get: "(running p cfg)\<^sup>*\<^sup>* ([(?j, job_thread p cfg ?j)], w) ([(?j, ?db)], tick w)"
    unfolding job_thread.simps resolve_thread_def redirectorSvc_sel option.case ending_and_then
    by (rule run_single [where a = "Inl (Sentinel ErrURLNotFound)"]) (simp_all add: cache_Get_calls [OF nf] miss)
  have find: "(running p cfg)\<^sup>*\<^sup>* ([(?j, ?db)], tick w) ([(?j, ?row)], tick (tick w))"
    unfolding resolve_db_thread_def redirectorSvc_sel urlReader_sel ending_and_then
    by (rule run_single [where a = "Inr u"]) (simp_all add: find_hash_row [OF nf] ok' u)
  have clock: "(running p cfg)\<^sup>*\<^sup>* ([(?j, ?row)], tick (tick w)) ([(?j, and_then set ?fin)], tick (tick w))"
    unfolding resolve_row_thread_def ending_and_then
    by (rule run_single [where a = "w_clock w"])
      (use serves in \<open>auto simp: u(2) set_def ending_and_then scan_status_defs split: option.splits\<close>)
  have report: "(running p cfg)\<^sup>*\<^sup>* ([(?j, and_then set ?fin)], tick (tick w))
      ([(?j, and_then set ?fin)] @ [(ReportJob h ip reason, Done (Reported None))], w1)"
    by (rule run_new) (simp_all only: starts.simps job_alone job_run.simps rep map_prod_simp id_apply)
  let ?w = "snd (cache_Set (redis (pf_env p)) h (u_OriginalURL u) ScanClean (u_ID u) (rs_cacheTTL ?svc) w1)"
  have "alone set w1 = (fst (alone set w1), ?w)" by (simp add: set_def u(2))
  from run_part [of 0 "[(?j, and_then set ?fin)] @ [(ReportJob h ip reason, Done (Reported None))]" ?j set ?fin, OF _ _ this]
  have stored: "(running p cfg)\<^sup>*\<^sup>* ([(?j, and_then set ?fin)] @ [(ReportJob h ip reason, Done (Reported None))], w1)
      ([(?j, ?fin ()), (ReportJob h ip reason, Done (Reported None))], ?w)" by simp
  have "world_ok p w" using ok by (simp add: sys_ok_iff world_ok_def)
  then have "utf8_valid (u_OriginalURL u)" using row_of_in [OF u(1)] row_texts_world [of "pf_env p" w u] by (simp add: ok')
  from stale_set_redirects [OF nf this blocked HOL.refl, of "u_ID u" "rs_cacheTTL ?svc" cfg] obtain v w'' where
    "row_of (pf_env p) ?w h = Some u'" "resolve_step p cfg h ?w = ((Some v, None), w'')" "u_OriginalURL v = u_OriginalURL u"
    by blast
  then show thesis
    using that [OF rtranclp_trans [OF start rtranclp_trans [OF get rtranclp_trans [OF find rtranclp_trans [OF clock
      rtranclp_trans [OF report stored]]]]]] by simp
qed

section \<open>Shortening and logging\<close>

text \<open>A URL that is stored and known to be malicious is shortened again without an error.\<close>

lemma known_malicious_shortened:
  assumes "no_faults (pf_env p)" "NormalizeURL (pf_uc p) url = Inr n"
    and "ValidateURL (pf_uc p) (lib_idna (pf_lib p)) n (cfg_BaseURL cfg) = Inr ()"
    and "select_urls (pf_env p) (ByOriginalURL n) w = u # us" "u_VTStatus u = ScanMalicious"
  shows "\<exists>r w'. shorten_step p cfg ctx url w = ((Some u, r, None), w') \<and> sr_Status r = ScanMalicious"
  using assms by (simp add: Shorten_def shortenerSvc_def NewShortenerService_def urlRepository_def Let_def calls)

lemma panic_not_logged: "next r c = (Some x, c') \<Longrightarrow> Logger clk next r c = (Some x, c')"
  by (simp add: Logger_def Let_def)

end
