(* ===== verification/Spec2Isabelle.thy ===== *)
theory Spec2Isabelle
  imports CanonicalURL URLChecks MiddlewareLaws LimiterRuns ConcurrentServer Startup Shortfalls
begin

text \<open>
  Snip is a URL shortener written in Go: \<open>POST /api/shorten\<close> validates a URL, has it scanned and
  stores it under a hash; \<open>GET /{hash}\<close> redirects and counts the click; \<open>POST /api/report/{hash}\<close>
  collects reports that block a URL; \<open>GET /api/analytics/{hash}\<close> gives the statistics. MySQL holds
  the rows, Redis a cache of redirects and of scan results. This library models the code under
  \<open>cmd\<close> and \<open>internal\<close> and proves what makes it correct.

  \<^bold>\<open>Reading guide.\<close> The theories follow the packages; each names the files it models, and its
  definitions keep the names of the functions and types they translate (a suffix or prefix tells
  namesakes apart: \<open>dispatcher_Run\<close>, \<open>cache_Get\<close>, \<open>ShortenHandle\<close> for \<open>Handle\<close>).

  The language and its standard library, as far as the program uses them:
  \<^item> \<open>SnipPrelude\<close>, \<open>GoStrings\<close>, \<open>UTF8\<close>: machine integers, strings as bytes, runes and UTF-8;
  \<^item> \<open>GoNet\<close>, \<open>GoNetText\<close>, \<open>GoURL\<close>: IP addresses and networks, \<open>url.Parse\<close> and \<open>URL.String\<close>;
  \<^item> \<open>GoTime\<close>, \<open>Sha256\<close>, \<open>GoJSON\<close>, \<open>JSONDecoder\<close>, \<open>GoErrors\<close>, \<open>Http\<close>: civil dates and RFC 3339, digests,
    \<open>encoding/json\<close> with its streaming decoder, the texts of wrapped errors, requests and the
    response writer.

  The components:
  \<^item> \<open>Domain\<close>: \<open>internal/domain\<close>; \<open>Base62\<close>, \<open>Validator\<close>: \<open>internal/hash\<close>; \<open>Normalize\<close>: \<open>normalize.go\<close> and
    \<open>blocklist.go\<close>; \<open>Anonymize\<close>: \<open>anonymize.go\<close>; \<open>Config\<close>: \<open>internal/config\<close>;
  \<^item> \<open>Services\<close>: the four services of \<open>internal/service\<close> over records of the interfaces they are given;
  \<^item> \<open>World\<close>, \<open>Schema\<close>, \<open>Repositories\<close>, \<open>RedisCache\<close>: the tables of \<open>migrations/\<close> with their constraints and
    one definition per SQL statement, the Redis keys with their expiry, the repositories and the
    cache;
  \<^item> \<open>Scanner\<close>, \<open>VirusTotal\<close>: \<open>internal/scanner\<close>; \<open>Dispatcher\<close>: \<open>internal/analytics/dispatcher.go\<close>;
  \<^item> \<open>Middleware\<close>, \<open>RateLimit\<close>, \<open>Handlers\<close>: \<open>internal/middleware\<close> and \<open>internal/handler\<close>;
  \<^item> \<open>Wiring\<close>, \<open>Server\<close>, \<open>Startup\<close>: \<open>cmd/api/main.go\<close>, \<open>internal/repository/*/connection.go\<close> and
    \<open>cmd/migrate/main.go\<close>: the objects \<open>run\<close> builds, the middleware chain with its routes, the steps of the
    running server, and what happens before and after it runs.

  \<^bold>\<open>State and effects.\<close> A method that reaches MySQL, Redis or HTTP is a call: a function from the
  state to its result and the next state. Services and handlers are polymorphic in the state; the
  program's is \<open>world\<close> (tables, keys, clock, number of calls), inside \<open>server\<close> (with the dispatcher and
  the four rate limiters) for the HTTP layer. The environment decides, call by call, whether it fails
  and whether its effect took place (\<open>env_fault\<close>), and which of several rows a query without an
  order returns (\<open>env_pick\<close>). Errors are values (\<open>goerr\<close>, a chain as \<open>errors.Is\<close> sees it), a method
  with an error result gives a sum, a panic is \<open>None\<close> or \<open>Some\<close> text of a handler. A context is
  its deadline.

  \<^bold>\<open>Interfaces.\<close> \<open>Contracts\<close> and \<open>ScannerContracts\<close> state what the services rely on as locales (URL store,
  cache, writer, reporter, scanner) and prove the services from the laws alone; \<open>WorldView\<close>,
  \<open>StoreLaws\<close> and \<open>ScannerLaws\<close> interpret them on the program's repositories, cache and scanners. In the
  same way \<open>Interference\<close> states what threads may rely on while others run, and \<open>ServiceSafety\<close> proves the
  services as threads from the same laws; \<open>ClickStore\<close> states the click log of the dispatcher, and \<open>ClickFrames\<close> that a service
  changes the state only through its calls.

  \<^bold>\<open>What is shown.\<close>
  \<^item> \<open>System\<close>: the requests and jobs as steps, and the invariant of every reachable state;
    \<open>FaultFree\<close>, \<open>Blocking\<close>, \<open>Statistics\<close>: what the services do when every call is answered. The
    properties are in this theory: safety of redirects, shortening and visiting, malicious URLs,
    reports, statistics, scans, and the schema.
  \<^item> \<open>Threads\<close>, \<open>ServiceThreads\<close>: the services cut at their calls; \<open>Interference\<close>, \<open>ServiceSafety\<close>, \<open>Interleavings\<close>:
    rely and guarantee, and the properties of every interleaving of requests and jobs.
  \<^item> \<open>HandlerThreads\<close>, \<open>ThreadFrames\<close>, \<open>ConcurrentServer\<close>: the handlers with their limiters cut at their calls, and the
    server in which every request is a goroutine: the invariants of the tables, the caches, the queue and the click log
    after every call, and what a client has been answered.
  \<^item> \<open>Base62\<close>, \<open>CanonicalURL\<close>, \<open>URLChecks\<close>, \<open>Anonymize\<close>, \<open>Config\<close>: the pure parts, with round trips,
    canonical forms and exact characterisations.
  \<^item> \<open>DispatcherRuns\<close>, \<open>Delivery\<close>: every interleaving of submitters, workers and the shutdown: events
    are conserved, the queue is bounded, the pool refines a bounded bag, the shutdown drains.
  \<^item> \<open>RateLimitLaws\<close>, \<open>LimiterRuns\<close>: the limiter per client and the eviction of idle entries, by whole operations;
    then the same code interleaved at every operation of its map and its entries: it is linearizable while
    nothing is evicted, clients stay apart, and a race of the eviction lets a client through.
  \<^item> \<open>MiddlewareLaws\<close>, \<open>BodyLaws\<close>: log values, request ids, request bodies.
  \<^item> \<open>HttpLaws\<close>, \<open>ServerLaws\<close>, \<open>Requests\<close>: headers of every response, panics, redirects, rejected URLs, and
    that the running server refines the models of its parts.
  \<^item> \<open>Shortfalls\<close>: inputs and orders of steps on which the code does less than it means to.
  \<^item> \<open>Demo\<close> is the concrete run on which the properties are applied.

  \<^bold>\<open>Bounds and fuel.\<close> Integers of fixed size are words (\<open>u64\<close> ids) or integers with \<open>int64\<close> written out
  (durations, counters). \<open>parse_value\<close> has fuel beyond twice the length of the text, and
  \<open>GoJSON\<close> shows that more changes nothing. The polling loop of VirusTotal is a partial function: that it
  ends under a deadline is a property. Everything else is total.

  \<^bold>\<open>Granularity.\<close> There are two models of the running program. In \<open>System\<close>, and in the server above it
  (\<open>server_step\<close>), a step is a whole request or job. In \<open>Interleavings\<close>, and in \<open>ConcurrentServer\<close> above it, a step is one call to
  MySQL, Redis or the scanner, a decision of a limiter, the hand-over of a click, or a reading of the clock, and requests and jobs
  interleave at every such point, with the workers of the dispatcher, the eviction of limiters and the
  shutdown. The two are tied together: a job or request that runs uninterrupted computes the function of its service
  (\<open>job_alone\<close>) or of its handler (\<open>endpoint_imitates\<close>), every state of the first model of the system is one of the second
  (\<open>reachable_runs\<close>), and the invariant holds in both. One scan by the inner scanner and one wait of
  the rescanner are single steps: they touch neither rows nor redirects. A decision of a limiter is one step;
  \<open>limiter_linearizable\<close> says when that is right, and \<open>eviction_race\<close> when it is not. The clock stands still during
  calls to MySQL and Redis and moves in waits, HTTP calls and between steps.

  \<^bold>\<open>Parameters\<close> stand for code outside the repository: the Unicode tables and the IDNA profile, the
  collation of MySQL, the results of HTTP calls, \<open>x/time/rate\<close> and \<open>float64\<close>, the CORS and RealIP
  middleware and the router of chi, random bytes, stack traces, and what the drivers and the
  migration library answer at the start. \<open>lib_ok\<close> and \<open>refills\<close> state what is relied on.

  \<^bold>\<open>Not modelled\<close>: the texts of log messages apart from the request log, the reading of a \<open>.env\<close> file,
  tracing of contexts through the drivers and the timeouts of \<open>http.Server\<close>. In \<open>ConcurrentServer\<close> a request starts where the
  router passes it on, with any headers set on its writer and nothing sent: the middleware around the router
  (security headers, CORS, request id, recovery, request log) works on the writer of its own request
  and on the log alone, and is in \<open>server_handler\<close>. \<open>Range\<close> of a \<open>sync.Map\<close> reads the value of a key when it visits it.
\<close>

section \<open>The running system\<close>

text \<open>C5: in every state that requests, background jobs and the passing of time reach from an empty
  database, under any faults of MySQL and Redis: the tables satisfy their constraints, every
  stored URL passes validation and has no hash or the encoding of its id, the scan cache holds
  verdicts only, and the redirect cache agrees with the rows.\<close>

theorem reachable_invariant:
  assumes "reachable p cfg w"
  shows "db_ok (pf_env p) w \<and> scan_cache_ok (pf_uc p) w \<and>
    (\<forall>u\<in>set (w_urls w). ValidateURL (pf_uc p) (lib_idna (pf_lib p)) (u_OriginalURL u) (cfg_BaseURL cfg) = Inr () \<and>
       u_Hash u \<in> {[], Encode (u_ID u)}) \<and>
    (\<forall>h orig st. cached_entry (pf_uc p) w h = Some (orig, st) \<longrightarrow>
       (\<exists>u\<in>set (w_urls w). same_text (pf_env p) (u_Hash u) h \<and> u_OriginalURL u = orig)) \<and>
    (\<forall>h. cached_ident w h \<noteq> 0 \<longrightarrow>
       (\<exists>u\<in>set (w_urls w). same_text (pf_env p) (u_Hash u) h \<and> u_ID u = cached_ident w h))"
  using reachable_sys_ok [OF assms] unfolding sys_ok_iff by blast

theorem reachable_invariant_witness:
  "w_urls demo_reported \<noteq> [] \<and> db_ok demo_env demo_reported \<and>
   ValidateURL ascii_tables Some (u_OriginalURL (hd (w_urls demo_reported))) ''https://snip.io'' = Inr ()"
proof -
  have "row_of demo_env demo_inserted demo_hash1 = Some demo_clean_row"
    by (simp add: demo_inserted_def row_of_def)
  then have "w_urls demo_reported \<noteq> []"
    using blocked_row [OF demo_enum, of "tick demo_inserted" demo_hash1 demo_clean_row]
    by (auto simp: demo_reported_def report_count_calls row_of_def demo_inserted_def)
  moreover from this have "hd (w_urls demo_reported) \<in> set (w_urls demo_reported)" by simp
  ultimately show ?thesis using reachable_invariant [OF demo_reachable_reported] by simp
qed

text \<open>A redirect leads to a stored URL that the hash selects and that has passed validation,
  whether the answer comes from the cache or from the database.\<close>

theorem redirect_safe:
  assumes "reachable p cfg w" and "resolve_step p cfg h w = ((Some u, None), w')"
  shows "\<exists>r\<in>set (w_urls w). same_text (pf_env p) (u_Hash r) h \<and> u_OriginalURL r = u_OriginalURL u \<and>
    ValidateURL (pf_uc p) (lib_idna (pf_lib p)) (u_OriginalURL u) (cfg_BaseURL cfg) = Inr ()"
proof -
  have ok: "system_ok (world_view p) (same_text (pf_env p)) (pf_lib p) (cfg_BaseURL cfg) w"
    using reachable_sys_ok [OF assms(1)] by (simp add: sys_ok_def)
  have "resolver.answers p w h u" by (rule resolver.Resolve_answers [OF redirectorSvc_wired ok assms(2)])
  from resolver.answers_good [OF this ok] show ?thesis by (auto simp: row_good_def)
qed

theorem redirect_safe_witness:
  "\<exists>r\<in>set (w_urls demo_short). same_text demo_env (u_Hash r) ''1000001'' \<and> u_OriginalURL r = ''https://example.org/page'' \<and>
    ValidateURL ascii_tables Some ''https://example.org/page'' ''https://snip.io'' = Inr ()"
  using redirect_safe [OF demo_reachable(2) demo_resolve] by (simp add: demo_url_def)

text \<open>C8: when the services answer every call and \<open>Shorten\<close> has stored a new URL, the hash it returns
  is the encoding of the new id, the URL is the normalised input, the scan did not call it
  malicious, and visiting the hash redirects to it.\<close>

theorem shorten_then_resolve:
  assumes "no_faults (pf_env p)" "reachable p cfg w"
    and "shorten_step p cfg ctx url w = ((Some u, r, None), w')" "length (w_urls w') \<noteq> length (w_urls w)"
  shows "u_Hash u = Encode (u_ID u) \<and> NormalizeURL (pf_uc p) url = Inr (u_OriginalURL u) \<and>
    sr_Status r \<noteq> ScanMalicious \<and>
    fst (resolve_step p cfg (u_Hash u) w') = (Some (zero_url\<lparr>u_Hash := u_Hash u, u_OriginalURL := u_OriginalURL u,
      u_ID := u_ID u, u_VTStatus := sr_Status r\<rparr>), None)"
proof -
  note c = Shorten_then_cached [OF assms(1) reachable_sys_ok [OF assms(2)] assms(3,4)]
  then have "resolve_step p cfg (u_Hash u) w' = ((Some (zero_url\<lparr>u_Hash := u_Hash u, u_OriginalURL := u_OriginalURL u,
      u_ID := cached_ident w' (u_Hash u), u_VTStatus := sr_Status r\<rparr>), None), tick w')"
    by (intro resolve_hit [OF assms(1)]) blast+
  with c show ?thesis by auto
qed

theorem shorten_then_resolve_witness:
  "fst (resolve_step demo_platform demo_config ''1000001'' demo_short) = (Some (zero_url\<lparr>u_Hash := ''1000001'',
      u_OriginalURL := ''https://example.org/page'', u_ID := 1, u_VTStatus := ''clean''\<rparr>), None)"
proof -
  have "length (w_urls demo_short) \<noteq> length (w_urls demo_start)" by (simp add: demo_start_def empty_world_def)
  moreover have "no_faults (pf_env demo_platform)" by simp
  ultimately show ?thesis
    using shorten_then_resolve [OF _ demo_reachable(1) demo_shorten] demo_resolve
    by (simp add: demo_url_def scan_status_defs)
qed





text \<open>C12: a second report of a URL from an address that anonymises to the same network is answered as a
  duplicate, and changes neither reports nor URLs.\<close>

theorem report_duplicate:
  assumes nf: "no_faults (pf_env p)" and w: "reachable p cfg w"
    and u: "row_of (pf_env p) w h = Some u" and r: "IsValidReason reason"
    and dup: "reported_by (pf_env p) w (u_ID u) (AnonymizeIP (stripPort ip))"
    and fits: "fits 45 (AnonymizeIP (stripPort ip))" "w_next_report w < 2 ^ 64"
  shows "\<exists>w'. Report (reportSvc p cfg) h ip reason w = (Some (Sentinel ErrDuplicateReport), w') \<and>
    w_reports w' = w_reports w \<and> w_urls w' = w_urls w"
proof -
  have ok: "db_ok (pf_env p) w" using reachable_sys_ok [OF w] by (simp add: sys_ok_iff)
  have "reported_by (pf_env p) (tick (tick w)) (u_ID u) (AnonymizeIP (stripPort ip))"
    using dup by (simp add: reported_by_def)
  moreover have "w_next_report (tick (tick w)) < 2 ^ 64" using fits(2) by simp
  ultimately show ?thesis
    by (simp add: Report_row [OF nf ok u r] insert_duplicate [OF valid_reason_enum [OF r] fits(1)] duplicate_text)
qed

theorem report_duplicate_witness:
  "\<exists>w'. Report (reportSvc demo_platform demo_config) ''1000001'' ''203.0.113.77:80'' ''spam'' demo_reported =
    (Some (Sentinel ErrDuplicateReport), w') \<and> w_reports w' = [demo_report]"
proof -
  have row: "row_of demo_env demo_inserted demo_hash1 = Some demo_clean_row" by (simp add: demo_inserted_def row_of_def)
  obtain r where r: "row_of (pf_env demo_platform) demo_reported demo_hash1 = Some r" "u_ID r = 1"
    using blocked_row [OF demo_enum, of "tick demo_inserted" demo_hash1 demo_clean_row] row
    by (cases "cfg_ReportAutoBlockThreshold demo_config \<le> select_count demo_env (CountReporters 1) demo_inserted")
      (auto simp: demo_reported_def report_count_calls)
  have "reported_by (pf_env demo_platform) demo_reported (u_ID r) (AnonymizeIP (stripPort ''203.0.113.77:80''))"
    unfolding reported_by_def demo_anon demo_reported_reports using r by (simp add: demo_report_def)
  moreover have "fits 45 (AnonymizeIP (stripPort ''203.0.113.77:80''))" unfolding demo_anon by code_simp
  moreover have "w_next_report demo_reported < 2 ^ 64"
    by (auto simp: demo_reported_def report_count_calls blocked_def redis_remove_def set_vt_status_def
        demo_inserted_def split: option.split)
  moreover have "IsValidReason ''spam''" by code_simp
  moreover have "no_faults (pf_env demo_platform)" by simp
  ultimately show ?thesis
    using report_duplicate [OF _ demo_reachable_reported r(1), of "''spam''" "''203.0.113.77:80''"]
    by (auto simp: demo_reported_reports)
qed


definition demo_click :: click where
  "demo_click = \<lparr>c_ID = 1, c_URLID = 1, c_AccessedAt = demo_time, c_UserAgent = ''curl/8.5.0'', c_IP = ''203.0.113.0''\<rparr>"


section \<open>Scans\<close>

text \<open>C23: as long as the cache keeps the result of a scan, scanning the URL again gives the same result
  and asks no scanner. (A result whose year is not of four digits cannot be stored.)\<close>

theorem scan_repeats:
  assumes nf: "no_faults (pf_env p)"
    and s: "sc_Scan (cachedScanner p cfg) (Some dl) url w = ((r, e), w1)"
    and year: "0 \<le> year_of (sr_ScannedAt r)" "year_of (sr_ScannedAt r) \<le> 9999"
    and kept: "live w2 (cacheKey url) = live w1 (cacheKey url)"
  shows "sc_Scan (cachedScanner p cfg) ctx url w2 = ((r, None), tick w2)"
  by (rule scan_stored [OF nf s year]) (use kept scan_from_cache [OF nf] in simp)

theorem scan_repeats_witness:
  "sc_Scan (cachedScanner demo_platform demo_config) None demo_url demo_scanned =
    ((status_result ScanClean demo_time, None), tick demo_scanned)"
proof -
  have "0 \<le> year_of demo_time" "year_of demo_time \<le> 9999" by code_simp+
  then show ?thesis using scan_repeats [OF _ demo_scan, of demo_scanned None] by simp
qed


section \<open>The tables\<close>

text \<open>Every statement of the repositories, also one that fails before or after its effect, keeps the
  constraints of the schema: ids and hashes unique, clicks and reports refer to stored URLs, one
  report per URL and address, statuses and reasons of their enumerations.\<close>

theorem statements_keep_schema:
  assumes "db_ok env w" shows "db_ok env (snd (mysql_exec env st w))"
  using assms by (rule mysql_exec_ok)

theorem statements_keep_schema_witness:
  "db_ok demo_env (snd (mysql_exec demo_env (SetHash ''abc'' 1) demo_short))"
  using demo_short_db_ok by (rule statements_keep_schema)

text \<open>When the database answers, looking a hash up is the partial function that the unique rows define.\<close>

theorem FindByHash_is_lookup:
  assumes "no_faults env" "db_ok env w"
  shows "FindByHash (mysql env) h w =
    (case row_of env w h of None \<Rightarrow> Inl (Sentinel ErrURLNotFound) | Some u \<Rightarrow> Inr u, tick w)"
  using assms by (rule find_hash_row)

theorem FindByHash_is_lookup_witness:
  "FindByHash (mysql demo_env) ''1000001'' demo_short = (Inr demo_clean_row, tick demo_short)"
  using FindByHash_is_lookup [OF demo_no_faults demo_short_db_ok, of "''1000001''"] demo_row_of by simp

end
